(* ===== verification/Sponge_Prelude.thy ===== *)
theory Sponge_Prelude
  imports Main "HOL-Library.Word"
begin

text \<open>
  What every component of the development shares: the names of the C++ integer types, the
  outcome of a C++ call (a value, an exception, undefined behaviour, or a loop that never
  ends), the few operations of \<^verbatim>\<open>std::string\<close> the sources use, and the facts that move
  word arithmetic to natural numbers when nothing wraps.
\<close>

section \<open>Integer types\<close>

type_synonym u8 = "8 word"
type_synonym u16 = "16 word"
type_synonym u32 = "32 word"
type_synonym u64 = "64 word"
type_synonym size_t = "64 word"
type_synonym bytes = "8 word list"

section \<open>Outcomes of a call\<close>

text \<open>
  \<open>Runtime_error\<close>, \<open>Out_of_range\<close> and \<open>Length_error\<close> are the standard exceptions,
  \<open>Tagged_error\<close> is the exception of \<^verbatim>\<open>util.hh\<close> for a failed library or system call, with what was
  attempted and the error code; \<open>Bad_optional_access\<close> is thrown by \<^verbatim>\<open>optional::value\<close>.
  \<open>Undefined\<close> marks a call the language gives no meaning (\<^verbatim>\<open>back()\<close> of an empty
  list), \<open>Diverges\<close> a loop that does not end.
\<close>

datatype failure =
    Runtime_error string
  | Out_of_range string
  | Length_error string
  | Tagged_error string int
  | Bad_optional_access
  | Undefined string
  | Diverges

type_synonym 'a outcome = "failure + 'a"

fun bindE :: "'a outcome \<Rightarrow> ('a \<Rightarrow> 'b outcome) \<Rightarrow> 'b outcome" where
  "bindE (Inl e) f = Inl e"
| "bindE (Inr x) f = f x"

lemma bindE_Inr_iff: "bindE m f = Inr y \<longleftrightarrow> (\<exists>x. m = Inr x \<and> f x = Inr y)"
  by (cases m) auto

lemma bindE_assoc: "bindE (bindE m f) g = bindE m (\<lambda>x. bindE (f x) g)"
  by (cases m) auto

lemma bindE_cong [fundef_cong]: "m = m' \<Longrightarrow> (\<And>x. m' = Inr x \<Longrightarrow> f x = g x) \<Longrightarrow> bindE m f = bindE m' g"
  by (cases m') auto

lemma bindE_return [simp]: "bindE m Inr = m"
  by (cases m) auto

definition returns :: "'a outcome \<Rightarrow> bool" where
  "returns m \<longleftrightarrow> (\<exists>x. m = Inr x)"

lemma returns_simps [simp]: "returns (Inr x)" "\<not> returns (Inl e)"
  by (auto simp: returns_def)

lemma returnsE [elim?]:
  assumes "returns m"
  obtains x where "m = Inr x"
  using assms by (auto simp: returns_def)

text \<open>
  \<open>runs m Q\<close>: the call returns and its result satisfies \<open>Q\<close>.  The rules of the collection
  \<open>runs_rules\<close> reduce it through a sequence of calls, one rule per operation.
\<close>

definition runs :: "'a outcome \<Rightarrow> ('a \<Rightarrow> bool) \<Rightarrow> bool" where
  "runs m Q \<longleftrightarrow> (\<exists>x. m = Inr x \<and> Q x)"

named_theorems runs_rules \<open>rules for the outcome of an operation\<close>

lemma runs_Inr [simp]: "runs (Inr x) Q = Q x" "\<not> runs (Inl e) Q"
  by (simp_all add: runs_def)

lemma runs_bindE [simp]: "runs (bindE m f) Q = runs m (\<lambda>x. runs (f x) Q)"
  by (cases m) simp_all

lemma runs_mono: "runs m P \<Longrightarrow> (\<And>x. P x \<Longrightarrow> Q x) \<Longrightarrow> runs m Q"
  by (auto simp: runs_def)

lemma runsE:
  assumes "runs m Q"
  obtains x where "m = Inr x" "Q x"
  using assms by (auto simp: runs_def)

section \<open>Sizes and substrings of byte strings\<close>

text \<open>The bytes of a \<^verbatim>\<open>std::string\<close> given as text.\<close>

definition bytes_of_string :: "string \<Rightarrow> bytes" where
  "bytes_of_string = map of_char"

text \<open>
  \<^verbatim>\<open>size()\<close> of a string is a \<^verbatim>\<open>size_t\<close>; \<open>fits\<close> says that the length is
  representable, which holds of every string a C++ program can hold.
\<close>

definition sz :: "'a list \<Rightarrow> size_t" where
  "sz xs = word_of_nat (length xs)"

definition fits :: "'a list \<Rightarrow> bool" where
  "fits xs \<longleftrightarrow> length xs < 2 ^ 64"

lemma fits_Nil [simp]: "fits []"
  by (simp add: fits_def)

lemma fits_take [simp]: "fits xs \<Longrightarrow> fits (take n xs)"
  by (simp add: fits_def)

lemma fits_drop [simp]: "fits xs \<Longrightarrow> fits (drop n xs)"
  by (simp add: fits_def)

lemma unat_sz [simp]: "fits xs \<Longrightarrow> unat (sz xs) = length xs"
  by (simp add: sz_def fits_def unat_of_nat)

lemma sz_Nil [simp]: "sz [] = 0"
  by (simp add: sz_def)

lemma sz_eq_0_iff: "fits xs \<Longrightarrow> sz xs = 0 \<longleftrightarrow> xs = []"
  by (metis length_0_conv sz_Nil unat_0 unat_sz)

text \<open>\<^verbatim>\<open>std::string::substr(pos, n)\<close> throws when the position is past the end.\<close>

definition string_substr :: "bytes \<Rightarrow> size_t \<Rightarrow> size_t \<Rightarrow> bytes outcome" where
  "string_substr s pos n =
     (if sz s < pos then Inl (Out_of_range ''basic_string::substr'')
      else Inr (take (unat n) (drop (unat pos) s)))"

text \<open>\<^verbatim>\<open>std::to_string\<close> of an unsigned number and of an \<^verbatim>\<open>int\<close>.\<close>

fun decimal :: "nat \<Rightarrow> string" where
  "decimal n = (if n < 10 then [char_of (48 + n)] else decimal (n div 10) @ [char_of (48 + n mod 10)])"

declare decimal.simps [simp del]

definition string_of_int :: "int \<Rightarrow> string" where
  "string_of_int i = (if i < 0 then ''-'' @ decimal (nat (- i)) else decimal (nat i))"

section \<open>Words as natural numbers\<close>

named_theorems word_nat \<open>comparisons of words as comparisons of natural numbers\<close>

lemmas word_nat_order [word_nat] = word_less_nat_alt word_le_nat_alt

lemma word_eq_unat [word_nat]: "(a :: 'a::len word) = b \<longleftrightarrow> unat a = unat b"
  by (rule word_unat_eq_iff)

lemma unat_add_nowrap:
  fixes a b :: "'a::len word"
  shows "unat a + unat b < 2 ^ LENGTH('a) \<Longrightarrow> unat (a + b) = unat a + unat b"
  by (simp add: unat_add_lem [symmetric])

lemma unat_sub_nowrap:
  fixes a b :: "'a::len word"
  shows "unat b \<le> unat a \<Longrightarrow> unat (a - b) = unat a - unat b"
  by (simp add: unat_sub word_le_nat_alt)

lemma unat_max [simp]: "unat (max a b) = max (unat a) (unat b)"
  by (simp add: max_def word_le_nat_alt)

lemma unat_min [simp]: "unat (min a b) = min (unat a) (unat b)"
  by (simp add: min_def word_le_nat_alt)

lemma unat_lt64: "unat (a :: 64 word) < 2 ^ 64"
  using unsigned_less [of a, where ?'a = nat] by simp

lemma unat_of_nat_eq: "n < 2 ^ LENGTH('a) \<Longrightarrow> unat (word_of_nat n :: 'a::len word) = n"
  by (simp add: unat_of_nat)

end
