(* ===== verification/Byte_Stream.thy ===== *)
theory Byte_Stream
  imports Sponge_Prelude
begin

text \<open>
  \<^verbatim>\<open>libsponge/byte_stream.{hh,cc}\<close>: the flow-controlled in-memory byte stream that the
  sender reads from and the reassembler writes to.  The record is the class, one definition
  per method.  The stream is shown to refine an unbounded-counter FIFO, and the locale
  \<open>flow_controlled_stream\<close> states what its clients (reassembler, sender, socket) rely on.
\<close>

section \<open>State and operations\<close>

record byte_stream =
  bs_buffer :: bytes
  bs_capacity :: size_t
  bs_is_ended :: bool
  bs_written_length :: size_t
  bs_error :: bool

definition ByteStream_new :: "size_t \<Rightarrow> byte_stream" where
  "ByteStream_new capacity =
     \<lparr>bs_buffer = [], bs_capacity = capacity, bs_is_ended = False,
      bs_written_length = 0, bs_error = False\<rparr>"

definition ByteStream_buffer_size :: "byte_stream \<Rightarrow> size_t" where
  "ByteStream_buffer_size s = sz (bs_buffer s)"

definition ByteStream_buffer_empty :: "byte_stream \<Rightarrow> bool" where
  "ByteStream_buffer_empty s \<longleftrightarrow> bs_buffer s = []"

definition ByteStream_remaining_capacity :: "byte_stream \<Rightarrow> size_t" where
  "ByteStream_remaining_capacity s = bs_capacity s - ByteStream_buffer_size s"

definition ByteStream_write :: "byte_stream \<Rightarrow> bytes \<Rightarrow> byte_stream \<times> size_t" where
  "ByteStream_write s data =
     (let append_length =
        (if ByteStream_remaining_capacity s \<le> sz data
         then ByteStream_remaining_capacity s else sz data)
      in (s\<lparr>bs_buffer := bs_buffer s @ take (unat append_length) data,
            bs_written_length := bs_written_length s + append_length\<rparr>,
          append_length))"

definition ByteStream_set_error :: "byte_stream \<Rightarrow> byte_stream" where
  "ByteStream_set_error s = s\<lparr>bs_error := True\<rparr>"

definition ByteStream_peek_output :: "byte_stream \<Rightarrow> size_t \<Rightarrow> bytes" where
  "ByteStream_peek_output s len =
     (if len > ByteStream_buffer_size s then [] else take (unat len) (bs_buffer s))"

definition ByteStream_pop_output :: "byte_stream \<Rightarrow> size_t \<Rightarrow> byte_stream" where
  "ByteStream_pop_output s len =
     (if len > ByteStream_buffer_size s then ByteStream_set_error s
      else s\<lparr>bs_buffer := drop (unat len) (bs_buffer s)\<rparr>)"

definition ByteStream_read :: "byte_stream \<Rightarrow> size_t \<Rightarrow> byte_stream \<times> bytes" where
  "ByteStream_read s len =
     (if len > ByteStream_buffer_size s then (ByteStream_set_error s, [])
      else (let str = ByteStream_peek_output s len in (ByteStream_pop_output s len, str)))"

definition ByteStream_end_input :: "byte_stream \<Rightarrow> byte_stream" where
  "ByteStream_end_input s = s\<lparr>bs_is_ended := True\<rparr>"

definition ByteStream_input_ended :: "byte_stream \<Rightarrow> bool" where
  "ByteStream_input_ended s \<longleftrightarrow> bs_is_ended s"

definition ByteStream_eof :: "byte_stream \<Rightarrow> bool" where
  "ByteStream_eof s \<longleftrightarrow> ByteStream_input_ended s \<and> ByteStream_buffer_empty s"

definition ByteStream_bytes_written :: "byte_stream \<Rightarrow> size_t" where
  "ByteStream_bytes_written s = bs_written_length s"

definition ByteStream_bytes_read :: "byte_stream \<Rightarrow> size_t" where
  "ByteStream_bytes_read s = ByteStream_bytes_written s - ByteStream_buffer_size s"

named_theorems byte_stream_defs \<open>definitions of the methods of ByteStream\<close>

lemmas [byte_stream_defs] =
  ByteStream_new_def ByteStream_buffer_size_def ByteStream_buffer_empty_def
  ByteStream_remaining_capacity_def ByteStream_write_def ByteStream_set_error_def
  ByteStream_peek_output_def ByteStream_pop_output_def ByteStream_read_def
  ByteStream_end_input_def ByteStream_input_ended_def ByteStream_eof_def
  ByteStream_bytes_written_def ByteStream_bytes_read_def

section \<open>The capacity invariant\<close>

definition ByteStream_wf :: "byte_stream \<Rightarrow> bool" where
  "ByteStream_wf s \<longleftrightarrow> length (bs_buffer s) \<le> unat (bs_capacity s)"

lemma ByteStream_wf_fits [simp]: "ByteStream_wf s \<Longrightarrow> fits (bs_buffer s)"
  using unat_lt64 [of "bs_capacity s"] by (simp add: ByteStream_wf_def fits_def)

text \<open>A copy of at most 65536 bytes of what waits.\<close>

lemma peek_at_most:
  fixes st :: byte_stream
  defines "buf \<equiv> ByteStream_peek_output st (min 65536 (ByteStream_buffer_size st))"
  shows "length buf \<le> 65536" "buf = take (length buf) (bs_buffer st)" "length buf \<le> unat (ByteStream_buffer_size st)"
proof -
  define k where "k = min 65536 (ByteStream_buffer_size st)"
  have k: "unat k \<le> 65536" "k \<le> ByteStream_buffer_size st"
    using word_le_nat_alt [of k 65536] by (simp_all add: k_def)
  have b: "buf = take (unat k) (bs_buffer st)"
    using k(2) by (simp add: buf_def k_def ByteStream_peek_output_def not_less)
  then show "length buf \<le> 65536" "buf = take (length buf) (bs_buffer st)"
    using k(1) by (auto simp: min_def)
  show "length buf \<le> unat (ByteStream_buffer_size st)"
    using b k(2) by (simp add: word_le_nat_alt)
qed

lemma ByteStream_wf_new [simp]: "ByteStream_wf (ByteStream_new c)"
  by (simp add: ByteStream_wf_def ByteStream_new_def)

lemma unat_buffer_size [simp]:
  "ByteStream_wf s \<Longrightarrow> unat (ByteStream_buffer_size s) = length (bs_buffer s)"
  by (simp add: ByteStream_buffer_size_def)

lemma unat_remaining_capacity [simp]:
  "ByteStream_wf s \<Longrightarrow>
   unat (ByteStream_remaining_capacity s) = unat (bs_capacity s) - length (bs_buffer s)"
  using unat_buffer_size [of s]
  by (simp add: ByteStream_remaining_capacity_def ByteStream_wf_def unat_sub_nowrap)

text \<open>On a well-formed stream a write appends exactly the prefix that fits.\<close>

lemma ByteStream_write_wf:
  assumes "ByteStream_wf s" "fits data"
  shows "bs_buffer (fst (ByteStream_write s data)) =
           bs_buffer s @ take (unat (bs_capacity s) - length (bs_buffer s)) data"
    and "unat (snd (ByteStream_write s data)) =
           min (unat (bs_capacity s) - length (bs_buffer s)) (length data)"
    and "bs_written_length (fst (ByteStream_write s data)) =
           bs_written_length s + snd (ByteStream_write s data)"
    and "bs_capacity (fst (ByteStream_write s data)) = bs_capacity s"
    and "bs_is_ended (fst (ByteStream_write s data)) = bs_is_ended s"
    and "bs_error (fst (ByteStream_write s data)) = bs_error s"
  using assms by (auto simp: ByteStream_write_def Let_def word_nat)

lemma ByteStream_wf_write [simp]:
  "ByteStream_wf s \<Longrightarrow> fits data \<Longrightarrow> ByteStream_wf (fst (ByteStream_write s data))"
  by (simp add: ByteStream_wf_def [of "fst _"] ByteStream_write_wf) (simp add: ByteStream_wf_def)

lemma ByteStream_wf_pop [simp]: "ByteStream_wf s \<Longrightarrow> ByteStream_wf (ByteStream_pop_output s n)"
  by (auto simp: ByteStream_wf_def ByteStream_pop_output_def ByteStream_set_error_def)

lemma ByteStream_wf_read [simp]: "ByteStream_wf s \<Longrightarrow> ByteStream_wf (fst (ByteStream_read s n))"
  by (simp add: ByteStream_read_def Let_def) (simp add: ByteStream_wf_def ByteStream_set_error_def)

lemma ByteStream_wf_end_input [simp]: "ByteStream_wf (ByteStream_end_input s) = ByteStream_wf s"
  by (simp add: ByteStream_wf_def ByteStream_end_input_def)

lemma ByteStream_wf_set_error [simp]: "ByteStream_wf (ByteStream_set_error s) = ByteStream_wf s"
  by (simp add: ByteStream_wf_def ByteStream_set_error_def)


section \<open>Refinement of an unbounded FIFO\<close>

text \<open>
  The specification keeps everything ever accepted and how much of it was removed, in
  unbounded numbers.  \<open>fifo_sim\<close> relates it to the class: the buffer is what was accepted
  and not yet removed, and the 64-bit counter is the number of accepted bytes modulo \<open>2 ^ 64\<close>.
\<close>

record fifo =
  ff_accepted :: bytes
  ff_removed :: nat
  ff_capacity :: nat
  ff_ended :: bool
  ff_error :: bool

datatype stream_op =
    Op_write bytes
  | Op_pop_output size_t
  | Op_read size_t
  | Op_peek_output size_t
  | Op_end_input
  | Op_set_error

definition fifo_waiting :: "fifo \<Rightarrow> bytes" where
  "fifo_waiting f = drop (ff_removed f) (ff_accepted f)"

fun fifo_step :: "fifo \<Rightarrow> stream_op \<Rightarrow> fifo \<times> bytes" where
  "fifo_step f (Op_write d) =
     (f\<lparr>ff_accepted := ff_accepted f @ take (ff_capacity f - length (fifo_waiting f)) d\<rparr>, [])"
| "fifo_step f (Op_pop_output n) =
     (if length (fifo_waiting f) < unat n then (f\<lparr>ff_error := True\<rparr>, [])
      else (f\<lparr>ff_removed := ff_removed f + unat n\<rparr>, []))"
| "fifo_step f (Op_read n) =
     (if length (fifo_waiting f) < unat n then (f\<lparr>ff_error := True\<rparr>, [])
      else (f\<lparr>ff_removed := ff_removed f + unat n\<rparr>, take (unat n) (fifo_waiting f)))"
| "fifo_step f (Op_peek_output n) =
     (f, if length (fifo_waiting f) < unat n then [] else take (unat n) (fifo_waiting f))"
| "fifo_step f Op_end_input = (f\<lparr>ff_ended := True\<rparr>, [])"
| "fifo_step f Op_set_error = (f\<lparr>ff_error := True\<rparr>, [])"

fun ByteStream_step :: "byte_stream \<Rightarrow> stream_op \<Rightarrow> byte_stream \<times> bytes" where
  "ByteStream_step s (Op_write d) = (fst (ByteStream_write s d), [])"
| "ByteStream_step s (Op_pop_output n) = (ByteStream_pop_output s n, [])"
| "ByteStream_step s (Op_read n) = ByteStream_read s n"
| "ByteStream_step s (Op_peek_output n) = (s, ByteStream_peek_output s n)"
| "ByteStream_step s Op_end_input = (ByteStream_end_input s, [])"
| "ByteStream_step s Op_set_error = (ByteStream_set_error s, [])"

fun run_ops :: "('s \<Rightarrow> 'op \<Rightarrow> 's \<times> 'out) \<Rightarrow> 's \<Rightarrow> 'op list \<Rightarrow> 's \<times> 'out list" where
  "run_ops step s [] = (s, [])"
| "run_ops step s (x # xs) =
     (let (s', y) = step s x; (s'', ys) = run_ops step s' xs in (s'', y # ys))"

fun stream_op_fits :: "stream_op \<Rightarrow> bool" where
  "stream_op_fits (Op_write d) = fits d"
| "stream_op_fits _ = True"

definition fifo_new :: "nat \<Rightarrow> fifo" where
  "fifo_new c = \<lparr>ff_accepted = [], ff_removed = 0, ff_capacity = c,
                 ff_ended = False, ff_error = False\<rparr>"

definition fifo_sim :: "fifo \<Rightarrow> byte_stream \<Rightarrow> bool" where
  "fifo_sim f s \<longleftrightarrow>
     bs_buffer s = fifo_waiting f \<and> ff_removed f \<le> length (ff_accepted f) \<and>
     length (fifo_waiting f) \<le> ff_capacity f \<and> unat (bs_capacity s) = ff_capacity f \<and>
     bs_written_length s = word_of_nat (length (ff_accepted f)) \<and>
     bs_is_ended s = ff_ended f \<and> bs_error s = ff_error f"

lemma fifo_sim_new: "fifo_sim (fifo_new (unat c)) (ByteStream_new c)"
  by (simp add: fifo_sim_def fifo_new_def ByteStream_new_def fifo_waiting_def)

lemma fifo_sim_wf: "fifo_sim f s \<Longrightarrow> ByteStream_wf s"
  by (simp add: fifo_sim_def ByteStream_wf_def)

lemma ByteStream_step_sim:
  assumes "fifo_sim f s" "stream_op_fits x"
  shows "snd (ByteStream_step s x) = snd (fifo_step f x) \<and>
         fifo_sim (fst (fifo_step f x)) (fst (ByteStream_step s x))"
proof (cases x)
  case (Op_write d)
  let ?n = "min (ff_capacity f - length (fifo_waiting f)) (length d)"
  have wf: "ByteStream_wf s" and d: "fits d"
    using assms Op_write by (auto intro: fifo_sim_wf)
  have "unat (snd (ByteStream_write s d)) = ?n"
    using assms(1) by (simp add: ByteStream_write_wf [OF wf d] fifo_sim_def)
  then have "snd (ByteStream_write s d) = word_of_nat ?n"
    by (metis of_nat_unat ucast_id)
  then show ?thesis
    using assms(1) Op_write
    by (auto simp: fifo_sim_def fifo_waiting_def ByteStream_write_wf [OF wf d] min.commute)
next
  case (Op_pop_output n)
  then show ?thesis
    using assms fifo_sim_wf [OF assms(1)]
    by (auto simp: fifo_sim_def fifo_waiting_def ByteStream_pop_output_def
        ByteStream_set_error_def word_nat add.commute)
next
  case (Op_read n)
  then show ?thesis
    using assms fifo_sim_wf [OF assms(1)]
    by (auto simp: fifo_sim_def fifo_waiting_def ByteStream_read_def ByteStream_pop_output_def
        ByteStream_peek_output_def ByteStream_set_error_def word_nat add.commute)
next
  case (Op_peek_output n)
  then show ?thesis
    using assms fifo_sim_wf [OF assms(1)]
    by (auto simp: fifo_sim_def ByteStream_peek_output_def word_nat)
qed (use assms in \<open>auto simp: fifo_sim_def fifo_waiting_def ByteStream_end_input_def
      ByteStream_set_error_def\<close>)

lemma ByteStream_run_sim:
  assumes "fifo_sim f s" "list_all stream_op_fits xs"
  shows "snd (run_ops ByteStream_step s xs) = snd (run_ops fifo_step f xs) \<and>
         fifo_sim (fst (run_ops fifo_step f xs)) (fst (run_ops ByteStream_step s xs))"
  using assms
proof (induction xs arbitrary: f s)
  case Nil
  then show ?case by simp
next
  case (Cons x xs)
  then have "snd (ByteStream_step s x) = snd (fifo_step f x)"
    and "fifo_sim (fst (fifo_step f x)) (fst (ByteStream_step s x))"
    using ByteStream_step_sim [of f s x] by auto
  then show ?case
    using Cons.IH [of "fst (fifo_step f x)" "fst (ByteStream_step s x)"] Cons.prems
    by (simp add: case_prod_beta Let_def)
qed


section \<open>The interface its clients rely on\<close>

text \<open>
  What the reassembler, the TCP sender and the socket layer use of a stream: a write appends
  the prefix that there is room for and reports its length, a peek shows a prefix, a pop
  removes it.  The client lemmas are about the two patterns of the callers: hand over at most
  the advertised room, and peek at some bytes, pass on fewer, pop only those.
\<close>

locale flow_controlled_stream =
  fixes content :: "'s \<Rightarrow> bytes"
    and cap :: "'s \<Rightarrow> nat"
    and ok :: "'s \<Rightarrow> bool"
    and put :: "'s \<Rightarrow> bytes \<Rightarrow> 's \<times> size_t"
    and peek :: "'s \<Rightarrow> size_t \<Rightarrow> bytes"
    and pop :: "'s \<Rightarrow> size_t \<Rightarrow> 's"
  assumes ok_fits: "ok s \<Longrightarrow> fits (content s)"
    and ok_put: "ok s \<Longrightarrow> fits d \<Longrightarrow> ok (fst (put s d))"
    and ok_pop: "ok s \<Longrightarrow> ok (pop s n)"
    and content_put:
      "ok s \<Longrightarrow> fits d \<Longrightarrow>
       content (fst (put s d)) = content s @ take (cap s - length (content s)) d"
    and accepted:
      "ok s \<Longrightarrow> fits d \<Longrightarrow> unat (snd (put s d)) = min (cap s - length (content s)) (length d)"
    and cap_put: "cap (fst (put s d)) = cap s"
    and cap_pop: "cap (pop s n) = cap s"
    and peek_prefix:
      "ok s \<Longrightarrow> unat n \<le> length (content s) \<Longrightarrow> peek s n = take (unat n) (content s)"
    and content_pop:
      "ok s \<Longrightarrow> unat n \<le> length (content s) \<Longrightarrow> content (pop s n) = drop (unat n) (content s)"
begin

lemma put_within_room:
  assumes "ok s" "fits d" "length (content s) + length d \<le> cap s"
  shows "snd (put s d) = sz d" and "content (fst (put s d)) = content s @ d"
proof -
  have "unat (snd (put s d)) = unat (sz d)"
    using assms by (simp add: accepted)
  then show "snd (put s d) = sz d"
    by (simp add: word_nat)
  show "content (fst (put s d)) = content s @ d"
    using assms by (simp add: content_put)
qed

lemma peek_pop_keeps_bytes:
  assumes "ok s" "unat k \<le> length (content s)" "unat j \<le> unat k"
  shows "take (unat j) (peek s k) @ content (pop s j) = content s"
  using assms by (simp add: peek_prefix content_pop min_absorb1)

text \<open>
  A relay writes a string piece by piece and passes on everything buffered between the
  pieces, as the copying loops of the applications do.
\<close>

fun relay :: "'s \<Rightarrow> bytes list \<Rightarrow> bytes" where
  "relay s [] = []"
| "relay s (d # ds) =
     (let s1 = fst (put s d); n = sz (content s1) in peek s1 n @ relay (pop s1 n) ds)"

lemma relay_identity:
  assumes "ok s" "content s = []" "\<forall>d \<in> set ds. fits d \<and> length d \<le> cap s"
  shows "relay s ds = concat ds"
  using assms
proof (induction ds arbitrary: s)
  case Nil
  then show ?case by simp
next
  case (Cons d ds)
  define s1 where "s1 = fst (put s d)"
  have c: "content s1 = d" and ok1: "ok s1" and cap1: "cap s1 = cap s"
    using Cons.prems put_within_room(2) [of s d] ok_put [of s d] cap_put
    by (auto simp: s1_def)
  have d: "unat (sz d) \<le> length (content s1)"
    using Cons.prems c by simp
  have "content (pop s1 (sz d)) = []"
    using content_pop [OF ok1 d] Cons.prems c by simp
  then have "relay (pop s1 (sz d)) ds = concat ds"
    using Cons.IH [of "pop s1 (sz d)"] Cons.prems ok_pop [OF ok1] cap1 by (simp add: cap_pop)
  moreover have "peek s1 (sz d) = d"
    using peek_prefix [OF ok1 d] Cons.prems c by simp
  ultimately show ?case
    by (simp add: Let_def c s1_def [symmetric])
qed

end

lemma ByteStream_pop_buffer:
  assumes "ByteStream_wf s" "unat n \<le> length (bs_buffer s)"
  shows "ByteStream_pop_output s n = s\<lparr>bs_buffer := drop (unat n) (bs_buffer s)\<rparr>"
  using assms by (simp add: ByteStream_pop_output_def word_nat)

lemma ByteStream_peek_buffer:
  assumes "ByteStream_wf s" "unat n \<le> length (bs_buffer s)"
  shows "ByteStream_peek_output s n = take (unat n) (bs_buffer s)"
  using assms by (simp add: ByteStream_peek_output_def word_nat)

lemma ByteStream_read_buffer:
  assumes "ByteStream_wf s" "unat n \<le> length (bs_buffer s)"
  shows "ByteStream_read s n =
    (s\<lparr>bs_buffer := drop (unat n) (bs_buffer s)\<rparr>, take (unat n) (bs_buffer s))"
  using assms by (simp add: ByteStream_read_def ByteStream_pop_buffer ByteStream_peek_buffer word_nat)

lemma ByteStream_capacity_write [simp]: "bs_capacity (fst (ByteStream_write s d)) = bs_capacity s"
  by (simp add: ByteStream_write_def Let_def)

lemma ByteStream_capacity_pop [simp]: "bs_capacity (ByteStream_pop_output s n) = bs_capacity s"
  by (simp add: ByteStream_pop_output_def ByteStream_set_error_def)

interpretation bstream: flow_controlled_stream bs_buffer "\<lambda>s. unat (bs_capacity s)" ByteStream_wf
  ByteStream_write ByteStream_peek_output ByteStream_pop_output
  by unfold_locales
    (simp_all add: ByteStream_write_wf ByteStream_peek_buffer ByteStream_pop_buffer)

section \<open>Properties\<close>



text \<open>
  A client that looks at \<open>k\<close> buffered bytes, passes on \<open>j \<le> k\<close> of them and pops those
  (rule 3 of \<^verbatim>\<open>TCPSpongeSocket\<close>, rules 2 and 4 of the stream copier) neither loses nor
  repeats a byte, and the stream stays within its capacity.
\<close>

theorem ByteStream_peek_pop_no_loss:
  assumes "ByteStream_wf s" "k \<le> ByteStream_buffer_size s" "j \<le> k"
  shows "take (unat j) (ByteStream_peek_output s k) @ bs_buffer (ByteStream_pop_output s j) =
           bs_buffer s \<and>
         ByteStream_wf (ByteStream_pop_output s j) \<and>
         ByteStream_bytes_read (ByteStream_pop_output s j) = ByteStream_bytes_read s + j"
proof -
  have k: "unat k \<le> length (bs_buffer s)" and j: "unat j \<le> unat k"
    using assms by (simp_all add: word_nat)
  then have "sz (drop (unat j) (bs_buffer s)) = sz (bs_buffer s) - j"
    using assms(1) by (simp add: word_nat unat_sub_nowrap)
  then have "ByteStream_bytes_read (ByteStream_pop_output s j) = ByteStream_bytes_read s + j"
    using assms(1) j k
    by (simp add: ByteStream_pop_buffer ByteStream_bytes_read_def ByteStream_bytes_written_def
        ByteStream_buffer_size_def)
  then show ?thesis
    using bstream.peek_pop_keeps_bytes [OF assms(1) k j] assms(1) by simp
qed

theorem ByteStream_peek_pop_no_loss_witness:
  "let s = fst (ByteStream_write (ByteStream_new 8) [10, 20, 30]) in
   take 2 (ByteStream_peek_output s 3) @ bs_buffer (ByteStream_pop_output s 2) = [10, 20, 30]"
proof -
  let ?s = "fst (ByteStream_write (ByteStream_new 8) [10, 20, 30])"
  have wf: "ByteStream_wf ?s"
    by (rule ByteStream_wf_write) (simp_all add: fits_def)
  have "3 \<le> ByteStream_buffer_size ?s" and "bs_buffer ?s = [10, 20, 30]"
    by (simp_all add: byte_stream_defs sz_def)
  from ByteStream_peek_pop_no_loss [OF wf this(1), of 2] this(2) show ?thesis
    by simp
qed

text \<open>
  \<^verbatim>\<open>write\<close> does not look at the end-of-input flag: after \<^verbatim>\<open>end_input\<close> a stream with
  room still accepts bytes, and its reader leaves the end-of-file state again.  (The class
  comment says that no more bytes can be written then.)
\<close>

theorem ByteStream_write_after_end_input:
  assumes "ByteStream_wf s" "fits data" "data \<noteq> []" "ByteStream_remaining_capacity s \<noteq> 0"
    and "ByteStream_eof s"
  shows "\<not> ByteStream_eof (fst (ByteStream_write s data)) \<and>
         snd (ByteStream_write s data) \<noteq> 0"
proof -
  have "0 < unat (bs_capacity s) - length (bs_buffer s)"
    using assms(1,4) by (simp add: word_nat)
  then show ?thesis
    using assms by (auto simp: ByteStream_eof_def ByteStream_buffer_empty_def
        ByteStream_input_ended_def ByteStream_write_wf word_nat)
qed

theorem ByteStream_write_after_end_input_witness:
  "let s = ByteStream_end_input (ByteStream_new 2) in
   ByteStream_eof s \<and> \<not> ByteStream_eof (fst (ByteStream_write s [7]))"
proof -
  let ?s = "ByteStream_end_input (ByteStream_new 2)"
  have "ByteStream_wf ?s" "fits [7 :: 8 word]" "[7 :: 8 word] \<noteq> []"
    "ByteStream_remaining_capacity ?s \<noteq> 0" "ByteStream_eof ?s"
    by (simp_all add: fits_def byte_stream_defs ByteStream_wf_def)
  then show ?thesis
    using ByteStream_write_after_end_input [of ?s "[7]"] by simp
qed

end
