(* ===== verification/Stream_Reassembler.thy ===== *)
theory Stream_Reassembler
  imports Byte_Stream
begin

text \<open>
  \<^verbatim>\<open>libsponge/stream_reassembler.{hh,cc}\<close>: assembles substrings that arrive in any order,
  possibly overlapping, into the in-order output stream.  The staging list is related to a
  partial map from stream indices to bytes; on that map \<^verbatim>\<open>push_substring\<close> is a merge that
  keeps what is already known, followed by moving the gap-free prefix to the output.
\<close>

section \<open>State and operations\<close>

type_synonym staged_entry = "size_t \<times> size_t \<times> bytes"

record stream_reassembler =
  sr_staging_list :: "staged_entry list"
  sr_staging_size :: size_t
  sr_unassembled_start_index :: size_t
  sr_have_eof :: bool
  sr_eof_index :: size_t
  sr_output :: byte_stream
  sr_capacity :: size_t

definition StreamReassembler_new :: "size_t \<Rightarrow> stream_reassembler" where
  "StreamReassembler_new capacity =
     \<lparr>sr_staging_list = [], sr_staging_size = 0, sr_unassembled_start_index = 0,
      sr_have_eof = False, sr_eof_index = 0, sr_output = ByteStream_new capacity,
      sr_capacity = capacity\<rparr>"

definition StreamReassembler_eof_process :: "stream_reassembler \<Rightarrow> stream_reassembler" where
  "StreamReassembler_eof_process r =
     (if sr_have_eof r \<and> sr_unassembled_start_index r \<ge> sr_eof_index r
      then r\<lparr>sr_output := ByteStream_end_input (sr_output r),
             sr_staging_list := [], sr_staging_size := 0\<rparr>
      else r)"

text \<open>
  The piece of the new data that goes between two entries: the bytes from \<open>temp_start\<close> to
  \<open>temp_max_end\<close>, if there are any, and its length.
\<close>

definition StreamReassembler_piece ::
  "bytes \<Rightarrow> size_t \<Rightarrow> size_t \<Rightarrow> size_t \<Rightarrow> (staged_entry list \<times> size_t) outcome" where
  "StreamReassembler_piece data index temp_start temp_max_end =
     (if temp_start \<le> temp_max_end
      then (let substring_length = temp_max_end - temp_start + 1
            in bindE (string_substr data (temp_start - index) substring_length)
                 (\<lambda>s. Inr ([(temp_start, temp_max_end, s)], substring_length)))
      else Inr ([], 0))"

text \<open>
  The \<^verbatim>\<open>for\<close> loop over the staging list with the block after it (the first equation): the
  new list and how much \<^verbatim>\<open>_staging_size\<close> grows.
\<close>

fun StreamReassembler_place ::
  "bytes \<Rightarrow> size_t \<Rightarrow> size_t \<Rightarrow> size_t \<Rightarrow> size_t \<Rightarrow> staged_entry list \<Rightarrow>
   (staged_entry list \<times> size_t) outcome" where
  "StreamReassembler_place data index unassembled_max_index temp_start temp_end [] =
     StreamReassembler_piece data index temp_start (min temp_end unassembled_max_index)"
| "StreamReassembler_place data index unassembled_max_index temp_start temp_end
     ((iter_start, iter_end, s) # rest) =
     (if temp_start < iter_start then
        bindE (StreamReassembler_piece data index temp_start
                (min temp_end (min (iter_start - 1) unassembled_max_index)))
          (\<lambda>(ins, k).
             if iter_end + 1 > temp_end then Inr (ins @ (iter_start, iter_end, s) # rest, k)
             else bindE (StreamReassembler_place data index unassembled_max_index
                          (iter_end + 1) temp_end rest)
                    (\<lambda>(rest', k'). Inr (ins @ (iter_start, iter_end, s) # rest', k + k')))
      else if temp_end \<le> iter_end then Inr ((iter_start, iter_end, s) # rest, 0)
      else bindE (StreamReassembler_place data index unassembled_max_index
                   (max (iter_end + 1) temp_start) temp_end rest)
             (\<lambda>(rest', k). Inr ((iter_start, iter_end, s) # rest', k)))"

text \<open>The \<^verbatim>\<open>while\<close> loop that moves the entries at the front to the output.\<close>

fun StreamReassembler_assemble ::
  "size_t \<Rightarrow> size_t \<Rightarrow> byte_stream \<Rightarrow> staged_entry list \<Rightarrow>
   size_t \<times> size_t \<times> byte_stream \<times> staged_entry list" where
  "StreamReassembler_assemble start count out [] = (start, count, out, [])"
| "StreamReassembler_assemble start count out ((iter_start, iter_end, s) # rest) =
     (if iter_start = start
      then StreamReassembler_assemble (iter_end + 1) (count - (iter_end - iter_start + 1))
             (fst (ByteStream_write out s)) rest
      else (start, count, out, (iter_start, iter_end, s) # rest))"

definition StreamReassembler_push_substring ::
  "stream_reassembler \<Rightarrow> bytes \<Rightarrow> u64 \<Rightarrow> bool \<Rightarrow> stream_reassembler outcome" where
  "StreamReassembler_push_substring r0 data index eof =
     (let data_length = sz data;
          r = (if eof then r0\<lparr>sr_have_eof := True, sr_eof_index := index + data_length\<rparr> else r0)
      in if data_length \<le> 0 then Inr (StreamReassembler_eof_process r)
         else if index + data_length < sr_unassembled_start_index r
         then Inr (StreamReassembler_eof_process r)
         else
           let temp_start_index = max (sr_unassembled_start_index r) index;
               unassembled_max_index =
                 (sr_unassembled_start_index r - ByteStream_buffer_size (sr_output r)) +
                 (sr_capacity r - 1)
           in bindE (StreamReassembler_place data index unassembled_max_index
                      temp_start_index (index + data_length - 1) (sr_staging_list r))
                (\<lambda>(staging, k).
                   let (start, count, out, staging') =
                         StreamReassembler_assemble (sr_unassembled_start_index r)
                           (sr_staging_size r + k) (sr_output r) staging
                   in Inr (StreamReassembler_eof_process
                        (r\<lparr>sr_staging_list := staging', sr_staging_size := count,
                           sr_unassembled_start_index := start, sr_output := out\<rparr>))))"

definition StreamReassembler_unassembled_bytes :: "stream_reassembler \<Rightarrow> size_t" where
  "StreamReassembler_unassembled_bytes r = sr_staging_size r"

definition StreamReassembler_empty :: "stream_reassembler \<Rightarrow> bool" where
  "StreamReassembler_empty r \<longleftrightarrow> sr_staging_size r = 0"

section \<open>The staging list as a partial map\<close>

fun staged :: "staged_entry list \<Rightarrow> nat \<Rightarrow> u8 option" where
  "staged [] i = None"
| "staged ((a, b, s) # xs) i =
     (if unat a \<le> i \<and> i \<le> unat b then Some (s ! (i - unat a)) else staged xs i)"

fun staged_total :: "staged_entry list \<Rightarrow> nat" where
  "staged_total [] = 0"
| "staged_total ((a, b, s) # xs) = length s + staged_total xs"

text \<open>Entries are sorted, disjoint, non-empty, as long as they claim, and inside the window.\<close>

fun staging_ok :: "nat \<Rightarrow> nat \<Rightarrow> staged_entry list \<Rightarrow> bool" where
  "staging_ok lo hi [] \<longleftrightarrow> True"
| "staging_ok lo hi ((a, b, s) # xs) \<longleftrightarrow>
     lo \<le> unat a \<and> unat a \<le> unat b \<and> unat b < hi \<and>
     length s = unat b - unat a + 1 \<and> staging_ok (unat b + 1) hi xs"

lemma staging_ok_mono: "staging_ok lo hi xs \<Longrightarrow> lo' \<le> lo \<Longrightarrow> staging_ok lo' hi xs"
  by (cases xs rule: staged_total.cases) auto

lemma staged_range: "staging_ok lo hi xs \<Longrightarrow> staged xs i = Some b \<Longrightarrow> lo \<le> i \<and> i < hi"
proof (induction lo hi xs rule: staging_ok.induct)
  case (2 lo hi a c s xs)
  show ?case
  proof (cases "unat a \<le> i \<and> i \<le> unat c")
    case True
    then show ?thesis using "2.prems" by auto
  next
    case False
    then show ?thesis using "2.IH" "2.prems" by force
  qed
qed simp

lemma staged_below: "staging_ok lo hi xs \<Longrightarrow> i < lo \<Longrightarrow> staged xs i = None"
  using staged_range by (cases "staged xs i") force+

lemma staged_total_le: "staging_ok lo hi xs \<Longrightarrow> lo \<le> hi \<Longrightarrow> lo + staged_total xs \<le> hi"
proof (induction lo hi xs rule: staging_ok.induct)
  case (2 lo hi a c s xs)
  then have "unat c + 1 + staged_total xs \<le> hi" by auto
  then show ?case using "2.prems" by auto
qed simp

text \<open>Merging keeps a byte already staged and adds the new one when the index is in range.\<close>

definition merge_byte :: "u8 option \<Rightarrow> nat \<Rightarrow> nat \<Rightarrow> nat \<Rightarrow> bytes \<Rightarrow> nat \<Rightarrow> u8 option" where
  "merge_byte old lo hi index data i =
     (case old of Some b \<Rightarrow> Some b
      | None \<Rightarrow> if lo \<le> i \<and> i < hi then Some (data ! (i - index)) else None)"

lemma staged_append:
  "staged (xs @ ys) i = (case staged xs i of Some b \<Rightarrow> Some b | None \<Rightarrow> staged ys i)"
  by (induction xs i rule: staged.induct) auto

lemma staged_total_append: "staged_total (xs @ ys) = staged_total xs + staged_total ys"
  by (induction xs rule: staged_total.induct) auto

section \<open>The placing loop is a merge\<close>

definition new_entry :: "bytes \<Rightarrow> size_t \<Rightarrow> size_t \<Rightarrow> size_t \<Rightarrow> staged_entry list" where
  "new_entry data index ts m =
     (if ts \<le> m then [(ts, m, take (unat m - unat ts + 1) (drop (unat ts - unat index) data))]
      else [])"

definition covers :: "bytes \<Rightarrow> size_t \<Rightarrow> size_t \<Rightarrow> size_t \<Rightarrow> bool" where
  "covers data index ts m \<longleftrightarrow>
     (ts \<le> m \<longrightarrow> unat index \<le> unat ts \<and> unat m < unat index + length data)"

lemma piece_new_entry:
  assumes "fits data" "covers data index ts m"
  shows "\<exists>k. StreamReassembler_piece data index ts m = Inr (new_entry data index ts m, k) \<and>
             unat k = staged_total (new_entry data index ts m)"
proof (cases "ts \<le> m")
  case True
  then have c: "unat index \<le> unat ts" "unat m < unat index + length data" "unat ts \<le> unat m"
    using assms(2) by (auto simp: covers_def word_nat)
  then have d: "unat (ts - index) = unat ts - unat index" "unat (m - ts) = unat m - unat ts"
    by (simp_all add: unat_sub_nowrap)
  then have e: "unat (m - ts + 1) = unat m - unat ts + 1"
    using c assms(1) by (subst unat_add_nowrap) (auto simp: fits_def)
  have "ts - index \<le> sz data"
    using c d assms(1) by (simp add: word_nat)
  then show ?thesis
    using True c d e assms(1)
    by (auto simp: StreamReassembler_piece_def string_substr_def new_entry_def Let_def)
qed (simp add: StreamReassembler_piece_def new_entry_def)

lemma staged_new_entry:
  assumes "fits data" "covers data index ts m"
  shows "staged (new_entry data index ts m) i =
    (if unat ts \<le> i \<and> i \<le> unat m then Some (data ! (i - unat index)) else None)"
  using assms by (auto simp: new_entry_def covers_def word_nat)

lemma staging_ok_new_entry:
  assumes "covers data index ts m" "lo \<le> unat ts" "unat m < hi" "unat m < lo'" "lo \<le> lo'"
    and "staging_ok lo' hi xs"
  shows "staging_ok lo hi (new_entry data index ts m @ xs)"
proof (cases "ts \<le> m")
  case True
  then show ?thesis
    using assms staging_ok_mono [OF assms(6), of "unat m + 1"]
    by (auto simp: new_entry_def covers_def word_nat)
next
  case False
  then show ?thesis
    using staging_ok_mono [OF assms(6,5)] by (simp add: new_entry_def)
qed

text \<open>
  \<open>placed\<close>: a result of the loop on \<open>xs\<close> that stages the bytes from \<open>ts\<close> to \<open>te\<close> below the
  limit \<open>hi\<close>, and grows the size by what it staged.
\<close>

definition placed ::
  "bytes \<Rightarrow> nat \<Rightarrow> staged_entry list \<Rightarrow> nat \<Rightarrow> nat \<Rightarrow> nat \<Rightarrow> nat \<Rightarrow>
   (staged_entry list \<times> size_t) outcome \<Rightarrow> bool" where
  "placed data index xs lo hi ts te result \<longleftrightarrow>
     (\<exists>ys k. result = Inr (ys, k) \<and> staging_ok lo hi ys \<and>
        staged_total ys = staged_total xs + unat k \<and>
        (\<forall>i. staged ys i = merge_byte (staged xs i) ts (min (te + 1) hi) index data i))"

lemma placed_nothing:
  "staging_ok lo hi xs \<Longrightarrow> te < ts \<Longrightarrow> placed data index xs lo hi ts te (Inr (xs, 0))"
  by (auto simp: placed_def merge_byte_def split: option.splits)

lemma placed_before:
  assumes xs: "staging_ok lo hi ((a, b, s) # rest)" and lo: "lo \<le> unat ts" "ts < a"
    and fits: "fits data" and cov: "covers data index ts m" and m: "unat m = min (unat te) (unat a - 1)"
    and hi: "hi < 2 ^ 64" and k: "unat k = staged_total (new_entry data index ts m)"
    and tail: "placed data (unat index) rest (unat b + 1) hi (unat b + 1) (unat te) (Inr (ys, k'))"
  shows "placed data (unat index) ((a, b, s) # rest) lo hi (unat ts) (unat te)
    (Inr (new_entry data index ts m @ (a, b, s) # ys, k + k'))"
proof -
  have e: "lo \<le> unat a" "unat a \<le> unat b" "unat b < hi" "length s = unat b - unat a + 1"
    and rest: "staging_ok (unat b + 1) hi rest"
    using xs by auto
  have ys: "staging_ok (unat b + 1) hi ys" "staged_total ys = staged_total rest + unat k'"
    "\<And>i. staged ys i =
       merge_byte (staged rest i) (unat b + 1) (min (unat te + 1) hi) (unat index) data i"
    using tail by (auto simp: placed_def)
  have ok: "staging_ok lo hi (new_entry data index ts m @ (a, b, s) # ys)"
    using staging_ok_new_entry [OF cov lo(1), of hi "unat a" "(a, b, s) # ys"] m lo e ys(1)
    by (auto simp: word_nat)
  have "unat k + unat k' < 2 ^ 64"
    using staged_total_le [OF ok] e hi ys(2) k by (simp add: staged_total_append)
  then have "unat (k + k') = unat k + unat k'"
    by (simp add: unat_add_nowrap)
  moreover have "staged (new_entry data index ts m @ (a, b, s) # ys) i =
      merge_byte (staged ((a, b, s) # rest) i) (unat ts) (min (unat te + 1) hi) (unat index) data i" for i
    using m lo e staged_below [OF rest, of i] staged_new_entry [OF fits cov, of i]
    by (auto simp: staged_append merge_byte_def word_nat ys(3) split: option.splits)
  ultimately show ?thesis
    using ok k ys(2) unfolding placed_def by (simp add: staged_total_append)
qed

lemma placed_after:
  assumes xs: "staging_ok lo hi ((a, b, s) # rest)" and "a \<le> ts"
    and tail: "placed data index rest (unat b + 1) hi t (unat te) (Inr (ys, k))"
    and t: "t = max (unat b + 1) (unat ts)"
  shows "placed data index ((a, b, s) # rest) lo hi (unat ts) (unat te) (Inr ((a, b, s) # ys, k))"
proof -
  have rest: "staging_ok (unat b + 1) hi rest"
    using xs by auto
  have ys: "\<And>i. staged ys i = merge_byte (staged rest i) t (min (unat te + 1) hi) index data i"
    using tail by (auto simp: placed_def)
  have "staged ((a, b, s) # ys) i =
      merge_byte (staged ((a, b, s) # rest) i) (unat ts) (min (unat te + 1) hi) index data i" for i
    using assms(2) t by (auto simp: ys merge_byte_def word_nat split: option.splits)
  then show ?thesis
    using xs tail by (auto simp: placed_def)
qed

lemma place_correct:
  assumes "staging_ok lo hi xs" "lo \<le> unat ts" "fits data" "covers data index ts te"
    and hi: "hi = unat umax + 1" "hi < 2 ^ 64"
  shows "placed data (unat index) xs lo hi (unat ts) (unat te)
    (StreamReassembler_place data index umax ts te xs)"
  using assms(1,2,4)
proof (induction xs arbitrary: lo ts)
  case Nil
  let ?m = "min te umax"
  have cov: "covers data index ts ?m"
    using Nil.prems by (auto simp: covers_def word_nat)
  moreover have "staging_ok lo hi (new_entry data index ts ?m)"
    using staging_ok_new_entry [OF cov, of lo hi "hi + unat ts" "[]"] Nil.prems hi by auto
  ultimately show ?case
    using piece_new_entry [OF assms(3) cov] staged_new_entry [OF assms(3) cov] hi
    by (auto simp: placed_def merge_byte_def)
next
  case (Cons x rest)
  obtain a b s where x: "x = (a, b, s)"
    by (cases x)
  have e: "unat a \<le> unat b" "unat b < hi" and rest: "staging_ok (unat b + 1) hi rest"
    using Cons.prems(1) x by auto
  have b1: "unat (b + 1) = unat b + 1"
    using e hi by (subst unat_add_nowrap) auto
  note stop = placed_nothing [OF rest, of "unat te" _ data "unat index"]
  show ?case
  proof (cases "ts < a")
    case True
    let ?m = "min te (min (a - 1) umax)"
    have m: "unat ?m = min (unat te) (unat a - 1)"
      using True e hi by (simp add: unat_sub_nowrap word_nat)
    have cov: "covers data index ts ?m"
      using Cons.prems(3) m by (auto simp: covers_def word_nat)
    obtain k where k:
      "StreamReassembler_piece data index ts ?m = Inr (new_entry data index ts ?m, k)"
      "unat k = staged_total (new_entry data index ts ?m)"
      using piece_new_entry [OF assms(3) cov] by blast
    note before = placed_before [OF Cons.prems(1) [unfolded x] Cons.prems(2) True assms(3) cov m hi(2) k(2)]
    show ?thesis
    proof (cases "te < b + 1")
      case stopped: True
      then show ?thesis
        using before [OF stop] True k(1) b1 x by (simp add: word_nat)
    next
      case False
      have "covers data index (b + 1) te"
        using Cons.prems(3) False b1 True e by (auto simp: covers_def word_nat)
      then have "placed data (unat index) rest (unat b + 1) hi (unat b + 1) (unat te)
          (StreamReassembler_place data index umax (b + 1) te rest)"
        using Cons.IH [OF rest, of "b + 1"] b1 by simp
      then show ?thesis
        using before False True k(1) x by (auto simp: placed_def [of _ _ rest])
    qed
  next
    case False
    note after = placed_after [OF Cons.prems(1) [unfolded x], of ts data "unat index" _ te _ _]
    show ?thesis
    proof (cases "te \<le> b")
      case True
      then show ?thesis
        using after [OF _ stop] False x by (simp add: word_nat)
    next
      case more: False
      let ?t = "max (b + 1) ts"
      have "covers data index ?t te"
        using Cons.prems(3) more b1 by (auto simp: covers_def word_nat)
      then have "placed data (unat index) rest (unat b + 1) hi (unat ?t) (unat te)
          (StreamReassembler_place data index umax ?t te rest)"
        using Cons.IH [OF rest, of ?t] b1 by simp
      then show ?thesis
        using after more False x b1 by (auto simp: placed_def [of _ _ rest])
    qed
  qed
qed

section \<open>The assembling loop moves the gap-free prefix\<close>

lemma staged_entry_bytes:
  assumes "length s = unat b - unat a + 1" "unat a \<le> unat b"
  shows "map (\<lambda>i. the (staged ((a, b, s) # xs) i)) [unat a..<unat b + 1] = s"
proof (rule nth_equalityI)
  show "length (map (\<lambda>i. the (staged ((a, b, s) # xs) i)) [unat a..<unat b + 1]) = length s"
    using assms by simp
  fix i assume "i < length (map (\<lambda>i. the (staged ((a, b, s) # xs) i)) [unat a..<unat b + 1])"
  then have "unat a + i < unat b + 1"
    by (simp del: upt_Suc)
  then show "map (\<lambda>i. the (staged ((a, b, s) # xs) i)) [unat a..<unat b + 1] ! i = s ! i"
    by (simp del: upt_Suc)
qed

text \<open>What the loop makes of a staging list \<open>xs\<close>, written over natural numbers.\<close>

definition assembled ::
  "staged_entry list \<Rightarrow> size_t \<Rightarrow> byte_stream \<Rightarrow> nat \<Rightarrow>
   size_t \<times> size_t \<times> byte_stream \<times> staged_entry list \<Rightarrow> bool" where
  "assembled xs start out hi result \<longleftrightarrow>
     (case result of (start', count', out', ys) \<Rightarrow>
        start \<le> start' \<and> unat start' \<le> hi \<and>
        (\<forall>i. unat start \<le> i \<longrightarrow> i < unat start' \<longrightarrow> staged xs i \<noteq> None) \<and>
        staged xs (unat start') = None \<and>
        out' = out\<lparr>bs_buffer := bs_buffer out @
                      map (\<lambda>i. the (staged xs i)) [unat start..<unat start'],
                   bs_written_length := bs_written_length out + (start' - start)\<rparr> \<and>
        staging_ok (unat start' + 1) hi ys \<and> unat count' = staged_total ys \<and>
        (\<forall>i. staged ys i = (if unat start' \<le> i then staged xs i else None)))"

lemma ByteStream_write_whole:
  assumes "ByteStream_wf out" "fits s" "length (bs_buffer out) + length s \<le> unat (bs_capacity out)"
  shows "fst (ByteStream_write out s) =
    out\<lparr>bs_buffer := bs_buffer out @ s, bs_written_length := bs_written_length out + sz s\<rparr>"
proof -
  have "snd (ByteStream_write out s) = sz s"
    using assms by (rule bstream.put_within_room)
  then show ?thesis
    using assms(2) by (auto simp: ByteStream_write_def Let_def split: if_splits)
qed

lemma assemble_correct:
  assumes "staging_ok (unat start) hi xs" "ByteStream_wf out" "unat count = staged_total xs"
    and "length (bs_buffer out) + hi \<le> unat start + unat (bs_capacity out)"
    and "unat start \<le> hi" and hi: "hi < 2 ^ 64"
  shows "assembled xs start out hi (StreamReassembler_assemble start count out xs)"
  using assms(1-5)
proof (induction xs arbitrary: start count out)
  case Nil
  then show ?case by (simp add: assembled_def)
next
  case (Cons x rest)
  obtain a b s where x: "x = (a, b, s)"
    by (cases x)
  have e: "unat start \<le> unat a" "unat a \<le> unat b" "unat b < hi" "length s = unat b - unat a + 1"
    and rest: "staging_ok (unat b + 1) hi rest"
    using Cons.prems(1) x by auto
  have b1: "unat (b + 1) = unat b + 1"
    using e hi by (subst unat_add_nowrap) auto
  show ?case
  proof (cases "a = start")
    case True
    have fs: "fits s"
      using e hi by (simp add: fits_def)
    have out: "fst (ByteStream_write out s) =
        out\<lparr>bs_buffer := bs_buffer out @ s, bs_written_length := bs_written_length out + sz s\<rparr>"
      using Cons.prems e True by (intro ByteStream_write_whole [OF _ fs]) auto
    have wf: "ByteStream_wf (fst (ByteStream_write out s))"
      using Cons.prems(2) fs by simp
    have len: "b - a + 1 = sz s"
      using e fs hi by (simp add: word_nat unat_sub_nowrap unat_add_nowrap)
    have count: "unat (count - (b - a + 1)) = staged_total rest"
      using Cons.prems(3) fs x by (simp add: len unat_sub_nowrap)
    obtain start' count' out' ys where res:
      "StreamReassembler_assemble (b + 1) (count - (b - a + 1)) (fst (ByteStream_write out s)) rest =
        (start', count', out', ys)"
      by (cases "StreamReassembler_assemble (b + 1) (count - (b - a + 1)) (fst (ByteStream_write out s)) rest")
    have IH: "assembled rest (b + 1) (fst (ByteStream_write out s)) hi (start', count', out', ys)"
      unfolding res [symmetric]
      using Cons.prems e True rest b1 wf count out by (intro Cons.IH) auto
    then have le: "unat b + 1 \<le> unat start'"
      using b1 by (simp add: assembled_def word_nat)
    have other: "staged (x # rest) i = staged rest i" if "unat b < i" for i
      using that x by simp
    have "[unat start..<unat start'] = [unat a..<unat b + 1] @ [unat b + 1..<unat start']"
      using le e True upt_add_eq_append [of "unat a" "unat b + 1" "unat start' - (unat b + 1)"]
      by simp
    moreover have "map (\<lambda>i. the (staged (x # rest) i)) [unat b + 1..<unat start'] =
        map (\<lambda>i. the (staged rest i)) [unat b + 1..<unat start']"
      by (simp add: other del: staged.simps)
    ultimately have bytes: "map (\<lambda>i. the (staged (x # rest) i)) [unat start..<unat start'] =
        s @ map (\<lambda>i. the (staged rest i)) [unat b + 1..<unat start']"
      using staged_entry_bytes [OF e(4,2), of rest] x by (simp del: upt_Suc staged.simps)
    have sums: "bs_written_length out + sz s + (start' - (b + 1)) =
        bs_written_length out + (start' - start)"
      unfolding len [symmetric] True by simp
    show ?thesis
      using IH True le e x res out b1 other bytes sums
      unfolding assembled_def by (auto simp: word_nat)
  next
    case False
    then have "unat start < unat a"
      using e by (simp add: word_nat order_less_le)
    then show ?thesis
      using Cons.prems e x rest staged_below [OF rest, of "unat start"] False
      unfolding assembled_def by (auto simp: staged_below)
  qed
qed


section \<open>Invariant and effect of \<open>push_substring\<close>\<close>

definition window_end :: "stream_reassembler \<Rightarrow> nat" where
  "window_end r = unat (sr_unassembled_start_index r) - length (bs_buffer (sr_output r)) +
     unat (sr_capacity r)"

definition StreamReassembler_wf :: "stream_reassembler \<Rightarrow> bool" where
  "StreamReassembler_wf r \<longleftrightarrow>
     ByteStream_wf (sr_output r) \<and> bs_capacity (sr_output r) = sr_capacity r \<and>
     0 < unat (sr_capacity r) \<and>
     bs_written_length (sr_output r) = sr_unassembled_start_index r \<and>
     length (bs_buffer (sr_output r)) \<le> unat (sr_unassembled_start_index r) \<and>
     window_end r < 2 ^ 64 \<and>
     staging_ok (unat (sr_unassembled_start_index r) + 1) (window_end r) (sr_staging_list r) \<and>
     unat (sr_staging_size r) = staged_total (sr_staging_list r)"

lemma StreamReassembler_wf_new:
  "c \<noteq> 0 \<Longrightarrow> StreamReassembler_wf (StreamReassembler_new c)"
  using unat_lt64 [of c]
  by (simp add: StreamReassembler_wf_def StreamReassembler_new_def window_end_def)
    (simp add: ByteStream_new_def unat_gt_0)

lemma StreamReassembler_wf_eof_flags:
  "StreamReassembler_wf (r\<lparr>sr_have_eof := h, sr_eof_index := e\<rparr>) = StreamReassembler_wf r"
  by (simp add: StreamReassembler_wf_def window_end_def)

lemma StreamReassembler_wf_eof_process:
  "StreamReassembler_wf r \<Longrightarrow> StreamReassembler_wf (StreamReassembler_eof_process r)"
  by (auto simp: StreamReassembler_wf_def StreamReassembler_eof_process_def window_end_def
      ByteStream_end_input_def ByteStream_wf_def)

text \<open>The part of \<^verbatim>\<open>push_substring\<close> after the early returns, before \<^verbatim>\<open>_eof_process\<close>.\<close>

definition StreamReassembler_stage ::
  "stream_reassembler \<Rightarrow> bytes \<Rightarrow> u64 \<Rightarrow> stream_reassembler outcome" where
  "StreamReassembler_stage r data index =
     bindE (StreamReassembler_place data index
              ((sr_unassembled_start_index r - ByteStream_buffer_size (sr_output r)) +
               (sr_capacity r - 1))
              (max (sr_unassembled_start_index r) index) (index + sz data - 1) (sr_staging_list r))
       (\<lambda>(staging, k).
          let (start, count, out, staging') =
                StreamReassembler_assemble (sr_unassembled_start_index r)
                  (sr_staging_size r + k) (sr_output r) staging
          in Inr (r\<lparr>sr_staging_list := staging', sr_staging_size := count,
                    sr_unassembled_start_index := start, sr_output := out\<rparr>))"

lemma push_substring_stage:
  "StreamReassembler_push_substring r0 data index eof =
     (let r = (if eof then r0\<lparr>sr_have_eof := True, sr_eof_index := index + sz data\<rparr> else r0)
      in if sz data = 0 \<or> index + sz data < sr_unassembled_start_index r
         then Inr (StreamReassembler_eof_process r)
         else bindE (StreamReassembler_stage r data index)
                (\<lambda>r'. Inr (StreamReassembler_eof_process r')))"
proof -
  have zero: "sz data \<le> 0 \<longleftrightarrow> sz data = 0"
    by (simp add: word_le_nat_alt unat_eq_0)
  show ?thesis
    unfolding StreamReassembler_push_substring_def StreamReassembler_stage_def Let_def zero
    by (simp add: bindE_assoc split_def)
qed

text \<open>
  \<open>staged_into\<close>: the new bytes in \<open>[max start index, index + length)\<close> below the window's end are
  merged into the staged ones, and the gap-free prefix of the result is appended to the output.
\<close>

definition pending ::
  "stream_reassembler \<Rightarrow> bytes \<Rightarrow> nat \<Rightarrow> nat \<Rightarrow> nat \<Rightarrow> u8 option" where
  "pending r data index te i =
     merge_byte (staged (sr_staging_list r) i) (max (unat (sr_unassembled_start_index r)) index)
       (min (te + 1) (window_end r)) index data i"

definition staged_into ::
  "stream_reassembler \<Rightarrow> (nat \<Rightarrow> u8 option) \<Rightarrow> stream_reassembler \<Rightarrow> bool" where
  "staged_into r pend r' \<longleftrightarrow>
     (let a = unat (sr_unassembled_start_index r); b = unat (sr_unassembled_start_index r') in
      a \<le> b \<and> b \<le> window_end r \<and> (\<forall>i. a \<le> i \<longrightarrow> i < b \<longrightarrow> pend i \<noteq> None) \<and> pend b = None \<and>
      bs_buffer (sr_output r') = bs_buffer (sr_output r) @ map (\<lambda>i. the (pend i)) [a..<b] \<and>
      (\<forall>i. staged (sr_staging_list r') i = (if b \<le> i then pend i else None)) \<and>
      bs_is_ended (sr_output r') = bs_is_ended (sr_output r) \<and>
      bs_error (sr_output r') = bs_error (sr_output r) \<and>
      sr_have_eof r' = sr_have_eof r \<and> sr_eof_index r' = sr_eof_index r \<and>
      sr_capacity r' = sr_capacity r \<and> window_end r' = window_end r)"


lemma staged_into_refl:
  assumes "StreamReassembler_wf r"
    and "\<And>i. pend i = staged (sr_staging_list r) i"
  shows "staged_into r pend r"
proof -
  let ?a = "unat (sr_unassembled_start_index r)"
  have ok: "staging_ok (?a + 1) (window_end r) (sr_staging_list r)"
    and "?a \<le> window_end r"
    using assms(1) by (auto simp: StreamReassembler_wf_def window_end_def ByteStream_wf_def)
  then show ?thesis
    using staged_below [OF ok] assms(2) by (auto simp: staged_into_def Let_def)
qed

lemma stage_window:
  assumes "StreamReassembler_wf r"
  shows "unat ((sr_unassembled_start_index r - ByteStream_buffer_size (sr_output r)) +
      (sr_capacity r - 1)) + 1 = window_end r"
proof -
  have c: "unat (sr_capacity r - 1) = unat (sr_capacity r) - 1"
    and b: "unat (sr_unassembled_start_index r - ByteStream_buffer_size (sr_output r)) =
      unat (sr_unassembled_start_index r) - length (bs_buffer (sr_output r))"
    using assms by (simp_all add: StreamReassembler_wf_def unat_sub_nowrap)
  have "0 < unat (sr_capacity r)" and w: "window_end r < 2 ^ 64"
    using assms by (simp_all add: StreamReassembler_wf_def)
  then show ?thesis
    unfolding window_end_def by (subst unat_add_nowrap) (auto simp: b c)
qed

lemma covers_substring:
  assumes "fits data" "data \<noteq> []"
  shows "covers data index (max start index) (index + sz data - 1)"
proof -
  have n: "unat (sz data) = length data" "0 < length data" "length data < 2 ^ 64"
    using assms by (auto simp: fits_def)
  have "unat (sz data - 1) = length data - 1"
    using n by (subst unat_sub_nowrap) (auto simp: Suc_le_eq)
  then have "unat (index + (sz data - 1)) = unat index + (length data - 1) \<or>
      unat (index + (sz data - 1)) < unat index"
    using n unat_lt64 [of index] by (auto simp: unat_plus_if')
  moreover have "index + sz data - 1 = index + (sz data - 1)"
    by simp
  ultimately show ?thesis
    using n(2) by (auto simp: covers_def word_nat)
qed

lemma StreamReassembler_wfD:
  assumes "StreamReassembler_wf r"
  shows "ByteStream_wf (sr_output r)" "bs_capacity (sr_output r) = sr_capacity r"
    "0 < unat (sr_capacity r)" "bs_written_length (sr_output r) = sr_unassembled_start_index r"
    "length (bs_buffer (sr_output r)) \<le> unat (sr_unassembled_start_index r)" "window_end r < 2 ^ 64"
    "unat (sr_staging_size r) = staged_total (sr_staging_list r)"
    "staging_ok (unat (sr_unassembled_start_index r)) (window_end r) (sr_staging_list r)"
    "unat (sr_unassembled_start_index r) \<le> window_end r"
    "length (bs_buffer (sr_output r)) + window_end r =
       unat (sr_unassembled_start_index r) + unat (sr_capacity r)"
  using assms staging_ok_mono [of "unat (sr_unassembled_start_index r) + 1" _ _
      "unat (sr_unassembled_start_index r)"]
  by (auto simp: StreamReassembler_wf_def window_end_def ByteStream_wf_def)

lemma stage_place:
  assumes wf: "StreamReassembler_wf r" and d: "fits data" "data \<noteq> []"
  shows "\<exists>ys k. StreamReassembler_place data index
      ((sr_unassembled_start_index r - ByteStream_buffer_size (sr_output r)) + (sr_capacity r - 1))
      (max (sr_unassembled_start_index r) index) (index + sz data - 1) (sr_staging_list r) = Inr (ys, k) \<and>
    staging_ok (unat (sr_unassembled_start_index r)) (window_end r) ys \<and>
    unat (sr_staging_size r + k) = staged_total ys \<and>
    (\<forall>i. staged ys i = pending r data (unat index) (unat (index + sz data - 1)) i)"
proof -
  note inv = StreamReassembler_wfD [OF wf]
  obtain ys k where place:
    "StreamReassembler_place data index
       ((sr_unassembled_start_index r - ByteStream_buffer_size (sr_output r)) + (sr_capacity r - 1))
       (max (sr_unassembled_start_index r) index) (index + sz data - 1) (sr_staging_list r) = Inr (ys, k)"
    "staging_ok (unat (sr_unassembled_start_index r)) (window_end r) ys"
    "staged_total ys = staged_total (sr_staging_list r) + unat k"
    "\<And>i. staged ys i = pending r data (unat index) (unat (index + sz data - 1)) i"
    using place_correct [OF inv(8) _ d(1) covers_substring [OF d] stage_window [OF wf, symmetric] inv(6),
        of "sr_unassembled_start_index r" index]
    by (auto simp: placed_def pending_def)
  have "unat (sr_staging_size r) + unat k < 2 ^ 64"
    using staged_total_le [OF place(2) inv(9)] place(3) inv(6,7) by simp
  then show ?thesis
    using place inv(7) by (simp add: unat_add_nowrap)
qed

lemma stage_result:
  assumes wf: "StreamReassembler_wf r" and pend: "\<And>i. staged ys i = pend i"
    and asm: "assembled ys (sr_unassembled_start_index r) (sr_output r) (window_end r)
      (start', count', out', zs)"
  defines "r' \<equiv> r\<lparr>sr_staging_list := zs, sr_staging_size := count',
    sr_unassembled_start_index := start', sr_output := out'\<rparr>"
  shows "StreamReassembler_wf r' \<and> staged_into r pend r'"
proof -
  note inv = StreamReassembler_wfD [OF wf]
  let ?start = "sr_unassembled_start_index r" and ?out = "sr_output r"
  have a: "unat ?start \<le> unat start'" "unat start' \<le> window_end r"
    "\<And>i. unat ?start \<le> i \<Longrightarrow> i < unat start' \<Longrightarrow> pend i \<noteq> None" "pend (unat start') = None"
    "out' = ?out\<lparr>bs_buffer := bs_buffer ?out @ map (\<lambda>i. the (pend i)) [unat ?start..<unat start'],
       bs_written_length := start'\<rparr>"
    "staging_ok (unat start' + 1) (window_end r) zs" "unat count' = staged_total zs"
    "\<And>i. staged zs i = (if unat start' \<le> i then pend i else None)"
    using asm inv(4) unfolding assembled_def by (auto simp: pend word_nat)
  have we: "window_end r' = window_end r"
    using a(1,2,5) inv(5) by (auto simp: window_end_def r'_def)
  have "StreamReassembler_wf r'"
    using a inv we unfolding StreamReassembler_wf_def r'_def by (auto simp: ByteStream_wf_def)
  moreover have "staged_into r pend r'"
    using a we unfolding staged_into_def r'_def by (auto simp: Let_def)
  ultimately show ?thesis ..
qed

lemma stage_correct:
  assumes wf: "StreamReassembler_wf r" and d: "fits data" "data \<noteq> []"
  shows "\<exists>r'. StreamReassembler_stage r data index = Inr r' \<and> StreamReassembler_wf r' \<and>
    staged_into r (pending r data (unat index) (unat (index + sz data - 1))) r'"
proof -
  note inv = StreamReassembler_wfD [OF wf]
  let ?start = "sr_unassembled_start_index r" and ?out = "sr_output r"
  obtain ys k where place:
    "StreamReassembler_place data index ((?start - ByteStream_buffer_size ?out) + (sr_capacity r - 1))
       (max ?start index) (index + sz data - 1) (sr_staging_list r) = Inr (ys, k)"
    "staging_ok (unat ?start) (window_end r) ys" "unat (sr_staging_size r + k) = staged_total ys"
    "\<And>i. staged ys i = pending r data (unat index) (unat (index + sz data - 1)) i"
    using stage_place [OF assms, of index] by blast
  obtain start' count' out' zs where res:
    "StreamReassembler_assemble ?start (sr_staging_size r + k) ?out ys = (start', count', out', zs)"
    by (cases "StreamReassembler_assemble ?start (sr_staging_size r + k) ?out ys")
  have "assembled ys ?start ?out (window_end r) (start', count', out', zs)"
    using assemble_correct [OF place(2) inv(1) place(3) _ inv(9,6)] inv(2,10) res by simp
  from stage_result [OF wf place(4) this] show ?thesis
    by (auto simp: StreamReassembler_stage_def place(1) res)
qed


text \<open>
  \<open>push_effect\<close>: the whole effect of \<^verbatim>\<open>push_substring\<close> on a substring whose last index is
  representable.  \<open>pend\<close> is what is known after the merge, \<open>b\<close> the first gap; the stream is
  finished when the end is known and reached.
\<close>

definition push_effect ::
  "stream_reassembler \<Rightarrow> bytes \<Rightarrow> nat \<Rightarrow> bool \<Rightarrow> stream_reassembler \<Rightarrow> bool" where
  "push_effect r data index eof r' \<longleftrightarrow>
     (let a = unat (sr_unassembled_start_index r); b = unat (sr_unassembled_start_index r');
          pend = (\<lambda>i. merge_byte (staged (sr_staging_list r) i) (max a index)
                         (min (index + length data) (window_end r)) index data i);
          eof_at = (if eof then index + length data else unat (sr_eof_index r));
          finished = ((sr_have_eof r \<or> eof) \<and> eof_at \<le> b)
      in a \<le> b \<and> b \<le> window_end r \<and>
         (\<forall>i. a \<le> i \<longrightarrow> i < b \<longrightarrow> pend i \<noteq> None) \<and> pend b = None \<and>
         bs_buffer (sr_output r') = bs_buffer (sr_output r) @ map (\<lambda>i. the (pend i)) [a..<b] \<and>
         (\<forall>i. staged (sr_staging_list r') i = (if finished \<or> i < b then None else pend i)) \<and>
         bs_is_ended (sr_output r') = (bs_is_ended (sr_output r) \<or> finished) \<and>
         bs_error (sr_output r') = bs_error (sr_output r) \<and>
         sr_have_eof r' = (sr_have_eof r \<or> eof) \<and> unat (sr_eof_index r') = eof_at \<and>
         sr_capacity r' = sr_capacity r \<and> window_end r' = window_end r)"

lemma push_effect_stage:
  fixes data :: bytes and index :: u64
  defines "r1 r eof \<equiv> (if eof then r\<lparr>sr_have_eof := True, sr_eof_index := index + sz data\<rparr> else r)"
  assumes into: "staged_into (r1 r eof) pend q"
    and pend: "\<And>i. pend i = merge_byte (staged (sr_staging_list r) i)
      (max (unat (sr_unassembled_start_index r)) (unat index))
      (min (unat index + length data) (window_end r)) (unat index) data i"
    and d: "fits data" "unat index + length data < 2 ^ 64"
  shows "push_effect r data (unat index) eof (StreamReassembler_eof_process q)"
proof -
  have i: "unat (index + sz data) = unat index + length data"
    using d by (simp add: unat_add_nowrap)
  have r1: "sr_unassembled_start_index (r1 r eof) = sr_unassembled_start_index r"
    "sr_staging_list (r1 r eof) = sr_staging_list r" "sr_output (r1 r eof) = sr_output r"
    "sr_capacity (r1 r eof) = sr_capacity r" "window_end (r1 r eof) = window_end r"
    by (simp_all add: r1_def window_end_def)
  have q: "sr_have_eof q = (sr_have_eof r \<or> eof)"
    "unat (sr_eof_index q) = (if eof then unat index + length data else unat (sr_eof_index r))"
    using into i by (auto simp: staged_into_def Let_def r1_def)
  have we: "window_end (StreamReassembler_eof_process q) = window_end q"
    by (simp add: window_end_def StreamReassembler_eof_process_def ByteStream_end_input_def)
  have "pend = (\<lambda>i. merge_byte (staged (sr_staging_list r) i)
      (max (unat (sr_unassembled_start_index r)) (unat index))
      (min (unat index + length data) (window_end r)) (unat index) data i)"
    by (rule ext) (rule pend)
  then show ?thesis
    using into q we unfolding push_effect_def staged_into_def r1
    by (auto simp: Let_def StreamReassembler_eof_process_def ByteStream_end_input_def word_nat)
qed

lemma push_substring_total:
  assumes "StreamReassembler_wf r" "fits data"
  shows "\<exists>r'. StreamReassembler_push_substring r data index eof = Inr r' \<and> StreamReassembler_wf r' \<and>
    (unat index + length data < 2 ^ 64 \<longrightarrow> push_effect r data (unat index) eof r')"
proof -
  define q where "q = (if eof then r\<lparr>sr_have_eof := True, sr_eof_index := index + sz data\<rparr> else r)"
  have q: "StreamReassembler_wf q" "sr_unassembled_start_index q = sr_unassembled_start_index r"
    "sr_staging_list q = sr_staging_list r" "window_end q = window_end r"
    using assms(1) StreamReassembler_wf_eof_flags by (auto simp: q_def window_end_def)
  show ?thesis
  proof (cases "sz data = 0 \<or> index + sz data < sr_unassembled_start_index q")
    case True
    have "push_effect r data (unat index) eof (StreamReassembler_eof_process q)"
      if nowrap: "unat index + length data < 2 ^ 64"
    proof -
      have "unat (index + sz data) = unat index + length data"
        using nowrap assms(2) by (simp add: unat_add_nowrap)
      then have empty: "unat index + length data \<le> max (unat (sr_unassembled_start_index q)) (unat index)"
        using True sz_eq_0_iff [OF assms(2)] by (auto simp: word_nat)
      let ?pend = "\<lambda>i. merge_byte (staged (sr_staging_list r) i)
        (max (unat (sr_unassembled_start_index r)) (unat index))
        (min (unat index + length data) (window_end r)) (unat index) data i"
      have "?pend i = staged (sr_staging_list q) i" for i
        using empty q by (auto simp: merge_byte_def split: option.splits)
      from staged_into_refl [OF q(1) this] show ?thesis
        unfolding q_def by (rule push_effect_stage) (use assms nowrap in auto)
    qed
    then show ?thesis
      using True StreamReassembler_wf_eof_process [OF q(1)]
      by (auto simp: push_substring_stage q_def [symmetric] Let_def)
  next
    case False
    then have "data \<noteq> []"
      by auto
    from stage_correct [OF q(1) assms(2) this, of index] obtain r' where r':
      "StreamReassembler_stage q data index = Inr r'" "StreamReassembler_wf r'"
      "staged_into q (pending q data (unat index) (unat (index + sz data - 1))) r'"
      by blast
    have "push_effect r data (unat index) eof (StreamReassembler_eof_process r')"
      if nowrap: "unat index + length data < 2 ^ 64"
    proof -
      have "unat (index + sz data - 1) + 1 = unat index + length data"
        using nowrap assms(2) \<open>data \<noteq> []\<close> by (subst unat_sub_nowrap) (auto simp: unat_add_nowrap Suc_le_eq)
      then show ?thesis
        using nowrap assms(2) q(2-4)
        by (intro push_effect_stage [OF r'(3) [unfolded q_def]])
          (auto simp: pending_def q_def [symmetric] simp flip: add.commute [of _ 1])
    qed
    then show ?thesis
      using False r' StreamReassembler_wf_eof_process [OF r'(2)]
      by (auto simp: push_substring_stage q_def [symmetric] Let_def)
  qed
qed

end
