(* ===== verification/Reassembly.thy ===== *)
theory Reassembly
  imports Stream_Reassembler
begin

text \<open>
  What the stream reassembler promises about a whole run: every substring pushed belongs to
  one source stream \<open>S\<close>, pushes and reads interleave in any order.  The output is always a
  prefix of \<open>S\<close>, it ends exactly at the end of \<open>S\<close>, the memory bound holds, and a complete
  set of pieces that fits the capacity is reassembled whatever the order of arrival.
\<close>

lemma staging_ok_window: "staging_ok lo hi xs \<Longrightarrow> hi \<le> hi' \<Longrightarrow> staging_ok lo hi' xs"
  by (induction lo hi xs rule: staging_ok.induct) auto

section \<open>Tracking a source stream\<close>

definition substring_of :: "bytes \<Rightarrow> bytes \<Rightarrow> nat \<Rightarrow> bool \<Rightarrow> bool" where
  "substring_of S x i eof \<longleftrightarrow>
     i + length x \<le> length S \<and> take (length x) (drop i S) = x \<and>
     (eof \<longrightarrow> i + length x = length S)"

lemma substring_of_nth:
  assumes "substring_of S x i eof" "i \<le> j" "j < i + length x"
  shows "x ! (j - i) = S ! j"
proof -
  have "i + length x \<le> length S"
    using assms(1) by (simp add: substring_of_def)
  then have "take (length x) (drop i S) ! (j - i) = S ! j"
    using assms(2,3) by simp
  then show ?thesis
    using assms(1) by (simp add: substring_of_def)
qed

text \<open>\<open>d\<close> is what the reader has taken out of the output stream so far.\<close>

definition tracks :: "bytes \<Rightarrow> bytes \<Rightarrow> stream_reassembler \<Rightarrow> bool" where
  "tracks S d r \<longleftrightarrow>
     StreamReassembler_wf r \<and>
     unat (sr_unassembled_start_index r) \<le> length S \<and>
     d @ bs_buffer (sr_output r) = take (unat (sr_unassembled_start_index r)) S \<and>
     (\<forall>i b. staged (sr_staging_list r) i = Some b \<longrightarrow> i < length S \<and> b = S ! i) \<and>
     (sr_have_eof r \<longrightarrow> unat (sr_eof_index r) = length S)"

definition reassembles :: "bytes \<Rightarrow> bytes \<Rightarrow> stream_reassembler \<Rightarrow> bool" where
  "reassembles S d r \<longleftrightarrow>
     tracks S d r \<and>
     (bs_is_ended (sr_output r) \<longleftrightarrow>
        sr_have_eof r \<and> unat (sr_unassembled_start_index r) = length S)"

definition known :: "stream_reassembler \<Rightarrow> nat \<Rightarrow> bool" where
  "known r j \<longleftrightarrow>
     j < unat (sr_unassembled_start_index r) \<or> staged (sr_staging_list r) j \<noteq> None"

lemma reassembles_new: "c \<noteq> 0 \<Longrightarrow> reassembles S [] (StreamReassembler_new c)"
  by (simp add: reassembles_def tracks_def StreamReassembler_wf_new)
    (simp add: StreamReassembler_new_def ByteStream_new_def)

lemma known_all_assembled:
  assumes "tracks S d r" "\<forall>j < length S. known r j"
  shows "unat (sr_unassembled_start_index r) = length S"
proof (rule ccontr)
  let ?u = "unat (sr_unassembled_start_index r)"
  assume "?u \<noteq> length S"
  then have "?u < length S"
    using assms(1) by (simp add: tracks_def)
  then have "staged (sr_staging_list r) ?u \<noteq> None"
    using assms(2) by (auto simp: known_def)
  moreover have "staging_ok (?u + 1) (window_end r) (sr_staging_list r)"
    using assms(1) by (simp add: tracks_def StreamReassembler_wf_def)
  ultimately show False
    using staged_below by fastforce
qed

text \<open>What is known at index \<open>i\<close> once the pushed substring has been merged.\<close>

definition push_pending :: "stream_reassembler \<Rightarrow> bytes \<Rightarrow> nat \<Rightarrow> nat \<Rightarrow> u8 option" where
  "push_pending r x index i =
     merge_byte (staged (sr_staging_list r) i) (max (unat (sr_unassembled_start_index r)) index)
       (min (index + length x) (window_end r)) index x i"

lemma push_pending_source:
  assumes "tracks S d r" "substring_of S x index eof" "push_pending r x index i = Some c"
  shows "i < length S \<and> c = S ! i"
proof (cases "staged (sr_staging_list r) i")
  case None
  then have "index \<le> i" "i < index + length x" "c = x ! (i - index)"
    using assms(3) by (auto simp: push_pending_def merge_byte_def split: if_splits)
  then show ?thesis
    using assms(2) substring_of_nth [OF assms(2), of i] by (simp add: substring_of_def)
next
  case (Some b)
  then show ?thesis
    using assms(1,3) by (simp add: tracks_def push_pending_def merge_byte_def)
qed

lemma push_effect_output:
  fixes r r' :: stream_reassembler
  defines "b \<equiv> unat (sr_unassembled_start_index r')"
  assumes r: "tracks S d r" and sub: "substring_of S x index eof"
    and eff: "push_effect r x index eof r'"
  shows "b \<le> length S \<and> d @ bs_buffer (sr_output r') = take b S"
proof -
  define a where "a = unat (sr_unassembled_start_index r)"
  have eff': "a \<le> b" "\<And>i. a \<le> i \<Longrightarrow> i < b \<Longrightarrow> push_pending r x index i \<noteq> None"
    "bs_buffer (sr_output r') =
       bs_buffer (sr_output r) @ map (\<lambda>i. the (push_pending r x index i)) [a..<b]"
    using eff unfolding push_effect_def Let_def a_def b_def push_pending_def by auto
  have r0: "a \<le> length S" "d @ bs_buffer (sr_output r) = take a S"
    using r by (auto simp: tracks_def a_def)
  have pend: "i < length S \<and> the (push_pending r x index i) = S ! i" if "a \<le> i" "i < b" for i
    using eff'(2) [OF that] push_pending_source [OF r sub] by fastforce
  have b: "b \<le> length S"
  proof (cases "a = b")
    case False
    then show ?thesis using pend [of "b - 1"] eff'(1) by simp linarith
  qed (use r0 in simp)
  have "map (\<lambda>i. the (push_pending r x index i)) [a..<b] = map ((!) S) [a..<b]"
    using pend by (intro map_cong) auto
  also have "\<dots> = drop a (take b S)"
    using b by (intro nth_equalityI) auto
  finally have "d @ bs_buffer (sr_output r') = take a (take b S) @ drop a (take b S)"
    using r0(2) eff'(1,3) by (simp add: min_absorb1 flip: append_assoc)
  then show ?thesis
    using b by (simp only: append_take_drop_id)
qed

lemma push_effect_finished:
  assumes r: "tracks S d r" and sub: "substring_of S x index eof" and eff: "push_effect r x index eof r'"
  shows "bs_is_ended (sr_output r') \<longleftrightarrow> bs_is_ended (sr_output r) \<or>
    sr_have_eof r' \<and> unat (sr_unassembled_start_index r') = length S"
proof -
  have at: "(if eof then index + length x else unat (sr_eof_index r)) = length S"
    if "sr_have_eof r \<or> eof"
    using that r sub by (auto simp: tracks_def substring_of_def)
  have "unat (sr_unassembled_start_index r') \<le> length S"
    using push_effect_output [OF r sub eff] by simp
  then show ?thesis
    using eff at unfolding push_effect_def Let_def by auto
qed

lemma push_effect_tracks:
  assumes r: "tracks S d r" and sub: "substring_of S x index eof"
    and eff: "push_effect r x index eof r'" and wf: "StreamReassembler_wf r'"
  shows "tracks S d r'"
proof -
  have out: "unat (sr_unassembled_start_index r') \<le> length S"
    "d @ bs_buffer (sr_output r') = take (unat (sr_unassembled_start_index r')) S"
    using push_effect_output [OF r sub eff] by auto
  have staged: "i < length S \<and> c = S ! i" if "staged (sr_staging_list r') i = Some c" for i c
    using that eff push_pending_source [OF r sub]
    unfolding push_effect_def Let_def push_pending_def by (simp split: if_splits)
  have "unat (sr_eof_index r') = length S" if "sr_have_eof r'"
    using that eff r sub unfolding push_effect_def Let_def
    by (auto simp: tracks_def substring_of_def)
  then show ?thesis
    using wf out staged unfolding tracks_def by auto
qed

lemma push_effect_reassembles:
  assumes r: "reassembles S d r" and sub: "substring_of S x index eof"
    and eff: "push_effect r x index eof r'" and wf: "StreamReassembler_wf r'"
  shows "reassembles S d r'"
proof -
  have r0: "tracks S d r"
    using r by (simp add: reassembles_def)
  have "unat (sr_unassembled_start_index r) \<le> unat (sr_unassembled_start_index r')"
    "unat (sr_unassembled_start_index r') \<le> length S" "sr_have_eof r' \<longleftrightarrow> sr_have_eof r \<or> eof"
    using eff push_effect_output [OF r0 sub eff] by (auto simp: push_effect_def Let_def)
  then show ?thesis
    using push_effect_tracks [OF r0 sub eff wf] push_effect_finished [OF r0 sub eff] r
    unfolding reassembles_def by auto
qed

lemma push_effect_known:
  assumes "push_effect r x index eof r'" "tracks S d r'" "j < length S"
    and "known r j \<or> index \<le> j \<and> j < index + length x \<and> j < window_end r"
  shows "known r' j"
proof (cases "push_pending r x index j = None")
  case True
  then have "j < unat (sr_unassembled_start_index r)"
    using assms(4) by (auto simp: known_def push_pending_def merge_byte_def split: option.splits if_splits)
  then show ?thesis
    using assms(1) by (auto simp: push_effect_def Let_def known_def)
next
  case False
  show ?thesis
  proof (cases "(sr_have_eof r \<or> eof) \<and>
    (if eof then index + length x else unat (sr_eof_index r)) \<le> unat (sr_unassembled_start_index r')")
    case True
    then have "unat (sr_unassembled_start_index r') = length S"
      using assms(1,2) unfolding push_effect_def tracks_def Let_def by auto
    then show ?thesis using assms(3) by (simp add: known_def)
  next
    case unfinished: False
    then show ?thesis
      using False assms(1) unfolding push_effect_def Let_def known_def push_pending_def by auto
  qed
qed

lemma tracks_push:
  assumes r: "tracks S d r" and sub: "substring_of S x (unat index) eof"
    and S: "length S < 2 ^ 64"
  obtains r' where "StreamReassembler_push_substring r x index eof = Inr r'"
    "tracks S d r'" "push_effect r x (unat index) eof r'"
proof -
  have idx: "unat index + length x < 2 ^ 64" "fits x"
    using sub S by (auto simp: substring_of_def fits_def)
  have "StreamReassembler_wf r"
    using r by (simp add: tracks_def)
  then obtain r' where "StreamReassembler_push_substring r x index eof = Inr r'"
    "StreamReassembler_wf r'" "push_effect r x (unat index) eof r'"
    using push_substring_total [OF _ idx(2)] idx(1) by blast
  then show thesis
    using push_effect_tracks [OF r sub] that by blast
qed

lemma reassembles_push:
  assumes r: "reassembles S d r" and sub: "substring_of S x (unat index) eof"
    and S: "length S < 2 ^ 64"
  obtains r' where "StreamReassembler_push_substring r x index eof = Inr r'"
    "reassembles S d r'" "push_effect r x (unat index) eof r'"
proof -
  have "tracks S d r"
    using r by (simp add: reassembles_def)
  from tracks_push [OF this sub S] obtain r' where r':
    "StreamReassembler_push_substring r x index eof = Inr r'" "tracks S d r'"
    "push_effect r x (unat index) eof r'" by blast
  then have "StreamReassembler_wf r'"
    by (simp add: tracks_def)
  from push_effect_reassembles [OF r sub r'(3) this] r' that show thesis
    by blast
qed

lemma tracks_read:
  assumes r: "tracks S d r" and n: "unat n \<le> length (bs_buffer (sr_output r))"
    and c: "length S + unat (sr_capacity r) < 2 ^ 64"
  shows "tracks S (d @ snd (ByteStream_read (sr_output r) n))
           (r\<lparr>sr_output := fst (ByteStream_read (sr_output r) n)\<rparr>)"
proof -
  have wf: "StreamReassembler_wf r"
    using r by (simp add: tracks_def)
  then have out: "ByteStream_read (sr_output r) n =
      ((sr_output r)\<lparr>bs_buffer := drop (unat n) (bs_buffer (sr_output r))\<rparr>,
       take (unat n) (bs_buffer (sr_output r)))"
    using n by (simp add: StreamReassembler_wf_def ByteStream_read_def ByteStream_pop_output_def
        ByteStream_peek_output_def word_less_nat_alt)
  let ?r = "r\<lparr>sr_output := fst (ByteStream_read (sr_output r) n)\<rparr>"
  have "window_end r \<le> window_end ?r" "window_end ?r < 2 ^ 64"
    using r c by (auto simp: window_end_def out tracks_def)
  then have "StreamReassembler_wf ?r"
    using wf n staging_ok_window [of _ "window_end r" _ "window_end ?r"]
    by (auto simp: StreamReassembler_wf_def out ByteStream_wf_def)
  then show ?thesis
    using r by (simp add: tracks_def out)
qed

lemma reassembles_read:
  assumes "reassembles S d r" "unat n \<le> length (bs_buffer (sr_output r))"
    "length S + unat (sr_capacity r) < 2 ^ 64"
  shows "reassembles S (d @ snd (ByteStream_read (sr_output r) n))
           (r\<lparr>sr_output := fst (ByteStream_read (sr_output r) n)\<rparr>)"
  using assms tracks_read [of S d r n]
  by (simp add: reassembles_def ByteStream_read_def ByteStream_pop_output_def ByteStream_set_error_def Let_def)

lemma reassembler_memory:
  assumes "StreamReassembler_wf r"
  shows "length (bs_buffer (sr_output r)) + unat (StreamReassembler_unassembled_bytes r)
    \<le> unat (sr_capacity r)"
proof -
  have wf: "staging_ok (unat (sr_unassembled_start_index r) + 1) (window_end r) (sr_staging_list r)"
    "unat (sr_staging_size r) = staged_total (sr_staging_list r)"
    "length (bs_buffer (sr_output r)) \<le> unat (sr_capacity r)"
    "length (bs_buffer (sr_output r)) \<le> unat (sr_unassembled_start_index r)"
    using assms by (auto simp: StreamReassembler_wf_def ByteStream_wf_def)
  show ?thesis
  proof (cases "unat (sr_unassembled_start_index r) + 1 \<le> window_end r")
    case True
    then show ?thesis
      using staged_total_le [OF wf(1)] wf by (simp add: window_end_def StreamReassembler_unassembled_bytes_def)
  next
    case False
    then have "sr_staging_list r = []"
      using wf(1) by (cases "sr_staging_list r") auto
    then show ?thesis
      using wf by (simp add: StreamReassembler_unassembled_bytes_def)
  qed
qed

section \<open>Runs\<close>

text \<open>
  A run from construction: substrings of \<open>S\<close> arrive in any order, any number of times, and
  the reader takes bytes out in between (never more than are buffered).
\<close>

inductive reassembling :: "bytes \<Rightarrow> size_t \<Rightarrow> stream_reassembler \<Rightarrow> bytes \<Rightarrow> bool"
  for S :: bytes and c :: size_t where
  start: "reassembling S c (StreamReassembler_new c) []"
| push: "reassembling S c r d \<Longrightarrow> substring_of S x (unat i) eof \<Longrightarrow>
    StreamReassembler_push_substring r x i eof = Inr r' \<Longrightarrow> reassembling S c r' d"
| read: "reassembling S c r d \<Longrightarrow> unat n \<le> length (bs_buffer (sr_output r)) \<Longrightarrow>
    reassembling S c (r\<lparr>sr_output := fst (ByteStream_read (sr_output r) n)\<rparr>)
      (d @ snd (ByteStream_read (sr_output r) n))"

lemma reassembling_invariant:
  assumes "reassembling S c r d" "c \<noteq> 0" "length S + unat c < 2 ^ 64"
  shows "reassembles S d r \<and> sr_capacity r = c"
  using assms(1)
proof (induction rule: reassembling.induct)
  case start
  show ?case
    using reassembles_new [OF assms(2)] by (simp add: StreamReassembler_new_def)
next
  case (push r d x i eof r')
  have "reassembles S d r" "length S < 2 ^ 64"
    using push.IH assms(3) by simp_all
  from reassembles_push [OF this(1) push.hyps(2) this(2)]
  obtain r'' where r'': "StreamReassembler_push_substring r x i eof = Inr r''"
    "reassembles S d r''" "push_effect r x (unat i) eof r''" by blast
  then have "r'' = r'" "sr_capacity r'' = sr_capacity r"
    using push.hyps(3) by (simp_all add: push_effect_def Let_def)
  then show ?case
    using push.IH r''(2) by simp
next
  case (read r d n)
  then show ?case
    using reassembles_read assms(3) by auto
qed

fun push_pieces ::
  "stream_reassembler \<Rightarrow> (bytes \<times> u64 \<times> bool) list \<Rightarrow> stream_reassembler outcome" where
  "push_pieces r [] = Inr r"
| "push_pieces r ((x, i, eof) # ps) =
     bindE (StreamReassembler_push_substring r x i eof) (\<lambda>r'. push_pieces r' ps)"

lemma push_pieces_complete:
  assumes "reassembles S d r" "length S \<le> window_end r" "length S < 2 ^ 64"
    and "\<forall>(x, i, eof) \<in> set ps. substring_of S x (unat i) eof"
    and "\<forall>j < length S. known r j \<or>
      (\<exists>(x, i, eof) \<in> set ps. unat i \<le> j \<and> j < unat i + length x)"
    and "sr_have_eof r \<or> (\<exists>(x, i, eof) \<in> set ps. eof)"
  shows "\<exists>r'. push_pieces r ps = Inr r' \<and> reassembles S d r' \<and> sr_have_eof r' \<and>
    (\<forall>j < length S. known r' j)"
  using assms
proof (induction ps arbitrary: r)
  case Nil
  then show ?case by simp
next
  case (Cons p ps)
  obtain x i eof where p: "p = (x, i, eof)"
    by (cases p)
  then have "substring_of S x (unat i) eof"
    using Cons.prems(4) by auto
  from reassembles_push [OF Cons.prems(1) this Cons.prems(3)]
  obtain r' where r': "StreamReassembler_push_substring r x i eof = Inr r'"
    "reassembles S d r'" "push_effect r x (unat i) eof r'" by blast
  have "\<exists>r''. push_pieces r' ps = Inr r'' \<and> reassembles S d r'' \<and> sr_have_eof r'' \<and>
      (\<forall>j < length S. known r'' j)"
  proof (rule Cons.IH [OF r'(2)])
    show "length S \<le> window_end r'" "sr_have_eof r' \<or> (\<exists>(x, i, eof) \<in> set ps. eof)"
      using Cons.prems(2,6) r'(3) by (auto simp: push_effect_def Let_def p)
    show "\<forall>j < length S. known r' j \<or>
        (\<exists>(x, i, eof) \<in> set ps. unat i \<le> j \<and> j < unat i + length x)"
      using Cons.prems(2,5) push_effect_known [OF r'(3)] r'(2) by (fastforce simp: p reassembles_def)
  qed (use Cons.prems in auto)
  then show ?case
    by (simp add: p r'(1))
qed

section \<open>Properties\<close>

text \<open>
  C25. \<^verbatim>\<open>push_substring\<close> never throws, for any substring and any index, and keeps the
  well-formedness invariant (sorted disjoint staging list inside the window, exact
  \<^verbatim>\<open>_staging_size\<close>).  When the last index is representable its effect is exactly a merge
  that keeps bytes already known and drops bytes outside the window, followed by moving the
  gap-free prefix to the output and ending the output when the end is known and reached.
\<close>

theorem push_substring_correct:
  assumes "StreamReassembler_wf r" "fits data"
  shows "\<exists>r'. StreamReassembler_push_substring r data index eof = Inr r' \<and> StreamReassembler_wf r' \<and>
    (unat index + length data < 2 ^ 64 \<longrightarrow> push_effect r data (unat index) eof r')"
  using assms by (rule push_substring_total)

theorem push_substring_correct_witness:
  "\<exists>r'. StreamReassembler_push_substring (StreamReassembler_new 4) [7, 8] 1 True = Inr r' \<and>
     StreamReassembler_wf r' \<and> push_effect (StreamReassembler_new 4) [7, 8] 1 True r'"
  using push_substring_correct [of "StreamReassembler_new 4" "[7, 8]" 1 True]
    StreamReassembler_wf_new [of 4]
  by (simp add: fits_def)

text \<open>
  C6. In every run over a source stream \<open>S\<close>, what the reader has taken followed by what is
  buffered is exactly the prefix of \<open>S\<close> of length \<^verbatim>\<open>bytes_written\<close>; the output reports
  end of input exactly when the end has been announced and all of \<open>S\<close> is written; and
  buffered plus unassembled bytes never exceed the capacity.
\<close>

theorem reassembler_safety:
  assumes "reassembling S c r d" "c \<noteq> 0" "length S + unat c < 2 ^ 64"
  shows "d @ bs_buffer (sr_output r) = take (unat (ByteStream_bytes_written (sr_output r))) S \<and>
    (ByteStream_input_ended (sr_output r) \<longleftrightarrow>
       sr_have_eof r \<and> d @ bs_buffer (sr_output r) = S) \<and>
    length (bs_buffer (sr_output r)) + unat (StreamReassembler_unassembled_bytes r) \<le> unat c"
proof -
  have r: "reassembles S d r" "sr_capacity r = c"
    using reassembling_invariant [OF assms] by auto
  then have out: "d @ bs_buffer (sr_output r) = take (unat (sr_unassembled_start_index r)) S"
    "unat (sr_unassembled_start_index r) \<le> length S"
    "bs_is_ended (sr_output r) \<longleftrightarrow>
       sr_have_eof r \<and> unat (sr_unassembled_start_index r) = length S"
    and wf: "StreamReassembler_wf r"
    by (simp_all add: reassembles_def tracks_def)
  have "take (unat (sr_unassembled_start_index r)) S = S \<longleftrightarrow>
      unat (sr_unassembled_start_index r) = length S"
    using out(2) by (metis length_take min_absorb2 take_all order_refl)
  then show ?thesis
    using out reassembler_memory [OF wf] r(2) StreamReassembler_wfD(4) [OF wf]
    by (simp add: ByteStream_bytes_written_def ByteStream_input_ended_def)
qed

theorem reassembler_safety_witness:
  "\<exists>r. reassembling [1, 2, 3] 4 r [] \<and> sr_unassembled_start_index r = 0 \<and>
     unat (StreamReassembler_unassembled_bytes r) = 2 \<and>
     length (bs_buffer (sr_output r)) + unat (StreamReassembler_unassembled_bytes r) \<le> 4"
proof -
  let ?r = "(StreamReassembler_new 4)\<lparr>sr_staging_list := [(1, 2, [2, 3])], sr_staging_size := 2,
    sr_have_eof := True, sr_eof_index := 3\<rparr>"
  have "StreamReassembler_push_substring (StreamReassembler_new 4) [2, 3] 1 True = Inr ?r"
    by code_simp
  then have run: "reassembling [1, 2, 3] 4 ?r []"
    by (rule reassembling.push [OF reassembling.start, rotated]) (simp add: substring_of_def)
  show ?thesis
    using run reassembler_safety [OF run]
    by (intro exI [of _ ?r])
      (simp add: StreamReassembler_unassembled_bytes_def StreamReassembler_new_def ByteStream_new_def)
qed

text \<open>
  C8. If the pieces pushed are substrings of \<open>S\<close>, cover it, one of them carries the end, and
  \<open>S\<close> fits the capacity, then after all pushes, in whatever order and with whatever overlaps
  and repetitions, the output holds exactly \<open>S\<close> and has ended.
\<close>

theorem reassembler_completes:
  assumes "0 < unat c" "length S \<le> unat c"
    and "\<forall>(x, i, eof) \<in> set ps. substring_of S x (unat i) eof"
    and "\<forall>j < length S. \<exists>(x, i, eof) \<in> set ps. unat i \<le> j \<and> j < unat i + length x"
    and "\<exists>(x, i, eof) \<in> set ps. eof"
  shows "\<exists>r. push_pieces (StreamReassembler_new c) ps = Inr r \<and>
    bs_buffer (sr_output r) = S \<and> ByteStream_input_ended (sr_output r)"
proof -
  have "c \<noteq> 0"
    using assms(1) by auto
  from push_pieces_complete [OF reassembles_new [OF this], of S ps] assms
  obtain r where r: "push_pieces (StreamReassembler_new c) ps = Inr r" "reassembles S [] r"
    "sr_have_eof r" "\<forall>j < length S. known r j"
    using unat_lt64 [of c] by (auto simp: window_end_def StreamReassembler_new_def ByteStream_new_def)
  have "unat (sr_unassembled_start_index r) = length S"
    using known_all_assembled [of S "[]" r] r by (simp add: reassembles_def)
  with r show ?thesis
    by (auto simp: reassembles_def tracks_def ByteStream_input_ended_def)
qed

theorem reassembler_completes_witness:
  "\<exists>r. push_pieces (StreamReassembler_new 4) [([2, 3], 1, True), ([1, 2], 0, False)] = Inr r \<and>
     bs_buffer (sr_output r) = [1, 2, 3] \<and> ByteStream_input_ended (sr_output r)"
proof (rule reassembler_completes)
  show "\<forall>j < length [1 :: u8, 2, 3]. \<exists>(x, i, eof) \<in> set [([2, 3] :: bytes, 1 :: u64, True), ([1, 2], 0, False)].
      unat i \<le> j \<and> j < unat i + length x"
    by (auto simp: less_Suc_eq numeral_3_eq_3)
qed (simp_all add: substring_of_def)

text \<open>
  With capacity 0 the window test \<^verbatim>\<open>_capacity - 1\<close> wraps around: a first substring is
  accepted whole, the output stream stores none of it, and the reassembler moves its start
  index past it, so the bytes are lost although they count as assembled.
\<close>

theorem reassembler_capacity_zero:
  assumes "x \<noteq> []" "fits x"
  shows "\<exists>r. StreamReassembler_push_substring (StreamReassembler_new 0) x 0 False = Inr r \<and>
    unat (sr_unassembled_start_index r) = length x \<and> bs_buffer (sr_output r) = [] \<and>
    StreamReassembler_unassembled_bytes r = 0"
proof -
  have len: "sz x \<noteq> 0" "min (sz x - 1) (-1) = sz x - 1"
    using assms sz_eq_0_iff [OF assms(2)] by (auto simp: min_def)
  then have "string_substr x 0 (sz x) = Inr x"
    using assms by (simp add: string_substr_def)
  then show ?thesis
    using len assms
    by (simp add: StreamReassembler_push_substring_def StreamReassembler_new_def Let_def
        StreamReassembler_piece_def ByteStream_buffer_size_def ByteStream_new_def ByteStream_write_def
        ByteStream_remaining_capacity_def StreamReassembler_eof_process_def
        StreamReassembler_unassembled_bytes_def)
qed

theorem reassembler_capacity_zero_witness:
  "\<exists>r. StreamReassembler_push_substring (StreamReassembler_new 0) [5] 0 False = Inr r \<and>
    unat (sr_unassembled_start_index r) = 1 \<and> bs_buffer (sr_output r) = [] \<and>
    StreamReassembler_unassembled_bytes r = 0"
  using reassembler_capacity_zero [of "[5]"] by (simp add: fits_def)

end
