(* ===== verification/Buffers.thy ===== *)
theory Buffers
  imports Sponge_Prelude
begin

text \<open>
  \<^verbatim>\<open>libsponge/util/buffer.{hh,cc}\<close>: \<^verbatim>\<open>Buffer\<close> (a shared read-only string with an offset),
  \<^verbatim>\<open>BufferList\<close> (a queue of them) and \<^verbatim>\<open>BufferViewList\<close> (a queue of string views).  The
  storage is never written after construction, so sharing it is not observable and the
  pointer is modelled by its contents.  The locale \<open>discardable\<close> is the contract of
  \<^verbatim>\<open>remove_prefix\<close> shared by the three classes.
\<close>

section \<open>Buffer\<close>

record buffer =
  buf_storage :: "bytes option"
  buf_starting_offset :: size_t

definition Buffer_default :: buffer where
  "Buffer_default = \<lparr>buf_storage = None, buf_starting_offset = 0\<rparr>"

definition Buffer_new :: "bytes \<Rightarrow> buffer" where
  "Buffer_new str = \<lparr>buf_storage = Some str, buf_starting_offset = 0\<rparr>"

definition Buffer_str :: "buffer \<Rightarrow> bytes" where
  "Buffer_str b =
     (case buf_storage b of None \<Rightarrow> [] | Some s \<Rightarrow> drop (unat (buf_starting_offset b)) s)"

definition Buffer_size :: "buffer \<Rightarrow> size_t" where
  "Buffer_size b = sz (Buffer_str b)"

definition Buffer_at :: "buffer \<Rightarrow> size_t \<Rightarrow> u8 outcome" where
  "Buffer_at b n =
     (if n < Buffer_size b then Inr (Buffer_str b ! unat n) else Inl (Out_of_range ''string_view::at''))"

definition Buffer_copy :: "buffer \<Rightarrow> bytes" where
  "Buffer_copy b = Buffer_str b"

definition Buffer_remove_prefix :: "buffer \<Rightarrow> size_t \<Rightarrow> buffer outcome" where
  "Buffer_remove_prefix b n =
     (if n > Buffer_size b then Inl (Out_of_range ''Buffer::remove_prefix'')
      else let b' = b\<lparr>buf_starting_offset := buf_starting_offset b + n\<rparr>
           in Inr (case buf_storage b' of
                     None \<Rightarrow> b'
                   | Some s \<Rightarrow> if buf_starting_offset b' = sz s then b'\<lparr>buf_storage := None\<rparr> else b'))"

text \<open>The offset never points past the storage, so \<^verbatim>\<open>str()\<close> never reads out of bounds.\<close>

definition Buffer_wf :: "buffer \<Rightarrow> bool" where
  "Buffer_wf b \<longleftrightarrow>
     (case buf_storage b of None \<Rightarrow> True
      | Some s \<Rightarrow> fits s \<and> unat (buf_starting_offset b) \<le> length s)"

lemma Buffer_wf_new [simp]: "Buffer_wf (Buffer_new s) = fits s" "Buffer_wf Buffer_default"
  by (simp_all add: Buffer_wf_def Buffer_new_def Buffer_default_def)

lemma Buffer_str_new [simp]: "Buffer_str (Buffer_new s) = s" "Buffer_str Buffer_default = []"
  by (simp_all add: Buffer_str_def Buffer_new_def Buffer_default_def)

lemma Buffer_wf_fits [simp]: "Buffer_wf b \<Longrightarrow> fits (Buffer_str b)"
  by (auto simp: Buffer_wf_def Buffer_str_def split: option.splits)

lemma unat_Buffer_size [simp]: "Buffer_wf b \<Longrightarrow> unat (Buffer_size b) = length (Buffer_str b)"
  by (simp add: Buffer_size_def)

lemma Buffer_remove_prefix_ok:
  assumes "Buffer_wf b" "unat n \<le> length (Buffer_str b)"
  obtains b' where "Buffer_remove_prefix b n = Inr b'" "Buffer_wf b'"
    "Buffer_str b' = drop (unat n) (Buffer_str b)"
proof (cases "buf_storage b")
  case None
  then show thesis
    using assms that by (simp add: Buffer_remove_prefix_def Buffer_wf_def Buffer_str_def word_nat Buffer_size_def)
next
  case (Some s)
  then have s: "fits s" "unat (buf_starting_offset b) \<le> length s"
    "unat (buf_starting_offset b + n) = unat (buf_starting_offset b) + unat n"
    using assms by (auto simp: Buffer_wf_def Buffer_str_def fits_def unat_add_nowrap)
  let ?b = "b\<lparr>buf_starting_offset := buf_starting_offset b + n\<rparr>"
  have le: "unat (buf_starting_offset b) + unat n \<le> length s"
    using assms(2) Some s(2) by (simp add: Buffer_str_def)
  have "\<not> Buffer_size b < n"
    using assms by (simp add: word_nat)
  then have rem: "Buffer_remove_prefix b n =
      Inr (if unat (buf_starting_offset b) + unat n = length s then ?b\<lparr>buf_storage := None\<rparr> else ?b)"
    using Some s by (simp add: Buffer_remove_prefix_def word_eq_unat Let_def)
  show thesis
    by (rule that [OF rem]) (use Some s le in \<open>auto simp: Buffer_wf_def Buffer_str_def add.commute\<close>)
qed

section \<open>BufferList\<close>

type_synonym buffer_list = "buffer list"

definition BufferList_of_string :: "bytes \<Rightarrow> buffer_list" where
  "BufferList_of_string str = [Buffer_new str]"

definition BufferList_append :: "buffer_list \<Rightarrow> buffer_list \<Rightarrow> buffer_list" where
  "BufferList_append bl other = foldl (\<lambda>acc b. acc @ [b]) bl other"

definition BufferList_to_Buffer :: "buffer_list \<Rightarrow> buffer outcome" where
  "BufferList_to_Buffer bl =
     (case bl of [] \<Rightarrow> Inr Buffer_default | [b] \<Rightarrow> Inr b
      | _ \<Rightarrow> Inl (Runtime_error ''BufferList: please use concatenate() to combine a multi-Buffer BufferList into one Buffer''))"

definition BufferList_concatenate :: "buffer_list \<Rightarrow> bytes" where
  "BufferList_concatenate bl = foldl (\<lambda>ret b. ret @ Buffer_str b) [] bl"

definition BufferList_size :: "buffer_list \<Rightarrow> size_t" where
  "BufferList_size bl = foldl (\<lambda>ret b. ret + Buffer_size b) 0 bl"

fun BufferList_remove_prefix :: "buffer_list \<Rightarrow> size_t \<Rightarrow> buffer_list outcome" where
  "BufferList_remove_prefix [] n =
     (if n > 0 then Inl (Out_of_range ''BufferList::remove_prefix'') else Inr [])"
| "BufferList_remove_prefix (b # bl) n =
     (if n > 0 then
        if n < Buffer_size b
        then bindE (Buffer_remove_prefix b n) (\<lambda>b'. Inr (b' # bl))
        else BufferList_remove_prefix bl (n - Buffer_size b)
      else Inr (b # bl))"

section \<open>BufferViewList\<close>

type_synonym buffer_view_list = "bytes list"

definition BufferViewList_of_view :: "bytes \<Rightarrow> buffer_view_list" where
  "BufferViewList_of_view str = [str]"

definition BufferViewList_of_BufferList :: "buffer_list \<Rightarrow> buffer_view_list" where
  "BufferViewList_of_BufferList bl = foldl (\<lambda>views x. views @ [Buffer_str x]) [] bl"

fun BufferViewList_remove_prefix :: "buffer_view_list \<Rightarrow> size_t \<Rightarrow> buffer_view_list outcome" where
  "BufferViewList_remove_prefix [] n =
     (if n > 0 then Inl (Out_of_range ''BufferListView::remove_prefix'') else Inr [])"
| "BufferViewList_remove_prefix (v # vl) n =
     (if n > 0 then
        if n < sz v then Inr (drop (unat n) v # vl)
        else BufferViewList_remove_prefix vl (n - sz v)
      else Inr (v # vl))"

definition BufferViewList_size :: "buffer_view_list \<Rightarrow> size_t" where
  "BufferViewList_size vl = foldl (\<lambda>ret v. ret + sz v) 0 vl"

text \<open>The \<^verbatim>\<open>iovec\<close>s: each view as its bytes and the length handed to the system call.\<close>

definition BufferViewList_as_iovecs :: "buffer_view_list \<Rightarrow> (bytes \<times> size_t) list" where
  "BufferViewList_as_iovecs vl = map (\<lambda>x. (x, sz x)) vl"

section \<open>Lists of buffers as byte strings\<close>

lemma BufferList_append_eq [simp]: "BufferList_append bl other = bl @ other"
  unfolding BufferList_append_def by (induction other arbitrary: bl) auto

lemma foldl_append_concat: "foldl (\<lambda>ret b. ret @ f b) acc bl = acc @ concat (map f bl)"
  by (induction bl arbitrary: acc) auto

lemma BufferList_concatenate_eq: "BufferList_concatenate bl = concat (map Buffer_str bl)"
  by (simp add: BufferList_concatenate_def foldl_append_concat)

lemma BufferList_concatenate_simps [simp]:
  "BufferList_concatenate [] = []"
  "BufferList_concatenate (b # bl) = Buffer_str b @ BufferList_concatenate bl"
  "BufferList_concatenate (bl @ bl') = BufferList_concatenate bl @ BufferList_concatenate bl'"
  "BufferList_concatenate (BufferList_of_string s) = s"
  by (simp_all add: BufferList_concatenate_eq BufferList_of_string_def)

lemma BufferViewList_of_BufferList_eq: "BufferViewList_of_BufferList bl = map Buffer_str bl"
proof -
  have "foldl (\<lambda>views x. views @ [Buffer_str x]) acc bl = acc @ map Buffer_str bl" for acc
    by (induction bl arbitrary: acc) auto
  then show ?thesis by (simp add: BufferViewList_of_BufferList_def)
qed

lemma foldl_sz: "foldl (\<lambda>ret v. ret + sz v) acc vl = acc + sz (concat vl)"
  by (induction vl arbitrary: acc) (auto simp: sz_def)

lemma BufferViewList_size_eq: "BufferViewList_size vl = sz (concat vl)"
  by (simp add: BufferViewList_size_def foldl_sz)

lemma BufferList_size_eq: "BufferList_size bl = sz (BufferList_concatenate bl)"
proof -
  have "foldl (\<lambda>ret b. ret + Buffer_size b) acc bl = acc + sz (concat (map Buffer_str bl))" for acc
    by (induction bl arbitrary: acc) (auto simp: Buffer_size_def sz_def)
  then show ?thesis by (simp add: BufferList_size_def BufferList_concatenate_eq)
qed

section \<open>The contract of remove\_prefix\<close>

locale discardable =
  fixes content :: "'b \<Rightarrow> bytes"
    and ok :: "'b \<Rightarrow> bool"
    and discard :: "'b \<Rightarrow> size_t \<Rightarrow> 'b outcome"
  assumes discard_ok: "ok b \<Longrightarrow> unat n \<le> length (content b) \<Longrightarrow>
      \<exists>b'. discard b n = Inr b' \<and> ok b' \<and> content b' = drop (unat n) (content b)"
    and discard_fail: "ok b \<Longrightarrow> length (content b) < unat n \<Longrightarrow>
      \<exists>what. discard b n = Inl (Out_of_range what)"
begin

lemma discard_returns_iff: "ok b \<Longrightarrow> returns (discard b n) \<longleftrightarrow> unat n \<le> length (content b)"
  using discard_ok [of b n] discard_fail [of b n] by (cases "unat n \<le> length (content b)") auto

text \<open>
  A writer that hands over the contents in chunks, discarding after each the number of bytes
  taken (the loop of \<^verbatim>\<open>FileDescriptor::write\<close>): the chunks together are the contents.
\<close>

fun chunks :: "'b \<Rightarrow> size_t list \<Rightarrow> (bytes \<times> 'b) outcome" where
  "chunks b [] = Inr ([], b)"
| "chunks b (n # ns) =
     bindE (discard b n) (\<lambda>b'. bindE (chunks b' ns)
       (\<lambda>(out, b''). Inr (take (unat n) (content b) @ out, b'')))"

lemma chunks_sum:
  assumes "ok b" "sum_list (map unat ns) \<le> length (content b)"
  shows "\<exists>b'. chunks b ns = Inr (take (sum_list (map unat ns)) (content b), b') \<and> ok b' \<and>
    content b' = drop (sum_list (map unat ns)) (content b)"
  using assms
proof (induction ns arbitrary: b)
  case (Cons n ns)
  then obtain b' where b': "discard b n = Inr b'" "ok b'" "content b' = drop (unat n) (content b)"
    using discard_ok [of b n] by auto
  moreover have "sum_list (map unat ns) \<le> length (content b')"
    using Cons.prems b' by simp
  from Cons.IH [OF b'(2) this] obtain b'' where "ok b''"
    "chunks b' ns = Inr (take (sum_list (map unat ns)) (content b'), b'')"
    "content b'' = drop (sum_list (map unat ns)) (content b')" by blast
  ultimately show ?case
    by (simp add: take_add add.commute)
qed simp

end

lemma BufferList_remove_prefix_ok:
  assumes "\<forall>b \<in> set bl. Buffer_wf b" "unat n \<le> length (BufferList_concatenate bl)"
  shows "\<exists>bl'. BufferList_remove_prefix bl n = Inr bl' \<and> (\<forall>b \<in> set bl'. Buffer_wf b) \<and>
    BufferList_concatenate bl' = drop (unat n) (BufferList_concatenate bl)"
  using assms
proof (induction bl n rule: BufferList_remove_prefix.induct)
  case (2 b bl n)
  consider "n = 0" | "0 < n" "n < Buffer_size b" | "0 < n" "\<not> n < Buffer_size b"
    using word_coorder.not_eq_extremum by blast
  then show ?case
  proof cases
    case 2
    moreover obtain b' where "Buffer_remove_prefix b n = Inr b'" "Buffer_wf b'"
      "Buffer_str b' = drop (unat n) (Buffer_str b)"
      using "2.prems" 2 by (auto elim!: Buffer_remove_prefix_ok [of b n] simp: word_nat)
    ultimately show ?thesis
      using "2.prems" by (auto simp: word_nat)
  next
    case 3
    then have "unat (n - Buffer_size b) = unat n - length (Buffer_str b)"
      "length (Buffer_str b) \<le> unat n"
      using "2.prems" by (auto simp: word_nat unat_sub_nowrap)
    then show ?thesis
      using "2.IH" 3 "2.prems" by auto
  qed (use "2.prems" in simp)
qed (simp add: word_nat)

lemma BufferList_remove_prefix_fail:
  assumes "\<forall>b \<in> set bl. Buffer_wf b" "length (BufferList_concatenate bl) < unat n"
  shows "BufferList_remove_prefix bl n = Inl (Out_of_range ''BufferList::remove_prefix'')"
  using assms
proof (induction bl n rule: BufferList_remove_prefix.induct)
  case (2 b bl n)
  then have "0 < n" "\<not> n < Buffer_size b"
    "unat (n - Buffer_size b) = unat n - length (Buffer_str b)"
    by (auto simp: word_nat unat_sub_nowrap)
  then show ?case
    using 2 by auto
qed (simp add: word_nat)

lemma BufferViewList_remove_prefix_ok:
  assumes "\<forall>v \<in> set vl. fits v" "unat n \<le> length (concat vl)"
  shows "\<exists>vl'. BufferViewList_remove_prefix vl n = Inr vl' \<and> (\<forall>v \<in> set vl'. fits v) \<and>
    concat vl' = drop (unat n) (concat vl)"
  using assms
proof (induction vl n rule: BufferViewList_remove_prefix.induct)
  case (2 v vl n)
  show ?case
  proof (cases "0 < n \<and> \<not> n < sz v")
    case True
    then have "unat (n - sz v) = unat n - length v" "length v \<le> unat n"
      using "2.prems" by (auto simp: word_nat unat_sub_nowrap)
    then show ?thesis
      using "2.IH" True "2.prems" by auto
  next
    case False
    then show ?thesis using "2.prems" by (auto simp: word_nat)
  qed
qed (simp add: word_nat)

lemma BufferViewList_remove_prefix_fail:
  assumes "\<forall>v \<in> set vl. fits v" "length (concat vl) < unat n"
  shows "BufferViewList_remove_prefix vl n = Inl (Out_of_range ''BufferListView::remove_prefix'')"
  using assms
proof (induction vl n rule: BufferViewList_remove_prefix.induct)
  case (2 v vl n)
  then have "0 < n" "\<not> n < sz v" "unat (n - sz v) = unat n - length v"
    by (auto simp: word_nat unat_sub_nowrap)
  then show ?case
    using 2 by auto
qed (simp add: word_nat)

interpretation buf: discardable Buffer_str Buffer_wf Buffer_remove_prefix
proof unfold_locales
  fix b n
  assume "Buffer_wf b"
  show "\<exists>b'. Buffer_remove_prefix b n = Inr b' \<and> Buffer_wf b' \<and> Buffer_str b' = drop (unat n) (Buffer_str b)"
    if "unat n \<le> length (Buffer_str b)"
    using Buffer_remove_prefix_ok [OF \<open>Buffer_wf b\<close> that] by blast
  show "\<exists>what. Buffer_remove_prefix b n = Inl (Out_of_range what)" if "length (Buffer_str b) < unat n"
    using that \<open>Buffer_wf b\<close> by (simp add: Buffer_remove_prefix_def word_nat)
qed

interpretation buflist: discardable BufferList_concatenate "\<lambda>bl. \<forall>b \<in> set bl. Buffer_wf b"
  BufferList_remove_prefix
  by unfold_locales (auto simp: BufferList_remove_prefix_ok BufferList_remove_prefix_fail)

interpretation views: discardable concat "\<lambda>vl. \<forall>v \<in> set vl. fits v" BufferViewList_remove_prefix
  by unfold_locales (auto simp: BufferViewList_remove_prefix_ok BufferViewList_remove_prefix_fail
      simp del: length_concat)

section \<open>Properties\<close>

text \<open>
  A discontiguous \<^verbatim>\<open>BufferList\<close> behaves like the string it represents: its size is the
  size of the string, \<^verbatim>\<open>remove_prefix(n)\<close> drops exactly the first \<open>n\<close> bytes of the string
  across buffer boundaries, and throws exactly when there are fewer than \<open>n\<close>.
\<close>

theorem BufferList_remove_prefix_contents:
  assumes "\<forall>b \<in> set bl. Buffer_wf b" "fits (BufferList_concatenate bl)"
  shows "unat (BufferList_size bl) = length (BufferList_concatenate bl) \<and>
    (case BufferList_remove_prefix bl n of
       Inr bl' \<Rightarrow> n \<le> BufferList_size bl \<and> (\<forall>b \<in> set bl'. Buffer_wf b) \<and>
         BufferList_concatenate bl' = drop (unat n) (BufferList_concatenate bl)
     | Inl e \<Rightarrow> BufferList_size bl < n \<and> e = Out_of_range ''BufferList::remove_prefix'')"
  using assms BufferList_remove_prefix_ok [OF assms(1), of n] BufferList_remove_prefix_fail [OF assms(1), of n]
  by (cases "unat n \<le> length (BufferList_concatenate bl)") (auto simp: BufferList_size_eq word_nat)

theorem BufferList_remove_prefix_contents_witness:
  "\<exists>bl'. BufferList_remove_prefix [Buffer_new [1, 2], Buffer_new [3, 4]] 3 = Inr bl' \<and>
     BufferList_concatenate bl' = [4]"
proof -
  let ?bl = "[Buffer_new [1, 2], Buffer_new [3, 4]]"
  have "\<forall>b \<in> set ?bl. Buffer_wf b" "fits (BufferList_concatenate ?bl)"
    by (simp_all add: fits_def)
  from BufferList_remove_prefix_contents [OF this, of 3] show ?thesis
    by (cases "BufferList_remove_prefix ?bl 3")
      (auto simp: BufferList_size_eq sz_def simp del: BufferList_remove_prefix.simps)
qed

end
