(* ===== verification/Net_Parser.thy ===== *)
theory Net_Parser
  imports Buffers
begin

text \<open>
  \<^verbatim>\<open>libsponge/util/parser.{hh,cc}\<close>: the parser of big-endian integers from a \<^verbatim>\<open>Buffer\<close>
  with its sticky error, and the unparser that appends them to a string.  The template
  \<^verbatim>\<open>_parse_int<T>\<close> is one definition polymorphic in the width.  No parser call throws, and
  parsing undoes unparsing.
\<close>

unbundle bit_operations_syntax

section \<open>State and operations\<close>

datatype parse_result =
    NoError
  | BadChecksum
  | PacketTooShort
  | WrongIPVersion
  | HeaderTooShort
  | TruncatedPacket
  | Unsupported

fun parse_result_index :: "parse_result \<Rightarrow> nat" where
  "parse_result_index NoError = 0"
| "parse_result_index BadChecksum = 1"
| "parse_result_index PacketTooShort = 2"
| "parse_result_index WrongIPVersion = 3"
| "parse_result_index HeaderTooShort = 4"
| "parse_result_index TruncatedPacket = 5"
| "parse_result_index Unsupported = 6"

text \<open>Indexing the array of names out of bounds has no meaning in C++.\<close>

definition as_string :: "parse_result \<Rightarrow> string outcome" where
  "as_string r =
     (let names = [''NoError'', ''BadChecksum'', ''PacketTooShort'', ''WrongIPVersion'',
                   ''HeaderTooShort'', ''TruncatedPacket'']
      in if parse_result_index r < length names then Inr (names ! parse_result_index r)
         else Inl (Undefined ''array index out of bounds''))"

record net_parser =
  np_buffer :: buffer
  np_error :: parse_result

definition NetParser_new :: "buffer \<Rightarrow> net_parser" where
  "NetParser_new b = \<lparr>np_buffer = b, np_error = NoError\<rparr>"

definition NetParser_set_error :: "net_parser \<Rightarrow> parse_result \<Rightarrow> net_parser" where
  "NetParser_set_error p res = p\<lparr>np_error := res\<rparr>"

definition NetParser_get_error :: "net_parser \<Rightarrow> parse_result" where
  "NetParser_get_error p = np_error p"

definition NetParser_error :: "net_parser \<Rightarrow> bool" where
  "NetParser_error p \<longleftrightarrow> NetParser_get_error p \<noteq> NoError"

definition NetParser_check_size :: "net_parser \<Rightarrow> size_t \<Rightarrow> net_parser" where
  "NetParser_check_size p n =
     (if n > Buffer_size (np_buffer p) then NetParser_set_error p PacketTooShort else p)"

text \<open>The loop of \<^verbatim>\<open>_parse_int\<close>: \<open>k\<close> more bytes from position \<open>i\<close> on.\<close>

fun parse_bytes :: "nat \<Rightarrow> nat \<Rightarrow> buffer \<Rightarrow> 'a::len word \<Rightarrow> 'a word outcome" where
  "parse_bytes 0 i b ret = Inr ret"
| "parse_bytes (Suc k) i b ret =
     bindE (Buffer_at b (word_of_nat i))
       (\<lambda>x. parse_bytes k (Suc i) b (push_bit 8 ret + ucast x))"

definition NetParser_parse_int :: "net_parser \<Rightarrow> ('a::len word \<times> net_parser) outcome" where
  "NetParser_parse_int p0 =
     (let len = LENGTH('a) div 8; p = NetParser_check_size p0 (word_of_nat len)
      in if NetParser_error p then Inr (0, p)
         else bindE (parse_bytes len 0 (np_buffer p) 0)
                (\<lambda>ret. bindE (Buffer_remove_prefix (np_buffer p) (word_of_nat len))
                   (\<lambda>b. Inr (ret, p\<lparr>np_buffer := b\<rparr>))))"

definition NetParser_u32 :: "net_parser \<Rightarrow> (u32 \<times> net_parser) outcome" where
  "NetParser_u32 p = NetParser_parse_int p"

definition NetParser_u16 :: "net_parser \<Rightarrow> (u16 \<times> net_parser) outcome" where
  "NetParser_u16 p = NetParser_parse_int p"

definition NetParser_u8 :: "net_parser \<Rightarrow> (u8 \<times> net_parser) outcome" where
  "NetParser_u8 p = NetParser_parse_int p"

definition NetParser_remove_prefix :: "net_parser \<Rightarrow> size_t \<Rightarrow> net_parser outcome" where
  "NetParser_remove_prefix p0 n =
     (let p = NetParser_check_size p0 n
      in if NetParser_error p then Inr p
         else bindE (Buffer_remove_prefix (np_buffer p) n) (\<lambda>b. Inr (p\<lparr>np_buffer := b\<rparr>)))"

definition NetUnparser_unparse_int :: "bytes \<Rightarrow> 'a::len word \<Rightarrow> bytes" where
  "NetUnparser_unparse_int s val =
     (let len = LENGTH('a) div 8
      in s @ map (\<lambda>i. ucast (drop_bit ((len - i - 1) * 8) val AND 0xff)) [0..<len])"

definition NetUnparser_u32 :: "bytes \<Rightarrow> u32 \<Rightarrow> bytes" where
  "NetUnparser_u32 s val = NetUnparser_unparse_int s val"

definition NetUnparser_u16 :: "bytes \<Rightarrow> u16 \<Rightarrow> bytes" where
  "NetUnparser_u16 s val = NetUnparser_unparse_int s val"

definition NetUnparser_u8 :: "bytes \<Rightarrow> u8 \<Rightarrow> bytes" where
  "NetUnparser_u8 s val = NetUnparser_unparse_int s val"

section \<open>Big-endian numbers\<close>

definition be_value :: "bytes \<Rightarrow> 'a::len word" where
  "be_value bs = foldl (\<lambda>ret x. push_bit 8 ret + ucast x) 0 bs"

definition be_bytes :: "'a::len word \<Rightarrow> bytes" where
  "be_bytes val = NetUnparser_unparse_int [] val"

lemma length_be_bytes [simp]: "length (be_bytes (v :: 'a::len word)) = LENGTH('a) div 8"
  by (simp add: be_bytes_def NetUnparser_unparse_int_def Let_def)

lemma unparse_int_append: "NetUnparser_unparse_int s v = s @ be_bytes v"
  by (simp add: be_bytes_def NetUnparser_unparse_int_def Let_def)

lemmas unparse_simps = NetUnparser_u32_def NetUnparser_u16_def NetUnparser_u8_def unparse_int_append

lemma and_ff: "(x :: 'a::len word) AND 0xff = take_bit 8 x"
  unfolding take_bit_eq_mask by (simp add: mask_eq_exp_minus_1)

lemma ucast_take_bit_8: "(ucast (take_bit 8 x) :: u8) = ucast (x :: 'a::len word)"
  by (rule bit_word_eqI) (auto simp: bit_ucast_iff bit_take_bit_iff)

lemma ucast_ucast_8: "(ucast (ucast (x :: 'a::len word) :: u8) :: 'a word) = take_bit 8 x"
  by (rule bit_word_eqI) (auto simp: bit_ucast_iff bit_take_bit_iff dest: bit_imp_le_length)

fun be_digits :: "nat \<Rightarrow> 'a::len word \<Rightarrow> bytes" where
  "be_digits 0 v = []"
| "be_digits (Suc k) v = ucast (drop_bit (8 * k) v) # be_digits k v"

lemma be_digits_map: "be_digits k v = map (\<lambda>i. ucast (drop_bit ((k - i - 1) * 8) v)) [0..<k]"
proof (induction k)
  case (Suc k)
  have "[0..<Suc k] = 0 # map Suc [0..<k]"
    by (simp add: map_Suc_upt upt_conv_Cons)
  with Suc show ?case
    by (simp add: mult.commute del: upt_Suc)
qed simp

lemma be_bytes_digits: "be_bytes (v :: 'a::len word) = be_digits (LENGTH('a) div 8) v"
  by (simp add: be_bytes_def NetUnparser_unparse_int_def and_ff ucast_take_bit_8 be_digits_map Let_def)

lemma take_bit_split:
  "push_bit n (take_bit 8 (drop_bit n v)) + take_bit n v = take_bit (n + 8) (v :: 'a::len word)"
  using bits_ident [of n "take_bit (n + 8) v"] by (simp add: drop_bit_take_bit)

lemma foldl_be_digits:
  "foldl (\<lambda>ret x. push_bit 8 ret + ucast x) r (be_digits k v) =
     push_bit (8 * k) r + take_bit (8 * k) (v :: 'a::len word)"
proof (induction k arbitrary: r)
  case (Suc k)
  have "push_bit (8 * k) (push_bit 8 r + take_bit 8 (drop_bit (8 * k) v)) + take_bit (8 * k) v =
      push_bit (8 * Suc k) r + take_bit (8 * Suc k) v"
    using take_bit_split [of "8 * k" v] by (simp add: push_bit_add add.assoc add.commute)
  then show ?case
    by (simp add: Suc ucast_ucast_8)
qed simp

lemma be_value_bytes [simp]:
  assumes "8 dvd LENGTH('a)"
  shows "be_value (be_bytes v) = (v :: 'a::len word)"
  using assms by (simp add: be_value_def be_bytes_digits foldl_be_digits)

lemma be_bytes_8 [simp]: "be_bytes (v :: u8) = [v]"
  by (simp add: be_bytes_digits)

lemma be_value_8 [simp]: "be_value [x] = (x :: u8)"
  by (simp add: be_value_def)

section \<open>The parser on byte strings\<close>

definition parsing :: "net_parser \<Rightarrow> bytes \<Rightarrow> bool" where
  "parsing p bs \<longleftrightarrow> Buffer_wf (np_buffer p) \<and> Buffer_str (np_buffer p) = bs \<and> np_error p = NoError"

definition stuck :: "net_parser \<Rightarrow> bool" where
  "stuck p \<longleftrightarrow> Buffer_wf (np_buffer p) \<and> np_error p = PacketTooShort"

lemma parsing_new [simp]: "Buffer_wf b \<Longrightarrow> parsing (NetParser_new b) (Buffer_str b)"
  by (simp add: parsing_def NetParser_new_def)

lemma parsing_error [simp]:
  "parsing p bs \<Longrightarrow> \<not> NetParser_error p" "parsing p bs \<Longrightarrow> NetParser_get_error p = NoError"
  "stuck p \<Longrightarrow> NetParser_error p" "stuck p \<Longrightarrow> NetParser_get_error p = PacketTooShort"
  by (simp_all add: parsing_def stuck_def NetParser_error_def NetParser_get_error_def)

lemma parse_bytes_value:
  assumes "Buffer_wf b" "i + k \<le> length (Buffer_str b)"
  shows "parse_bytes k i b ret =
    Inr (foldl (\<lambda>ret x. push_bit 8 ret + ucast x) ret (take k (drop i (Buffer_str b))))"
  using assms
proof (induction k arbitrary: i ret)
  case (Suc k)
  have i: "unat (word_of_nat i :: size_t) = i"
    using Suc.prems Buffer_wf_fits [OF Suc.prems(1)] by (intro unat_of_nat_eq) (simp add: fits_def)
  have "drop i (Buffer_str b) = Buffer_str b ! i # drop (Suc i) (Buffer_str b)"
    using Suc.prems by (simp add: Cons_nth_drop_Suc)
  then show ?case
    using Suc i by (simp add: Buffer_at_def word_less_nat_alt)
qed simp

lemma check_size_cases:
  assumes "Buffer_wf (np_buffer p)"
  shows "NetParser_check_size p n =
    (if length (Buffer_str (np_buffer p)) < unat n then p\<lparr>np_error := PacketTooShort\<rparr> else p)"
  using assms by (simp add: NetParser_check_size_def NetParser_set_error_def word_less_nat_alt)

lemma runs_remove_prefix:
  assumes "parsing p bs" "unat n \<le> length bs" "\<And>p'. parsing p' (drop (unat n) bs) \<Longrightarrow> Q p'"
  shows "runs (NetParser_remove_prefix p n) Q"
proof -
  have p: "Buffer_wf (np_buffer p)" "Buffer_str (np_buffer p) = bs" "np_error p = NoError"
    using assms(1) by (auto simp: parsing_def)
  then obtain b where "Buffer_remove_prefix (np_buffer p) n = Inr b" "Buffer_wf b"
    "Buffer_str b = drop (unat n) bs"
    using Buffer_remove_prefix_ok assms(2) by metis
  then show ?thesis
    using p assms by (simp add: NetParser_remove_prefix_def check_size_cases parsing_def Let_def)
qed

lemma runs_parse_int:
  assumes "parsing p bs" "LENGTH('a) div 8 \<le> length bs"
    and "\<And>p'. parsing p' (drop (LENGTH('a) div 8) bs) \<Longrightarrow> Q (be_value (take (LENGTH('a) div 8) bs), p')"
  shows "runs (NetParser_parse_int p) (Q :: 'a::len word \<times> net_parser \<Rightarrow> bool)"
proof -
  let ?n = "LENGTH('a) div 8"
  have p: "Buffer_wf (np_buffer p)" "Buffer_str (np_buffer p) = bs" "np_error p = NoError"
    using assms(1) by (auto simp: parsing_def)
  have n: "unat (word_of_nat ?n :: size_t) = ?n"
    using assms(2) p Buffer_wf_fits [OF p(1)] by (intro unat_of_nat_eq) (simp add: fits_def)
  then obtain b where b: "Buffer_remove_prefix (np_buffer p) (word_of_nat ?n) = Inr b" "Buffer_wf b"
    "Buffer_str b = drop ?n bs"
    using Buffer_remove_prefix_ok [OF p(1), of "word_of_nat ?n"] p(2) assms(2) by metis
  have "parse_bytes ?n 0 (np_buffer p) 0 = Inr (be_value (take ?n bs) :: 'a word)"
    using parse_bytes_value [OF p(1), of 0 ?n "0 :: 'a word"] p assms(2) by (simp add: be_value_def)
  then show ?thesis
    using p n b assms by (simp add: NetParser_parse_int_def check_size_cases parsing_def Let_def)
qed

lemma runs_parse_int_stuck:
  assumes "stuck p \<or> parsing p bs \<and> length bs < LENGTH('a) div 8" "LENGTH('a) < 2 ^ 64"
    and "\<And>p'. stuck p' \<Longrightarrow> Q (0, p')"
  shows "runs (NetParser_parse_int p) (Q :: 'a::len word \<times> net_parser \<Rightarrow> bool)"
proof -
  have "unat (word_of_nat (LENGTH('a) div 8) :: size_t) = LENGTH('a) div 8"
    using assms(2) by (intro unat_of_nat_eq) simp
  then show ?thesis
    using assms(1,3)
    by (auto simp: NetParser_parse_int_def check_size_cases parsing_def stuck_def Let_def
        NetParser_error_def NetParser_get_error_def)
qed

lemma runs_remove_prefix_stuck:
  assumes "stuck p \<or> parsing p bs \<and> length bs < unat n" "\<And>p'. stuck p' \<Longrightarrow> Q p'"
  shows "runs (NetParser_remove_prefix p n) Q"
  using assms
  by (auto simp: NetParser_remove_prefix_def check_size_cases parsing_def stuck_def Let_def
      NetParser_error_def NetParser_get_error_def)

text \<open>One pair of rules per integer width: enough bytes, or not enough (or already failed).\<close>

lemma runs_u32:
  "parsing p bs \<Longrightarrow> 4 \<le> length bs \<Longrightarrow>
   (\<And>p'. parsing p' (drop 4 bs) \<Longrightarrow> Q (be_value (take 4 bs), p')) \<Longrightarrow> runs (NetParser_u32 p) Q"
  using runs_parse_int [where ?'a = 32] by (auto simp: NetParser_u32_def)

lemma runs_u16:
  "parsing p bs \<Longrightarrow> 2 \<le> length bs \<Longrightarrow>
   (\<And>p'. parsing p' (drop 2 bs) \<Longrightarrow> Q (be_value (take 2 bs), p')) \<Longrightarrow> runs (NetParser_u16 p) Q"
  using runs_parse_int [where ?'a = 16] by (auto simp: NetParser_u16_def)

lemma runs_u8:
  "parsing p bs \<Longrightarrow> 1 \<le> length bs \<Longrightarrow>
   (\<And>p'. parsing p' (drop 1 bs) \<Longrightarrow> Q (hd bs, p')) \<Longrightarrow> runs (NetParser_u8 p) Q"
  using runs_parse_int [where ?'a = 8, of p bs Q] by (cases bs) (auto simp: NetParser_u8_def)

lemma runs_u32_stuck:
  "stuck p \<or> parsing p bs \<and> length bs < 4 \<Longrightarrow> (\<And>p'. stuck p' \<Longrightarrow> Q (0, p')) \<Longrightarrow> runs (NetParser_u32 p) Q"
  using runs_parse_int_stuck [where ?'a = 32] by (auto simp: NetParser_u32_def)

lemma runs_u16_stuck:
  "stuck p \<or> parsing p bs \<and> length bs < 2 \<Longrightarrow> (\<And>p'. stuck p' \<Longrightarrow> Q (0, p')) \<Longrightarrow> runs (NetParser_u16 p) Q"
  using runs_parse_int_stuck [where ?'a = 16] by (auto simp: NetParser_u16_def)

lemma runs_u8_stuck:
  "stuck p \<or> parsing p bs \<and> length bs < 1 \<Longrightarrow> (\<And>p'. stuck p' \<Longrightarrow> Q (0, p')) \<Longrightarrow> runs (NetParser_u8 p) Q"
  using runs_parse_int_stuck [where ?'a = 8] by (auto simp: NetParser_u8_def)

lemmas runs_stuck = runs_u32_stuck runs_u16_stuck runs_u8_stuck runs_remove_prefix_stuck

text \<open>
  \<open>progress p bs n\<close>: the parser was started on \<open>bs\<close> and asked for \<open>n\<close> bytes so far; either they
  were there and it stands behind them, or it has run out and carries the error.  The rules
  below follow a parser through a header without knowing how long the input is.
\<close>

definition progress :: "net_parser \<Rightarrow> bytes \<Rightarrow> nat \<Rightarrow> bool" where
  "progress p bs n \<longleftrightarrow> (if n \<le> length bs then parsing p (drop n bs) else stuck p)"

definition slice :: "nat \<Rightarrow> nat \<Rightarrow> bytes \<Rightarrow> 'a::len word" where
  "slice i k bs = be_value (take k (drop i bs))"

lemma progress_new [simp]: "Buffer_wf b \<Longrightarrow> progress (NetParser_new b) (Buffer_str b) 0"
  by (simp add: progress_def)

lemma progress_error:
  "progress p bs n \<Longrightarrow> NetParser_error p \<longleftrightarrow> length bs < n"
  "progress p bs n \<Longrightarrow> NetParser_get_error p = (if length bs < n then PacketTooShort else NoError)"
  by (auto simp: progress_def split: if_splits)

lemma progress_buffer:
  "progress p bs n \<Longrightarrow> Buffer_wf (np_buffer p)"
  "progress p bs n \<Longrightarrow> n \<le> length bs \<Longrightarrow> Buffer_str (np_buffer p) = drop n bs"
  by (auto simp: progress_def parsing_def stuck_def split: if_splits)

lemma progress_u32 [runs_rules]:
  assumes "progress p bs n"
    and "\<And>v p'. progress p' bs (n + 4) \<Longrightarrow> (n + 4 \<le> length bs \<Longrightarrow> v = slice n 4 bs) \<Longrightarrow> Q (v, p')"
  shows "runs (NetParser_u32 p) Q"
proof (cases "n + 4 \<le> length bs")
  case True
  then show ?thesis
    using assms by (intro runs_u32 [of p "drop n bs"]) (auto simp: progress_def slice_def add.commute)
next
  case False
  then show ?thesis
    using assms by (intro runs_u32_stuck [of p "drop n bs"]) (auto simp: progress_def split: if_splits)
qed

lemma progress_u16 [runs_rules]:
  assumes "progress p bs n"
    and "\<And>v p'. progress p' bs (n + 2) \<Longrightarrow> (n + 2 \<le> length bs \<Longrightarrow> v = slice n 2 bs) \<Longrightarrow> Q (v, p')"
  shows "runs (NetParser_u16 p) Q"
proof (cases "n + 2 \<le> length bs")
  case True
  then show ?thesis
    using assms by (intro runs_u16 [of p "drop n bs"]) (auto simp: progress_def slice_def add.commute)
next
  case False
  then show ?thesis
    using assms by (intro runs_u16_stuck [of p "drop n bs"]) (auto simp: progress_def split: if_splits)
qed

lemma progress_u8 [runs_rules]:
  assumes "progress p bs n"
    and "\<And>v p'. progress p' bs (n + 1) \<Longrightarrow> (n + 1 \<le> length bs \<Longrightarrow> v = bs ! n) \<Longrightarrow> Q (v, p')"
  shows "runs (NetParser_u8 p) Q"
proof (cases "n + 1 \<le> length bs")
  case True
  then show ?thesis
    using assms by (intro runs_u8 [of p "drop n bs"]) (auto simp: progress_def hd_drop_conv_nth)
next
  case False
  then show ?thesis
    using assms by (intro runs_u8_stuck [of p "drop n bs"]) (auto simp: progress_def split: if_splits)
qed

lemma progress_remove_prefix [runs_rules]:
  assumes "progress p bs n" "\<And>p'. progress p' bs (n + unat k) \<Longrightarrow> Q p'"
  shows "runs (NetParser_remove_prefix p k) Q"
proof (cases "n + unat k \<le> length bs")
  case True
  then show ?thesis
    using assms by (intro runs_remove_prefix [of p "drop n bs"]) (auto simp: progress_def add.commute)
next
  case False
  then show ?thesis
    using assms by (intro runs_remove_prefix_stuck [of p "drop n bs"]) (auto simp: progress_def split: if_splits)
qed

lemma slice_be_bytes:
  "length xs = i \<Longrightarrow> k = LENGTH('a) div 8 \<Longrightarrow> 8 dvd LENGTH('a) \<Longrightarrow>
   slice i k (xs @ be_bytes (v :: 'a::len word) @ ys) = v"
  by (simp add: slice_def)

section \<open>Wire formats\<close>

text \<open>
  The contract of a pair of methods \<^verbatim>\<open>serialize\<close> and \<^verbatim>\<open>parse\<close>: a valid object is serialized without
  an exception, and parsing any buffer that holds the bytes gives no error and the same object,
  up to what the format recomputes.  \<open>on_the_wire\<close> and \<open>in_one_buffer\<close> are what the users of a
  format need: the bytes may be sent and read back as one string, or be handed over as the
  payload of an outer packet.
\<close>

locale wire_format =
  fixes serialize :: "'a \<Rightarrow> buffer_list outcome" and parse :: "buffer \<Rightarrow> (parse_result \<times> 'a) outcome"
    and valid :: "'a \<Rightarrow> bool" and same :: "'a \<Rightarrow> 'a \<Rightarrow> bool"
  assumes accepts: "valid x \<Longrightarrow> runs (serialize x) (\<lambda>bl. fits (BufferList_concatenate bl) \<and>
    (\<forall>b. Buffer_wf b \<longrightarrow> Buffer_str b = BufferList_concatenate bl \<longrightarrow>
      runs (parse b) (\<lambda>(res, y). res = NoError \<and> same x y)))"
begin

lemma serializes:
  assumes "valid x"
  obtains bl where "serialize x = Inr bl" "fits (BufferList_concatenate bl)"
  using accepts [OF assms] by (auto simp: runs_def)

lemma on_the_wire:
  assumes "valid x"
  shows "runs (serialize x) (\<lambda>bl. runs (parse (Buffer_new (BufferList_concatenate bl))) (\<lambda>(res, y).
    res = NoError \<and> same x y))"
  by (rule runs_mono [OF accepts [OF assms]]) simp

lemma in_one_buffer:
  assumes "valid x" "serialize x = Inr bl" "Buffer_wf b" "Buffer_str b = BufferList_concatenate bl"
  shows "runs (parse b) (\<lambda>(res, y). res = NoError \<and> same x y)"
  using accepts [OF assms(1)] assms(2-4) by simp

end

section \<open>Properties\<close>

text \<open>
  Parsing undoes unparsing at each width: from a buffer that starts with a number in
  network byte order the parser returns that number, keeps no error and leaves exactly the
  bytes after it.
\<close>

theorem NetParser_unparse_roundtrip:
  assumes "fits (NetUnparser_u8 (NetUnparser_u16 (NetUnparser_u32 [] a) b) c @ rest)"
  shows "runs (NetParser_u32 (NetParser_new (Buffer_new
            (NetUnparser_u8 (NetUnparser_u16 (NetUnparser_u32 [] a) b) c @ rest))))
    (\<lambda>(a', p). a' = a \<and> runs (NetParser_u16 p) (\<lambda>(b', p). b' = b \<and> runs (NetParser_u8 p)
       (\<lambda>(c', p). c' = c \<and> Buffer_str (np_buffer p) = rest \<and> \<not> NetParser_error p)))"
proof -
  let ?s = "NetUnparser_u8 (NetUnparser_u16 (NetUnparser_u32 [] a) b) c @ rest"
  have "parsing (NetParser_new (Buffer_new ?s)) (be_bytes a @ be_bytes b @ c # rest)"
    using assms parsing_new [of "Buffer_new ?s"] by (simp add: unparse_simps)
  then show ?thesis
    by (elim runs_u32) (auto intro!: runs_u16 runs_u8 simp: parsing_def NetParser_error_def NetParser_get_error_def)
qed

theorem NetParser_unparse_roundtrip_witness:
  "runs (NetParser_u32 (NetParser_new (Buffer_new
            (NetUnparser_u8 (NetUnparser_u16 (NetUnparser_u32 [] 0x01020304) 0x0506) 7 @ [8]))))
    (\<lambda>(a', p). a' = 0x01020304 \<and> runs (NetParser_u16 p) (\<lambda>(b', p). b' = 0x0506 \<and> runs (NetParser_u8 p)
       (\<lambda>(c', p). c' = 7 \<and> Buffer_str (np_buffer p) = [8] \<and> \<not> NetParser_error p)))"
  by (rule NetParser_unparse_roundtrip) (simp add: fits_def unparse_simps)

text \<open>
  \<^verbatim>\<open>as_string\<close> has no name for \<^verbatim>\<open>ParseResult::Unsupported\<close>: it indexes the array of
  names one past its end for that value, and only for that value.
\<close>

theorem as_string_Unsupported: "returns (as_string r) \<longleftrightarrow> r \<noteq> Unsupported"
  by (cases r) (simp_all add: as_string_def)

end
