(* ===== verification/Internet_Checksum.thy ===== *)
theory Internet_Checksum
  imports Net_Parser
begin

text \<open>
  \<^verbatim>\<open>InternetChecksum\<close> of \<^verbatim>\<open>libsponge/util/util.{hh,cc}\<close>: the one's-complement sum of 16-bit
  words, fed byte by byte.  Its value is put in closed form (a sum modulo 65535), from which
  it follows that inserting the computed checksum makes the check of the receiver succeed.
\<close>

section \<open>State and operations\<close>

record internet_checksum =
  ck_sum :: u32
  ck_parity :: bool

definition InternetChecksum_new :: "u32 \<Rightarrow> internet_checksum" where
  "InternetChecksum_new initial_sum = \<lparr>ck_sum = initial_sum, ck_parity = False\<rparr>"

definition InternetChecksum_add_byte :: "internet_checksum \<Rightarrow> u8 \<Rightarrow> internet_checksum" where
  "InternetChecksum_add_byte c x =
     (let val = (if \<not> ck_parity c then push_bit 8 (ucast x :: u16) else ucast x)
      in c\<lparr>ck_sum := ck_sum c + ucast val, ck_parity := \<not> ck_parity c\<rparr>)"

definition InternetChecksum_add :: "internet_checksum \<Rightarrow> bytes \<Rightarrow> internet_checksum" where
  "InternetChecksum_add c data = foldl InternetChecksum_add_byte c data"

text \<open>The loop of \<^verbatim>\<open>value\<close>.\<close>

lemma fold_step_less:
  assumes "0xffff < (ret :: u32)"
  shows "unat (drop_bit 16 ret + (ret AND 0xffff)) = unat ret div 65536 + unat ret mod 65536"
    and "unat ret div 65536 + unat ret mod 65536 < unat ret"
proof -
  have mask: "ret AND 0xffff = take_bit 16 ret"
    unfolding take_bit_eq_mask by (simp add: mask_eq_exp_minus_1)
  have parts: "unat (drop_bit 16 ret) = unat ret div 65536" "unat (take_bit 16 ret) = unat ret mod 65536"
    by (simp_all add: drop_bit_eq_div take_bit_eq_mod unat_div_distrib unat_mod_distrib)
  have "unat ret < 2 ^ 32"
    using unsigned_less [of ret, where ?'a = nat] by simp
  then have "unat ret div 65536 < 65536"
    by (simp add: less_mult_imp_div_less)
  then show "unat (drop_bit 16 ret + (ret AND 0xffff)) = unat ret div 65536 + unat ret mod 65536"
    using mod_less_divisor [of 65536 "unat ret"]
    by (subst unat_add_nowrap) (simp_all add: mask parts)
  have "65536 \<le> unat ret"
    using assms by (simp add: word_less_nat_alt)
  then have "1 \<le> unat ret div 65536"
    by (simp add: div_greater_zero_iff Suc_le_eq)
  then show "unat ret div 65536 + unat ret mod 65536 < unat ret"
    using div_mult_mod_eq [of "unat ret" 65536] by linarith
qed

function InternetChecksum_fold :: "u32 \<Rightarrow> u32" where
  "InternetChecksum_fold ret =
     (if ret > 0xffff then InternetChecksum_fold (drop_bit 16 ret + (ret AND 0xffff)) else ret)"
  by pat_completeness auto
termination
  by (relation "measure unat") (simp_all add: fold_step_less)

declare InternetChecksum_fold.simps [simp del]

definition InternetChecksum_value :: "internet_checksum \<Rightarrow> u16" where
  "InternetChecksum_value c = ucast (NOT (InternetChecksum_fold (ck_sum c)))"

section \<open>One's-complement sums\<close>

text \<open>The sum of the 16-bit words of a byte string, starting at an even or odd position.\<close>

fun word_sum :: "bool \<Rightarrow> bytes \<Rightarrow> nat" where
  "word_sum par [] = 0"
| "word_sum par (x # xs) = (if par then unat x else 256 * unat x) + word_sum (\<not> par) xs"

text \<open>The representative of \<open>n\<close> modulo 65535 that is zero only for zero.\<close>

definition ones_complement :: "nat \<Rightarrow> nat" where
  "ones_complement n = (if n = 0 then 0 else (n - 1) mod 65535 + 1)"

lemma ones_complement_le: "ones_complement n \<le> 65535"
  using mod_less_divisor [of 65535 "n - 1"] by (simp add: ones_complement_def) linarith

lemma ones_complement_small: "n \<le> 65535 \<Longrightarrow> ones_complement n = n"
  by (simp add: ones_complement_def)

lemma ones_complement_fold: "0 < n \<Longrightarrow> ones_complement (n div 65536 + n mod 65536) = ones_complement n"
proof -
  assume n: "0 < n"
  define q m where "q = n div 65536" and "m = n mod 65536"
  have eq: "n = 65536 * q + m"
    by (simp add: q_def m_def)
  have pos: "0 < q + m"
    using n eq by auto
  have "n - 1 = 65535 * q + (q + m - 1)"
    using eq pos by simp
  then have "(n - 1) mod 65535 = (q + m - 1) mod 65535"
    by simp
  then show ?thesis
    using n pos by (simp add: ones_complement_def flip: q_def m_def)
qed

lemma ones_complement_zero_sum:
  "ones_complement (n + (65535 - ones_complement n)) = 65535"
proof (cases "n = 0")
  case False
  define k where "k = n - 1"
  have n: "n = Suc k"
    using False by (simp add: k_def)
  have "k mod 65535 \<le> 65534"
    using mod_less_divisor [of 65535 k] by linarith
  then have "k + (65534 - k mod 65535) = 65535 * (k div 65535) + 65534"
    using div_mult_mod_eq [of k 65535] by linarith
  then show ?thesis
    by (simp add: ones_complement_def n)
qed (simp add: ones_complement_def)

lemma InternetChecksum_fold_eq: "unat (InternetChecksum_fold ret) = ones_complement (unat ret)"
proof (induction ret rule: InternetChecksum_fold.induct)
  case (1 ret)
  show ?case
  proof (cases "ret > 0xffff")
    case True
    then have "0 < unat ret"
      by (simp add: word_less_nat_alt)
    then show ?thesis
      using 1 True fold_step_less(1) [OF True] ones_complement_fold
      by (simp add: InternetChecksum_fold.simps [of ret])
  next
    case False
    then have "unat ret \<le> 65535"
      by (simp add: word_less_nat_alt)
    then show ?thesis
      using False by (simp add: InternetChecksum_fold.simps [of ret] ones_complement_small)
  qed
qed

lemma unat_ucast_NOT:
  assumes "unat (r :: u32) \<le> 65535"
  shows "unat (ucast (NOT r) :: u16) = 65535 - unat r"
proof -
  have "(ucast (NOT r) :: u16) = NOT (ucast r)"
    by (rule bit_word_eqI) (simp add: bit_ucast_iff bit_not_iff)
  also have "\<dots> = - 1 - ucast r"
    by (simp add: not_eq_complement)
  finally have "unat (ucast (NOT r) :: u16) = unat (- 1 - ucast r :: u16)"
    by simp
  also have "\<dots> = unat (- 1 :: u16) - unat (ucast r :: u16)"
    by (rule unat_sub_nowrap) (simp add: word_less_eq_iff_unsigned [symmetric] flip: word_le_nat_alt)
  also have "unat (ucast r :: u16) = unat r"
    using assms by (simp add: unsigned_ucast_eq take_bit_nat_eq_self)
  finally show ?thesis by (simp add: unsigned_minus_1_eq_mask mask_eq_exp_minus_1)
qed

lemma InternetChecksum_value_eq:
  "unat (InternetChecksum_value c) = 65535 - ones_complement (unat (ck_sum c))"
  by (simp add: InternetChecksum_value_def unat_ucast_NOT InternetChecksum_fold_eq ones_complement_le)

lemma unat_byte_val:
  "unat (ucast (if \<not> par then push_bit 8 (ucast x :: u16) else ucast x) :: u32) =
     (if par then unat (x :: u8) else 256 * unat x)"
proof -
  have x: "unat x < 256"
    using unsigned_less [of x, where ?'a = nat] by simp
  have "unat (ucast x :: u16) = unat x"
    using x by (simp add: unsigned_ucast_eq take_bit_nat_eq_self)
  then have "unat (push_bit 8 (ucast x :: u16)) = 256 * unat x"
    using x by (simp add: push_bit_eq_mult unat_mult_lem [symmetric] unat_word_ariths)
  with \<open>unat (ucast x :: u16) = unat x\<close> x show ?thesis
    by (simp add: unsigned_ucast_eq take_bit_nat_eq_self)
qed

lemma word_sum_le: "word_sum par xs \<le> 65280 * length xs"
proof (induction xs arbitrary: par)
  case (Cons x xs)
  have "unat x \<le> 255"
    using unsigned_less [of x, where ?'a = nat] by simp
  then show ?case using Cons [of True] Cons [of False] by (cases par) simp_all
qed simp

lemma word_sum_append:
  "word_sum par (xs @ ys) = word_sum par xs + word_sum (par \<noteq> odd (length xs)) ys"
proof (induction xs arbitrary: par)
  case (Cons x xs)
  show ?case by (cases "odd (length xs)"; cases par) (simp_all add: Cons)
qed simp

lemma InternetChecksum_add_sum:
  assumes "unat (ck_sum c) + word_sum (ck_parity c) data < 2 ^ 32"
  shows "unat (ck_sum (InternetChecksum_add c data)) = unat (ck_sum c) + word_sum (ck_parity c) data"
  using assms
proof (induction data arbitrary: c)
  case (Cons x data)
  define c' where "c' = InternetChecksum_add_byte c x"
  have c': "ck_parity c' = (\<not> ck_parity c)"
    "unat (ck_sum c') = unat (ck_sum c) + (if ck_parity c then unat x else 256 * unat x)"
    using Cons.prems unat_byte_val [of "ck_parity c" x]
    by (auto simp: c'_def InternetChecksum_add_byte_def Let_def unat_add_nowrap)
  then have "unat (ck_sum (InternetChecksum_add c' data)) = unat (ck_sum c') + word_sum (ck_parity c') data"
    using Cons.prems by (intro Cons.IH) simp
  then show ?case
    using c' by (simp add: InternetChecksum_add_def c'_def)
qed (simp add: InternetChecksum_add_def)

lemma InternetChecksum_add_append:
  "InternetChecksum_add (InternetChecksum_add c xs) ys = InternetChecksum_add c (xs @ ys)"
  by (simp add: InternetChecksum_add_def)

text \<open>The checksum of a byte string small enough that the 32-bit sum cannot overflow.\<close>

definition summable :: "u32 \<Rightarrow> nat \<Rightarrow> bool" where
  "summable initial n \<longleftrightarrow> unat initial + 65280 * n < 2 ^ 32"

lemma InternetChecksum_closed_form:
  assumes "summable initial (length data)"
  shows "unat (InternetChecksum_value (InternetChecksum_add (InternetChecksum_new initial) data)) =
    65535 - ones_complement (unat initial + word_sum False data)"
  using assms word_sum_le [of False data] InternetChecksum_add_sum [of "InternetChecksum_new initial" data]
  by (simp add: InternetChecksum_value_eq summable_def InternetChecksum_new_def)

lemma be_bytes_16: "be_bytes (c :: u16) = [ucast (drop_bit 8 c), ucast c]"
  by (simp add: be_bytes_digits numeral_2_eq_2)

lemma word_sum_be_bytes: "word_sum False (be_bytes (c :: u16)) = unat c"
proof -
  have "unat c < 65536"
    using unsigned_less [of c, where ?'a = nat] by simp
  then have "unat (ucast (drop_bit 8 c) :: u8) = unat c div 256"
    by (simp add: unsigned_ucast_eq drop_bit_eq_div take_bit_eq_mod unat_div_distrib unat_mod_distrib
        less_mult_imp_div_less)
  moreover have "unat (ucast c :: u8) = unat c mod 256"
    by (simp add: unsigned_ucast_eq take_bit_eq_mod unat_mod_distrib)
  ultimately show ?thesis
    by (simp add: be_bytes_16)
qed

lemma InternetChecksum_insert:
  assumes "summable initial (length xs + 2 + length ys)" "even (length xs)"
    and "c = InternetChecksum_value (InternetChecksum_add (InternetChecksum_new initial) (xs @ [0, 0] @ ys))"
  shows "InternetChecksum_value
    (InternetChecksum_add (InternetChecksum_new initial) (xs @ be_bytes c @ ys)) = 0"
proof -
  let ?n = "unat initial + (word_sum False xs + word_sum False ys)"
  have c: "unat c = 65535 - ones_complement ?n"
    using assms by (simp add: InternetChecksum_closed_form word_sum_append)
  have "unat initial + word_sum False (xs @ be_bytes c @ ys) = ?n + unat c"
    using assms(2) by (simp add: word_sum_append word_sum_be_bytes)
  then have "unat (InternetChecksum_value
      (InternetChecksum_add (InternetChecksum_new initial) (xs @ be_bytes c @ ys))) =
      65535 - ones_complement (?n + unat c)"
    using assms(1) by (subst InternetChecksum_closed_form) (simp_all add: ac_simps)
  also have "\<dots> = 0"
    unfolding c ones_complement_zero_sum by simp
  finally show ?thesis
    by (simp only: unat_eq_0)
qed

section \<open>Properties\<close>

text \<open>
  C26. The byte-at-a-time computation with end-around carries is the one's-complement
  checksum: for data short enough that the 32-bit sum does not overflow (65,535 bytes and a
  24-bit initial sum are), the value is the complement of the sum of the 16-bit words, padded
  with a zero byte, reduced modulo 65535; and the data may be added in pieces.
\<close>

theorem InternetChecksum_ones_complement:
  assumes "unat initial + 65280 * (length xs + length ys) < 2 ^ 32"
  shows "unat (InternetChecksum_value
      (InternetChecksum_add (InternetChecksum_add (InternetChecksum_new initial) xs) ys)) =
    65535 - ones_complement (unat initial + word_sum False (xs @ ys))"
  using assms by (simp add: InternetChecksum_add_append InternetChecksum_closed_form summable_def)

theorem InternetChecksum_ones_complement_witness:
  "unat (InternetChecksum_value
      (InternetChecksum_add (InternetChecksum_add (InternetChecksum_new 0) [0xff, 0xff, 0]) [1, 2])) =
    65535 - ones_complement (65535 + 1 + 512)"
  using InternetChecksum_ones_complement [of 0 "[0xff, 0xff, 0]" "[1, 2]"] by simp

text \<open>
  Computing the checksum with a zero checksum field at an even offset and then storing it
  in the field makes the same computation return zero, which is what a receiver tests.
\<close>

theorem InternetChecksum_verifies:
  assumes "unat initial + 65280 * (length xs + 2 + length ys) < 2 ^ 32" "even (length xs)"
    and "c = InternetChecksum_value (InternetChecksum_add (InternetChecksum_new initial) (xs @ [0, 0] @ ys))"
  shows "InternetChecksum_value
    (InternetChecksum_add (InternetChecksum_new initial) (xs @ NetUnparser_u16 [] c @ ys)) = 0"
  using InternetChecksum_insert [of initial xs ys c] assms by (simp add: unparse_simps summable_def)

theorem InternetChecksum_verifies_witness:
  "InternetChecksum_value (InternetChecksum_add (InternetChecksum_new 5) ([1, 2] @
     NetUnparser_u16 [] (InternetChecksum_value
       (InternetChecksum_add (InternetChecksum_new 5) ([1, 2] @ [0, 0] @ [9, 8, 7]))) @ [9, 8, 7])) = 0"
  by (rule InternetChecksum_verifies) simp_all

end
