(* ===== verification/Wrapping_Integers.thy ===== *)
theory Wrapping_Integers
  imports Sponge_Prelude
begin

text \<open>
  \<^verbatim>\<open>libsponge/wrapping_integers.{hh,cc}\<close>: 32-bit sequence numbers relative to an initial
  sequence number, and the conversion to and from 64-bit absolute sequence numbers.
\<close>

section \<open>Definitions\<close>

datatype wrapping_int32 = WrappingInt32 (raw_value: u32)

definition two_32 :: u64 where
  "two_32 = push_bit 31 2"

definition wrap :: "u64 \<Rightarrow> wrapping_int32 \<Rightarrow> wrapping_int32" where
  "wrap n isn = WrappingInt32 (ucast ((ucast (raw_value isn) + n) mod two_32))"

definition unwrap :: "wrapping_int32 \<Rightarrow> wrapping_int32 \<Rightarrow> u64 \<Rightarrow> u64" where
  "unwrap n isn checkpoint =
     (let absolute_seqno_mod =
            (if raw_value n < raw_value isn then ucast (raw_value n) + two_32
             else ucast (raw_value n)) - ucast (raw_value isn);
          checkpoint_quotient = checkpoint div two_32;
          absolute_seqno_candidate = absolute_seqno_mod + checkpoint_quotient * two_32
      in if checkpoint_quotient \<ge> 1 \<and>
            checkpoint - (absolute_seqno_candidate - two_32) < two_32 div 2
         then absolute_seqno_candidate - two_32
         else if (absolute_seqno_candidate + two_32) - checkpoint < two_32 div 2
         then absolute_seqno_candidate + two_32
         else absolute_seqno_candidate)"

definition wrapping_diff :: "wrapping_int32 \<Rightarrow> wrapping_int32 \<Rightarrow> int" where
  "wrapping_diff a b = sint (raw_value a - raw_value b)"

definition wrapping_add :: "wrapping_int32 \<Rightarrow> u32 \<Rightarrow> wrapping_int32" where
  "wrapping_add a b = WrappingInt32 (raw_value a + b)"

definition wrapping_sub :: "wrapping_int32 \<Rightarrow> u32 \<Rightarrow> wrapping_int32" where
  "wrapping_sub a b = wrapping_add a (- b)"

section \<open>Truncation is a ring homomorphism\<close>

lemma take_bit_32_64: "take_bit 32 (take_bit 64 a) = take_bit 32 (a :: int)"
  by simp

lemma ucast_64_32_add: "(ucast (a + b :: u64) :: u32) = ucast a + ucast b"
  by transfer (simp, metis take_bit_add take_bit_32_64)

lemma ucast_64_32_diff: "(ucast (a - b :: u64) :: u32) = ucast a - ucast b"
  by transfer (simp, metis take_bit_diff take_bit_32_64)

lemma ucast_64_32_mult: "(ucast (a * b :: u64) :: u32) = ucast a * ucast b"
  by transfer (simp, metis take_bit_mult take_bit_32_64)

lemma ucast_32_64_32 [simp]: "(ucast (ucast (a :: u32) :: u64) :: u32) = a"
  by transfer simp

lemma two_32_val: "two_32 = 4294967296"
  by (simp add: two_32_def)

lemma unat_two_32: "unat two_32 = 2 ^ 32"
  by (simp add: two_32_val)

lemma ucast_two_32: "(ucast two_32 :: u32) = 0"
  by (simp add: two_32_val)

lemma ucast_mod_two_32: "(ucast (x mod two_32) :: u32) = ucast x"
proof -
  have "x = (x div two_32) * two_32 + x mod two_32"
    by (rule div_mult_mod_eq [symmetric])
  then have "(ucast x :: u32) = ucast ((x div two_32) * two_32 + x mod two_32)"
    by simp
  then show ?thesis
    by (simp only: ucast_64_32_add ucast_64_32_mult ucast_two_32) simp
qed

lemma wrap_eq: "wrap n isn = WrappingInt32 (raw_value isn + ucast n)"
  by (simp add: wrap_def ucast_mod_two_32 ucast_64_32_add)

lemma wrap_add: "wrap (a + b) isn = wrapping_add (wrap a isn) (ucast b)"
  by (simp add: wrap_eq wrapping_add_def ucast_64_32_add add.assoc)

lemma raw_value_wrap [simp]: "raw_value (wrap n isn) = raw_value isn + ucast n"
  by (simp add: wrap_eq)


section \<open>\<open>unwrap\<close> on natural numbers\<close>

definition seqno_offset :: "wrapping_int32 \<Rightarrow> wrapping_int32 \<Rightarrow> nat" where
  "seqno_offset n isn = unat (raw_value n - raw_value isn)"

lemma seqno_offset_less: "seqno_offset n isn < 2 ^ 32"
  using unsigned_less [of "raw_value n - raw_value isn", where ?'a = nat]
  by (simp add: seqno_offset_def)

lemma absolute_seqno_mod_eq:
  "(if raw_value n < raw_value isn then ucast (raw_value n) + two_32
    else ucast (raw_value n)) - ucast (raw_value isn) = (word_of_nat (seqno_offset n isn) :: u64)"
proof -
  let ?a = "raw_value n" and ?b = "raw_value isn"
  have ab: "unat ?a < 2 ^ 32" "unat ?b < 2 ^ 32"
    using unsigned_less [of ?a, where ?'a = nat] unsigned_less [of ?b, where ?'a = nat] by simp_all
  have c: "unat (ucast ?a :: u64) = unat ?a" "unat (ucast ?b :: u64) = unat ?b"
    using ab by (simp_all add: unsigned_ucast_eq take_bit_nat_eq_self)
  have "unat ((if ?a < ?b then ucast ?a + two_32 else ucast ?a) - ucast ?b :: u64) =
      seqno_offset n isn"
    using ab c
    by (auto simp: seqno_offset_def word_less_nat_alt unat_sub_if' unat_plus_if' unat_two_32)
  then show ?thesis
    by (metis of_nat_unat ucast_id)
qed

lemma unat_unwrap:
  fixes n isn :: wrapping_int32 and checkpoint :: u64
  defines "c \<equiv> seqno_offset n isn + unat checkpoint div 2 ^ 32 * 2 ^ 32"
  assumes top: "unat checkpoint < 2 ^ 64 - 2 ^ 32"
  shows "unat (unwrap n isn checkpoint) =
    (if 2 ^ 32 \<le> unat checkpoint \<and> unat checkpoint + 2 ^ 32 < c + 2 ^ 31 then c - 2 ^ 32
     else if c + 2 ^ 32 < unat checkpoint + 2 ^ 31 then c + 2 ^ 32 else c)"
proof -
  let ?m = "word_of_nat (seqno_offset n isn) :: u64" and ?q = "checkpoint div two_32"
  let ?cand = "?m + ?q * two_32"
  have m: "unat ?m = seqno_offset n isn"
    using seqno_offset_less [of n isn] by (simp add: unat_of_nat)
  have q: "unat ?q = unat checkpoint div 2 ^ 32"
    by (simp add: unat_div unat_two_32)
  have qle: "unat checkpoint div 2 ^ 32 * 2 ^ 32 \<le> unat checkpoint"
    by (rule div_times_less_eq_dividend)
  have "unat ?q * unat two_32 < 2 ^ LENGTH(64)"
    using qle top unfolding q unat_two_32 by simp
  then have "unat (?q * two_32) = unat ?q * unat two_32"
    by (simp only: unat_mult_lem)
  then have qt: "unat (?q * two_32) = unat checkpoint div 2 ^ 32 * 2 ^ 32"
    unfolding q unat_two_32 .
  have "unat checkpoint div 2 ^ 32 < 2 ^ 32 - 1"
    using top by (simp add: less_mult_imp_div_less)
  then have bound: "c + 2 ^ 32 < 2 ^ 64"
    using seqno_offset_less [of n isn] unfolding c_def by simp
  have cand: "unat ?cand = c"
    using bound unfolding c_def by (simp add: unat_add_nowrap m qt)
  have up: "unat (?cand + two_32) = c + 2 ^ 32"
    using bound cand by (simp add: unat_add_nowrap unat_two_32)
  have q1: "1 \<le> ?q \<longleftrightarrow> 2 ^ 32 \<le> unat checkpoint"
    by (auto simp: word_le_nat_alt q) 
  have "unat checkpoint < (unat checkpoint div 2 ^ 32 + 1) * 2 ^ 32"
    by (simp add: dividend_less_div_times)
  then have near: "unat checkpoint < c + 2 ^ 32" "c < unat checkpoint + 2 ^ 32"
    using qle seqno_offset_less [of n isn] unfolding c_def by simp_all
  have half: "unat (two_32 div 2) = 2 ^ 31"
    by (simp add: two_32_val)
  have lo: "unat (?cand - two_32) = c - 2 ^ 32" 
    "unat (checkpoint - (?cand - two_32)) = unat checkpoint - (c - 2 ^ 32)"
    if "2 ^ 32 \<le> unat checkpoint"
  proof -
    have "2 ^ 32 \<le> c"
      using div_le_mono [OF that, of "2 ^ 32"] unfolding c_def by simp
    then show *: "unat (?cand - two_32) = c - 2 ^ 32"
      by (simp add: unat_sub_nowrap cand unat_two_32)
    show "unat (checkpoint - (?cand - two_32)) = unat checkpoint - (c - 2 ^ 32)"
      using near by (subst unat_sub_nowrap) (simp_all add: *)
  qed
  have hi: "unat ((?cand + two_32) - checkpoint) = c + 2 ^ 32 - unat checkpoint"
    using near by (simp add: unat_sub_nowrap up)
  show ?thesis
    unfolding unwrap_def absolute_seqno_mod_eq
    unfolding Let_def q1 word_less_nat_alt half hi
    using lo near by (auto simp: up cand)
qed


lemma wrap_eq_wrap_iff: "wrap a isn = wrap b isn \<longleftrightarrow> unat a mod 2 ^ 32 = unat b mod 2 ^ 32"
proof -
  have "wrap a isn = wrap b isn \<longleftrightarrow> (ucast a :: u32) = ucast b"
    by (simp add: wrap_eq)
  also have "\<dots> \<longleftrightarrow> unat (ucast a :: u32) = unat (ucast b :: u32)"
    by (rule word_unat_eq_iff)
  finally show ?thesis
    by (simp add: unsigned_ucast_eq take_bit_eq_mod)
qed

lemma ucast_unwrap: "ucast (unwrap n isn checkpoint) = raw_value n - raw_value isn"
proof -
  have m: "(ucast ((if raw_value n < raw_value isn then ucast (raw_value n) + two_32
      else ucast (raw_value n)) - ucast (raw_value isn) :: u64) :: u32) = raw_value n - raw_value isn"
    by (simp add: ucast_64_32_diff ucast_64_32_add ucast_two_32)
  show ?thesis
    unfolding unwrap_def Let_def
    by (auto simp: ucast_64_32_diff ucast_64_32_add ucast_64_32_mult ucast_two_32)
qed

lemma wrap_unwrap_id: "wrap (unwrap n isn checkpoint) isn = n"
  by (simp add: wrap_eq ucast_unwrap)

text \<open>The distance argument: two numbers congruent modulo \<open>2 ^ 32\<close>, one of them near.\<close>

lemma congruent_gap:
  fixes u x m :: nat
  assumes "u mod m = x mod m"
  shows "u = x \<or> u + m \<le> x \<or> x + m \<le> u"
proof (cases u x rule: linorder_cases)
  case less
  then have "m dvd x - u"
    using assms by (simp add: mod_eq_dvd_iff_nat [symmetric])
  with less show ?thesis
    using dvd_imp_le [of m "x - u"] by auto
next
  case greater
  then have "m dvd u - x"
    using assms by (simp add: mod_eq_dvd_iff_nat [symmetric])
  with greater show ?thesis
    using dvd_imp_le [of m "u - x"] by auto
qed simp

lemma unwrap_distance:
  fixes n isn :: wrapping_int32
  assumes "unat checkpoint < 2 ^ 64 - 2 ^ 32"
  defines "u \<equiv> unat (unwrap n isn checkpoint)"
  shows "\<bar>int u - int (unat checkpoint)\<bar> \<le> 2 ^ 31 \<or> (u < 2 ^ 32 \<and> unat checkpoint < u)"
proof -
  define C where "C = unat checkpoint"
  define q where "q = C div 2 ^ 32 * 2 ^ 32"
  have q: "q \<le> C" "C < q + 2 ^ 32" "C < 2 ^ 32 \<Longrightarrow> q = 0"
    using dividend_less_div_times [of "2 ^ 32" C]
    by (simp_all add: q_def div_times_less_eq_dividend)
  have "u = (if 2 ^ 32 \<le> C \<and> C + 2 ^ 32 < seqno_offset n isn + q + 2 ^ 31
      then seqno_offset n isn + q - 2 ^ 32
      else if seqno_offset n isn + q + 2 ^ 32 < C + 2 ^ 31
      then seqno_offset n isn + q + 2 ^ 32 else seqno_offset n isn + q)"
    unfolding u_def q_def C_def by (rule unat_unwrap [OF assms(1)])
  then show ?thesis
    using seqno_offset_less [of n isn] q unfolding C_def [symmetric]
    by (auto split: if_splits)
qed

lemma congruent_distance:
  fixes u x c :: nat
  assumes "u mod 2 ^ 32 = x mod 2 ^ 32"
    and "\<bar>int u - int c\<bar> \<le> 2 ^ 31 \<or> (u < 2 ^ 32 \<and> c < u)"
  shows "\<bar>int u - int c\<bar> \<le> \<bar>int x - int c\<bar>"
  using congruent_gap [OF assms(1)] assms(2) by auto

lemma congruent_near:
  fixes u x c :: nat
  assumes "u mod 2 ^ 32 = x mod 2 ^ 32"
    and "\<bar>int u - int c\<bar> \<le> \<bar>int x - int c\<bar>" "\<bar>int x - int c\<bar> < 2 ^ 31"
  shows "u = x"
  using congruent_gap [OF assms(1)] assms(2,3) by auto

lemma unwrap_wrap_id:
  assumes "unat checkpoint < 2 ^ 64 - 2 ^ 32" "\<bar>int (unat x) - int (unat checkpoint)\<bar> < 2 ^ 31"
  shows "unwrap (wrap x isn) isn checkpoint = x"
proof -
  let ?u = "unwrap (wrap x isn) isn checkpoint"
  have cong: "unat ?u mod 2 ^ 32 = unat x mod 2 ^ 32"
    using wrap_unwrap_id [of "wrap x isn" isn checkpoint] by (simp only: wrap_eq_wrap_iff)
  have "unat ?u = unat x"
    using congruent_distance [OF cong unwrap_distance [OF assms(1)]] assms(2)
    by (rule congruent_near [OF cong])
  then show ?thesis
    by (simp add: word_nat)
qed

lemma unwrap_wrap_near:
  assumes "x < unat checkpoint + 2 ^ 31" "unat checkpoint < x + 2 ^ 31" "unat checkpoint + 2 ^ 32 < 2 ^ 64"
  shows "unwrap (wrap (word_of_nat x) isn) isn checkpoint = word_of_nat x"
proof (rule unwrap_wrap_id)
  define c where "c = unat checkpoint"
  have "unat (word_of_nat x :: u64) = x"
    using assms(1,3) by (intro unat_of_nat_eq) simp
  moreover have "\<bar>int x - int c\<bar> < 2 ^ 31"
    using assms(1,2) by (simp add: c_def [symmetric])
  ultimately show "\<bar>int (unat (word_of_nat x :: u64)) - int (unat checkpoint)\<bar> < 2 ^ 31"
    by (simp only: c_def)
qed (use assms(3) in simp)

section \<open>Properties\<close>

text \<open>
  Whatever the checkpoint, \<^verbatim>\<open>unwrap\<close> returns an absolute sequence number that wraps to the
  given relative one.
\<close>

theorem wrap_unwrap: "wrap (unwrap n isn checkpoint) isn = n"
  by (rule wrap_unwrap_id)



text \<open>
  Round trip: an absolute sequence number within \<open>2 ^ 31\<close> of the checkpoint survives the
  way through its 32-bit form, which is what sender and receiver use it for.
\<close>

theorem unwrap_wrap:
  assumes "unat checkpoint < 2 ^ 64 - 2 ^ 32" "\<bar>int (unat x) - int (unat checkpoint)\<bar> < 2 ^ 31"
  shows "unwrap (wrap x isn) isn checkpoint = x"
  using assms by (rule unwrap_wrap_id)

theorem unwrap_wrap_witness:
  "unwrap (wrap 4294967300 (WrappingInt32 4294967295)) (WrappingInt32 4294967295) 4294967290 =
   4294967300"
  by (rule unwrap_wrap) simp_all

end
