(* ===== verification/Tcp_Segment.thy ===== *)
theory Tcp_Segment
  imports Internet_Checksum Wrapping_Integers
begin

text \<open>
  \<^verbatim>\<open>libsponge/tcp_helpers/tcp_header.{hh,cc}\<close> and \<^verbatim>\<open>tcp_segment.{hh,cc}\<close>: the TCP header and
  segment, their parsers and serializers.  What a parser accepts is described exactly, and
  parsing undoes serializing, checksum included.
\<close>

section \<open>TCPHeader\<close>

record tcp_header =
  sport :: u16
  dport :: u16
  seqno :: wrapping_int32
  ackno :: wrapping_int32
  doff :: u8
  urg :: bool
  ack :: bool
  psh :: bool
  rst :: bool
  syn :: bool
  fin :: bool
  win :: u16
  cksum :: u16
  uptr :: u16

definition TCPHeader_LENGTH :: size_t where
  "TCPHeader_LENGTH = 20"

definition TCPHeader_default :: tcp_header where
  "TCPHeader_default =
     \<lparr>sport = 0, dport = 0, seqno = WrappingInt32 0, ackno = WrappingInt32 0,
      doff = ucast (TCPHeader_LENGTH div 4), urg = False, ack = False, psh = False, rst = False,
      syn = False, fin = False, win = 0, cksum = 0, uptr = 0\<rparr>"

text \<open>The end of \<^verbatim>\<open>parse\<close>, once all fields are read.\<close>

definition TCPHeader_skip_options ::
  "tcp_header \<Rightarrow> net_parser \<Rightarrow> (parse_result \<times> tcp_header \<times> net_parser) outcome" where
  "TCPHeader_skip_options h p =
     (if doff h < 5 then Inr (HeaderTooShort, h, p)
      else bindE (NetParser_remove_prefix p (ucast (doff h) * 4 - TCPHeader_LENGTH)) (\<lambda>p.
             if NetParser_error p then Inr (NetParser_get_error p, h, p)
             else Inr (NoError, h, p)))"

definition TCPHeader_parse ::
  "net_parser \<Rightarrow> (parse_result \<times> tcp_header \<times> net_parser) outcome" where
  "TCPHeader_parse p0 =
     bindE (NetParser_u16 p0) (\<lambda>(sport', p).
     bindE (NetParser_u16 p) (\<lambda>(dport', p).
     bindE (NetParser_u32 p) (\<lambda>(seqno', p).
     bindE (NetParser_u32 p) (\<lambda>(ackno', p).
     bindE (NetParser_u8 p) (\<lambda>(doff_b, p).
     bindE (NetParser_u8 p) (\<lambda>(fl_b, p).
     bindE (NetParser_u16 p) (\<lambda>(win', p).
     bindE (NetParser_u16 p) (\<lambda>(cksum', p).
     bindE (NetParser_u16 p) (\<lambda>(uptr', p).
       let h = \<lparr>sport = sport', dport = dport', seqno = WrappingInt32 seqno',
                ackno = WrappingInt32 ackno', doff = drop_bit 4 doff_b,
                urg = fl_b AND 0b00100000 \<noteq> 0, ack = fl_b AND 0b00010000 \<noteq> 0,
                psh = fl_b AND 0b00001000 \<noteq> 0, rst = fl_b AND 0b00000100 \<noteq> 0,
                syn = fl_b AND 0b00000010 \<noteq> 0, fin = fl_b AND 0b00000001 \<noteq> 0,
                win = win', cksum = cksum', uptr = uptr'\<rparr>
       in TCPHeader_skip_options h p)))))))))"

text \<open>\<^verbatim>\<open>string::resize\<close>: cut, or padded with zero bytes.\<close>

definition string_resize :: "bytes \<Rightarrow> nat \<Rightarrow> bytes" where
  "string_resize s n = take n s @ replicate (n - length s) 0"

definition TCPHeader_flags :: "tcp_header \<Rightarrow> u8" where
  "TCPHeader_flags h =
     (if urg h then 0b00100000 else 0) OR (if ack h then 0b00010000 else 0) OR
     (if psh h then 0b00001000 else 0) OR (if rst h then 0b00000100 else 0) OR
     (if syn h then 0b00000010 else 0) OR (if fin h then 0b00000001 else 0)"

definition TCPHeader_serialize :: "tcp_header \<Rightarrow> bytes outcome" where
  "TCPHeader_serialize h =
     (if doff h < 5 then Inl (Runtime_error ''TCP header too short'')
      else
        let ret = NetUnparser_u16 [] (sport h);
            ret = NetUnparser_u16 ret (dport h);
            ret = NetUnparser_u32 ret (raw_value (seqno h));
            ret = NetUnparser_u32 ret (raw_value (ackno h));
            ret = NetUnparser_u8 ret (push_bit 4 (doff h));
            ret = NetUnparser_u8 ret (TCPHeader_flags h);
            ret = NetUnparser_u16 ret (win h);
            ret = NetUnparser_u16 ret (cksum h);
            ret = NetUnparser_u16 ret (uptr h)
        in Inr (string_resize ret (4 * unat (doff h))))"

definition TCPHeader_eq :: "tcp_header \<Rightarrow> tcp_header \<Rightarrow> bool" where
  "TCPHeader_eq h other \<longleftrightarrow>
     seqno h = seqno other \<and> ackno h = ackno other \<and> doff h = doff other \<and> urg h = urg other \<and>
     ack h = ack other \<and> psh h = psh other \<and> rst h = rst other \<and> syn h = syn other \<and>
     fin h = fin other \<and> win h = win other \<and> uptr h = uptr other"

section \<open>TCPSegment\<close>

record tcp_segment =
  seg_header :: tcp_header
  seg_payload :: buffer

definition TCPSegment_default :: tcp_segment where
  "TCPSegment_default = \<lparr>seg_header = TCPHeader_default, seg_payload = Buffer_default\<rparr>"

definition TCPSegment_parse ::
  "tcp_segment \<Rightarrow> buffer \<Rightarrow> u32 \<Rightarrow> (parse_result \<times> tcp_segment) outcome" where
  "TCPSegment_parse seg b datagram_layer_checksum =
     (let check = InternetChecksum_add (InternetChecksum_new datagram_layer_checksum) (Buffer_str b)
      in if InternetChecksum_value check \<noteq> 0 then Inr (BadChecksum, seg)
         else bindE (TCPHeader_parse (NetParser_new b)) (\<lambda>(_, h, p).
                Inr (NetParser_get_error p, \<lparr>seg_header = h, seg_payload = np_buffer p\<rparr>)))"

definition TCPSegment_length_in_sequence_space :: "tcp_segment \<Rightarrow> size_t" where
  "TCPSegment_length_in_sequence_space seg =
     sz (Buffer_str (seg_payload seg)) + (if syn (seg_header seg) then 1 else 0) +
     (if fin (seg_header seg) then 1 else 0)"

definition TCPSegment_serialize :: "tcp_segment \<Rightarrow> u32 \<Rightarrow> buffer_list outcome" where
  "TCPSegment_serialize seg datagram_layer_checksum =
     (let header_out = (seg_header seg)\<lparr>cksum := 0\<rparr>
      in bindE (TCPHeader_serialize header_out) (\<lambda>s.
           let check = InternetChecksum_add (InternetChecksum_new datagram_layer_checksum) s;
               check = InternetChecksum_add check (Buffer_str (seg_payload seg));
               header_out = header_out\<lparr>cksum := InternetChecksum_value check\<rparr>
           in bindE (TCPHeader_serialize header_out) (\<lambda>s.
                Inr (BufferList_append (BufferList_append [] (BufferList_of_string s))
                       [seg_payload seg]))))"

section \<open>What the parsers accept\<close>

definition tcp_header_of :: "bytes \<Rightarrow> tcp_header" where
  "tcp_header_of bs =
     \<lparr>sport = slice 0 2 bs, dport = slice 2 2 bs, seqno = WrappingInt32 (slice 4 4 bs),
      ackno = WrappingInt32 (slice 8 4 bs), doff = drop_bit 4 (bs ! 12),
      urg = bs ! 13 AND 0b00100000 \<noteq> 0, ack = bs ! 13 AND 0b00010000 \<noteq> 0,
      psh = bs ! 13 AND 0b00001000 \<noteq> 0, rst = bs ! 13 AND 0b00000100 \<noteq> 0,
      syn = bs ! 13 AND 0b00000010 \<noteq> 0, fin = bs ! 13 AND 0b00000001 \<noteq> 0,
      win = slice 14 2 bs, cksum = slice 16 2 bs, uptr = slice 18 2 bs\<rparr>"

lemma unat_doff_bytes:
  assumes "\<not> (d :: u8) < 5"
  shows "unat (ucast d * 4 - TCPHeader_LENGTH) = 4 * unat d - 20"
proof -
  have "unat d < 256"
    using unsigned_less [of d, where ?'a = nat] by simp
  then have "unat (ucast d * 4 :: size_t) = 4 * unat d"
    by (simp add: unat_word_ariths unsigned_ucast_eq take_bit_nat_eq_self)
  then show ?thesis
    using assms by (subst unat_sub_nowrap) (simp_all add: TCPHeader_LENGTH_def word_less_nat_alt)
qed

lemma TCPHeader_skip_options_runs:
  assumes p: "progress p bs 20" and h: "20 \<le> length bs \<Longrightarrow> h = tcp_header_of bs"
    and short: "\<And>res h p'. length bs < 20 \<Longrightarrow> stuck p' \<Longrightarrow> Q (res, h, p')"
    and bad: "\<And>p'. 20 \<le> length bs \<Longrightarrow> doff (tcp_header_of bs) < 5 \<Longrightarrow> progress p' bs 20 \<Longrightarrow>
          Q (HeaderTooShort, tcp_header_of bs, p')"
    and good: "\<And>p'. 20 \<le> length bs \<Longrightarrow> \<not> doff (tcp_header_of bs) < 5 \<Longrightarrow>
          progress p' bs (4 * unat (doff (tcp_header_of bs))) \<Longrightarrow>
          Q (NetParser_get_error p', tcp_header_of bs, p')"
  shows "runs (TCPHeader_skip_options h p) Q"
proof (cases "doff h < 5")
  case True
  then show ?thesis
    using p h short bad by (cases "20 \<le> length bs") (auto simp: TCPHeader_skip_options_def progress_def)
next
  case False
  have n: "20 + unat (ucast (doff h) * 4 - TCPHeader_LENGTH) = 4 * unat (doff h)"
    using False by (simp add: unat_doff_bytes word_less_nat_alt)
  have "runs (NetParser_remove_prefix p (ucast (doff h) * 4 - TCPHeader_LENGTH))
      (\<lambda>p'. Q (NetParser_get_error p', h, p'))"
  proof (rule progress_remove_prefix [OF p])
    fix p'
    assume "progress p' bs (20 + unat (ucast (doff h) * 4 - TCPHeader_LENGTH))"
    then have p': "progress p' bs (4 * unat (doff h))"
      by (simp only: n)
    show "Q (NetParser_get_error p', h, p')"
    proof (cases "20 \<le> length bs")
      case True
      then show ?thesis using good False h p' by simp
    next
      case short': False
      moreover have "length bs < 4 * unat (doff h)"
        using False short' by (simp add: word_less_nat_alt)
      ultimately show ?thesis using short p' by (simp add: progress_def)
    qed
  qed
  then show ?thesis
    using False by (auto simp: TCPHeader_skip_options_def NetParser_error_def elim!: runs_mono)
qed

lemma TCPHeader_parse_runs:
  assumes p: "progress p bs 0"
    and short: "\<And>res h p'. length bs < 20 \<Longrightarrow> stuck p' \<Longrightarrow> Q (res, h, p')"
    and bad: "\<And>p'. 20 \<le> length bs \<Longrightarrow> doff (tcp_header_of bs) < 5 \<Longrightarrow> progress p' bs 20 \<Longrightarrow>
          Q (HeaderTooShort, tcp_header_of bs, p')"
    and good: "\<And>p'. 20 \<le> length bs \<Longrightarrow> \<not> doff (tcp_header_of bs) < 5 \<Longrightarrow>
          progress p' bs (4 * unat (doff (tcp_header_of bs))) \<Longrightarrow>
          Q (NetParser_get_error p', tcp_header_of bs, p')"
  shows "runs (TCPHeader_parse p) Q"
  unfolding TCPHeader_parse_def runs_bindE
  apply (rule progress_u16 [OF p], simp only: prod.case runs_bindE)
  apply ((erule progress_u16 progress_u32 progress_u8, simp only: prod.case runs_bindE)+)
  apply (simp only: Let_def, rule TCPHeader_skip_options_runs [of _ bs])
      apply (simp del: add_2_eq_Suc add_2_eq_Suc')
     apply (simp add: tcp_header_of_def del: add_2_eq_Suc add_2_eq_Suc')
    apply (erule (1) short)
   apply (erule (2) bad)
  apply (erule (2) good)
  done

section \<open>Parsing what was serialized\<close>

definition TCPHeader_wf :: "tcp_header \<Rightarrow> bool" where
  "TCPHeader_wf h \<longleftrightarrow> 5 \<le> unat (doff h) \<and> unat (doff h) \<le> 15"

text \<open>The bytes of the header, with the checksum field in the middle.\<close>

definition header_bytes :: "tcp_header \<Rightarrow> bytes" where
  "header_bytes h =
     be_bytes (sport h) @ be_bytes (dport h) @ be_bytes (raw_value (seqno h)) @
     be_bytes (raw_value (ackno h)) @ [push_bit 4 (doff h), TCPHeader_flags h] @ be_bytes (win h)"

definition header_tail :: "tcp_header \<Rightarrow> bytes" where
  "header_tail h = be_bytes (uptr h) @ replicate (4 * unat (doff h) - 20) 0"

lemma length_header_bytes [simp]: "length (header_bytes h) = 16"
  by (simp add: header_bytes_def)

lemma length_header_tail [simp]: "TCPHeader_wf h \<Longrightarrow> length (header_tail h) = 4 * unat (doff h) - 18"
  by (auto simp: header_tail_def TCPHeader_wf_def)

lemma header_parts_cksum [simp]:
  "header_bytes (h\<lparr>cksum := c\<rparr>) = header_bytes h" "header_tail (h\<lparr>cksum := c\<rparr>) = header_tail h"
  "TCPHeader_wf (h\<lparr>cksum := c\<rparr>) = TCPHeader_wf h"
  by (simp_all add: header_bytes_def header_tail_def TCPHeader_flags_def TCPHeader_wf_def)

lemma TCPHeader_serialize_eq:
  assumes "TCPHeader_wf h"
  shows "TCPHeader_serialize h = Inr (header_bytes h @ be_bytes (cksum h) @ header_tail h)"
proof -
  have "\<not> doff h < 5" "20 \<le> 4 * unat (doff h)"
    using assms by (simp_all add: TCPHeader_wf_def word_less_nat_alt)
  then show ?thesis
    by (simp add: TCPHeader_serialize_def unparse_simps Let_def string_resize_def header_bytes_def
        header_tail_def del: take_append)
qed

lemma drop_push_4: "unat (d :: u8) \<le> 15 \<Longrightarrow> drop_bit 4 (push_bit 4 d) = d"
proof -
  assume d: "unat d \<le> 15"
  then have "unat (push_bit 4 d) = 16 * unat d"
    by (simp add: push_bit_eq_mult unat_word_ariths)
  then show ?thesis
    by (simp add: word_eq_unat drop_bit_eq_div unat_div_distrib)
qed

lemma TCPHeader_flags_bits:
  "TCPHeader_flags h AND 32 \<noteq> 0 \<longleftrightarrow> urg h" "TCPHeader_flags h AND 16 \<noteq> 0 \<longleftrightarrow> ack h"
  "TCPHeader_flags h AND 8 \<noteq> 0 \<longleftrightarrow> psh h" "TCPHeader_flags h AND 4 \<noteq> 0 \<longleftrightarrow> rst h"
  "TCPHeader_flags h AND 2 \<noteq> 0 \<longleftrightarrow> syn h" "TCPHeader_flags h AND 1 \<noteq> 0 \<longleftrightarrow> fin h"
  unfolding TCPHeader_flags_def
  by (cases "urg h"; cases "ack h"; cases "psh h"; cases "rst h"; cases "syn h"; cases "fin h"; simp)+

lemma tcp_header_of_serialized:
  assumes "TCPHeader_wf h"
  shows "tcp_header_of (header_bytes h @ be_bytes (cksum h) @ header_tail h @ rest) = h"
proof -
  note simps = header_bytes_def header_tail_def slice_def nth_append
  let ?s = "header_bytes h @ be_bytes (cksum h) @ header_tail h @ rest"
  have ports: "slice 0 2 ?s = sport h" "slice 2 2 ?s = dport h"
    and numbers: "slice 4 4 ?s = raw_value (seqno h)" "slice 8 4 ?s = raw_value (ackno h)"
    and ends: "slice 14 2 ?s = win h" "slice 16 2 ?s = cksum h" "slice 18 2 ?s = uptr h"
    and "?s ! 12 = push_bit 4 (doff h)" and flags: "?s ! 13 = TCPHeader_flags h"
    by (simp_all add: simps)
  then have "drop_bit 4 (?s ! 12) = doff h"
    using assms by (simp add: TCPHeader_wf_def drop_push_4)
  then show ?thesis
    unfolding tcp_header_of_def ports numbers ends flags TCPHeader_flags_bits by simp
qed

lemma TCPSegment_parse_runs:
  assumes "Buffer_wf b" "InternetChecksum_value
      (InternetChecksum_add (InternetChecksum_new ck) (Buffer_str b)) = 0"
    and "\<And>res h p'. length (Buffer_str b) < 20 \<Longrightarrow> Q (PacketTooShort, \<lparr>seg_header = h, seg_payload = p'\<rparr>)"
    and "\<And>pl. 20 \<le> length (Buffer_str b) \<Longrightarrow>
      length (Buffer_str b) < 4 * unat (doff (tcp_header_of (Buffer_str b))) \<Longrightarrow>
      Q (PacketTooShort, \<lparr>seg_header = tcp_header_of (Buffer_str b), seg_payload = pl\<rparr>)"
    and "\<And>pl. 20 \<le> length (Buffer_str b) \<Longrightarrow> Buffer_wf pl \<Longrightarrow>
      4 * unat (doff (tcp_header_of (Buffer_str b))) \<le> length (Buffer_str b) \<Longrightarrow>
      Buffer_str pl = drop (max 20 (4 * unat (doff (tcp_header_of (Buffer_str b))))) (Buffer_str b) \<Longrightarrow>
      Q (NoError, \<lparr>seg_header = tcp_header_of (Buffer_str b), seg_payload = pl\<rparr>)"
  shows "runs (TCPSegment_parse seg b ck) Q"
  using assms
  by (auto simp: TCPSegment_parse_def Let_def word_less_nat_alt progress_error progress_buffer max_def
      not_less intro!: TCPHeader_parse_runs [OF progress_new])

lemma TCPSegment_serialize_eq:
  fixes seg :: tcp_segment and ck :: u32
  defines "h \<equiv> seg_header seg" and "pl \<equiv> Buffer_str (seg_payload seg)"
  defines "c \<equiv> InternetChecksum_value (InternetChecksum_add (InternetChecksum_new ck)
    (header_bytes h @ [0, 0] @ header_tail h @ pl))"
  assumes "TCPHeader_wf h"
  shows "TCPSegment_serialize seg ck =
    Inr [Buffer_new (header_bytes h @ be_bytes c @ header_tail h), seg_payload seg]"
  using assms(4)
  by (simp add: TCPSegment_serialize_def TCPHeader_serialize_eq c_def h_def pl_def Let_def
      InternetChecksum_add_append BufferList_of_string_def be_bytes_16)

text \<open>Segments as a wire format, for any sum of the pseudo-header.\<close>

definition TCPSegment_wf :: "u32 \<Rightarrow> tcp_segment \<Rightarrow> bool" where
  "TCPSegment_wf ck seg \<longleftrightarrow> TCPHeader_wf (seg_header seg) \<and>
     unat ck + 65280 * (60 + length (Buffer_str (seg_payload seg))) < 2 ^ 32"

definition same_segment :: "tcp_segment \<Rightarrow> tcp_segment \<Rightarrow> bool" where
  "same_segment seg seg' \<longleftrightarrow> Buffer_str (seg_payload seg') = Buffer_str (seg_payload seg) \<and>
     (seg_header seg')\<lparr>cksum := cksum (seg_header seg)\<rparr> = seg_header seg"

lemma TCPSegment_reparsed:
  assumes seg: "TCPSegment_wf ck seg"
  defines "h \<equiv> seg_header seg" and "pl \<equiv> Buffer_str (seg_payload seg)"
  defines "c \<equiv> InternetChecksum_value (InternetChecksum_add (InternetChecksum_new ck)
    (header_bytes h @ [0, 0] @ header_tail h @ pl))"
  defines "bs \<equiv> header_bytes h @ be_bytes c @ header_tail h @ pl"
  assumes b: "Buffer_wf b" "Buffer_str b = bs"
  shows "runs (TCPSegment_parse seg0 b ck) (\<lambda>(res, seg'). res = NoError \<and> same_segment seg seg')"
proof -
  have wf: "TCPHeader_wf h" and small: "unat ck + 65280 * (60 + length pl) < 2 ^ 32"
    using seg by (simp_all add: TCPSegment_wf_def h_def pl_def)
  have "InternetChecksum_value (InternetChecksum_add (InternetChecksum_new ck) bs) = 0"
    unfolding bs_def using small wf by (intro InternetChecksum_insert) (auto simp: c_def summable_def TCPHeader_wf_def)
  moreover have "tcp_header_of bs = h\<lparr>cksum := c\<rparr>"
    using tcp_header_of_serialized [of "h\<lparr>cksum := c\<rparr>" pl] wf by (simp add: bs_def)
  moreover have "length bs = 4 * unat (doff h) + length pl"
    using wf by (auto simp: bs_def TCPHeader_wf_def)
  moreover have "drop (4 * unat (doff h)) bs = pl"
    using wf by (auto simp: bs_def TCPHeader_wf_def)
  ultimately show ?thesis
    using wf b by (intro TCPSegment_parse_runs) (auto simp: TCPHeader_wf_def same_segment_def h_def pl_def max_def)
qed

interpretation tcp_wire: wire_format "\<lambda>seg. TCPSegment_serialize seg ck" "\<lambda>b. TCPSegment_parse seg0 b ck"
  "TCPSegment_wf ck" same_segment
  for ck seg0
proof unfold_locales
  fix seg
  assume wf: "TCPSegment_wf ck seg"
  then have h: "TCPHeader_wf (seg_header seg)"
    by (simp add: TCPSegment_wf_def)
  then have "length (header_tail (seg_header seg)) \<le> 42"
    by (auto simp: TCPHeader_wf_def)
  then show "runs (TCPSegment_serialize seg ck) (\<lambda>bl. fits (BufferList_concatenate bl) \<and>
      (\<forall>b. Buffer_wf b \<longrightarrow> Buffer_str b = BufferList_concatenate bl \<longrightarrow>
        runs (TCPSegment_parse seg0 b ck) (\<lambda>(res, seg'). res = NoError \<and> same_segment seg seg')))"
    using TCPSegment_reparsed [OF wf] wf by (simp add: TCPSegment_serialize_eq [OF h] fits_def TCPSegment_wf_def)
qed

section \<open>Properties\<close>

text \<open>
  C28. The TCP segment parser never throws, whatever the bytes, and what it accepts is known
  exactly.  A wrong checksum leaves the segment untouched; otherwise fewer than 20 bytes or
  fewer than the data offset claims give \<^verbatim>\<open>PacketTooShort\<close>; otherwise the fields are read
  from their places and the payload starts behind the header.
\<close>

theorem TCPSegment_parse_accepts:
  assumes "Buffer_wf b"
  shows "runs (TCPSegment_parse seg b ck) (\<lambda>(res, seg').
    let bs = Buffer_str b; n = max 20 (4 * unat (doff (tcp_header_of bs)))
    in if InternetChecksum_value (InternetChecksum_add (InternetChecksum_new ck) bs) \<noteq> 0
       then res = BadChecksum \<and> seg' = seg
       else if length bs < 20 then res = PacketTooShort
       else seg_header seg' = tcp_header_of bs \<and>
         (if length bs < n then res = PacketTooShort
          else res = NoError \<and> Buffer_str (seg_payload seg') = drop n bs))"
proof (cases "InternetChecksum_value
    (InternetChecksum_add (InternetChecksum_new ck) (Buffer_str b)) = 0")
  case True
  then show ?thesis
    by (intro TCPSegment_parse_runs [OF assms]) (auto simp: Let_def)
next
  case False
  then show ?thesis
    by (simp add: TCPSegment_parse_def Let_def)
qed

theorem TCPSegment_parse_accepts_witness:
  "runs (TCPSegment_parse TCPSegment_default (Buffer_new [1, 2, 3]) 5)
     (\<lambda>(res, seg'). res = BadChecksum \<and> seg' = TCPSegment_default)"
proof -
  have "InternetChecksum_value (InternetChecksum_add (InternetChecksum_new 5) [1, 2, 3]) \<noteq> 0"
    by code_simp
  moreover have "Buffer_wf (Buffer_new [1, 2, 3])"
    by (simp add: fits_def)
  ultimately show ?thesis
    using TCPSegment_parse_accepts [of "Buffer_new [1, 2, 3]" TCPSegment_default 5] by simp
qed

text \<open>
  C27. Parsing undoes serializing: a segment with a well-formed header (data offset 5 to 15)
  is serialized without an exception, and the receiver with the same pseudo-header sum parses
  the result with no error into the same header, up to the computed checksum, and the same
  payload.
\<close>

theorem TCPSegment_roundtrip:
  assumes "5 \<le> unat (doff (seg_header seg))" "unat (doff (seg_header seg)) \<le> 15"
    and "unat ck + 65280 * (60 + length (Buffer_str (seg_payload seg))) < 2 ^ 32"
  shows "runs (TCPSegment_serialize seg ck) (\<lambda>bl.
    runs (TCPSegment_parse seg0 (Buffer_new (BufferList_concatenate bl)) ck) (\<lambda>(res, seg').
      res = NoError \<and> Buffer_str (seg_payload seg') = Buffer_str (seg_payload seg) \<and>
      (seg_header seg')\<lparr>cksum := cksum (seg_header seg)\<rparr> = seg_header seg))"
proof -
  have "TCPSegment_wf ck seg"
    using assms by (simp add: TCPSegment_wf_def TCPHeader_wf_def)
  then show ?thesis
    using tcp_wire.on_the_wire by (simp add: same_segment_def)
qed

theorem TCPSegment_roundtrip_witness:
  "runs (TCPSegment_serialize (TCPSegment_default\<lparr>seg_payload := Buffer_new [104, 105]\<rparr>) 6) (\<lambda>bl.
    runs (TCPSegment_parse TCPSegment_default (Buffer_new (BufferList_concatenate bl)) 6) (\<lambda>(res, seg').
      res = NoError \<and> Buffer_str (seg_payload seg') = [104, 105]))"
  using TCPSegment_roundtrip [of "TCPSegment_default\<lparr>seg_payload := Buffer_new [104, 105]\<rparr>" 6 TCPSegment_default]
  by (simp add: TCPSegment_default_def TCPHeader_default_def TCPHeader_LENGTH_def) (auto elim!: runs_mono)

text \<open>
  \<^verbatim>\<open>TCPSegment::parse\<close> looks at the error of the parser, not at the result of
  \<^verbatim>\<open>TCPHeader::parse\<close>: a segment whose data offset is below 5, for which the header parser
  answers \<^verbatim>\<open>HeaderTooShort\<close>, is accepted with \<^verbatim>\<open>NoError\<close>.
\<close>

theorem TCPSegment_accepts_short_offset:
  assumes "Buffer_wf b" "20 \<le> length (Buffer_str b)" "doff (tcp_header_of (Buffer_str b)) < 5"
    and "InternetChecksum_value (InternetChecksum_add (InternetChecksum_new ck) (Buffer_str b)) = 0"
  shows "runs (TCPHeader_parse (NetParser_new b)) (\<lambda>(res, _). res = HeaderTooShort) \<and>
    runs (TCPSegment_parse seg b ck) (\<lambda>(res, _). res = NoError)"
proof
  show "runs (TCPHeader_parse (NetParser_new b)) (\<lambda>(res, _). res = HeaderTooShort)"
    using assms by (intro TCPHeader_parse_runs [OF progress_new]) auto
  show "runs (TCPSegment_parse seg b ck) (\<lambda>(res, _). res = NoError)"
    using assms by (intro TCPSegment_parse_runs) (auto simp: word_less_nat_alt)
qed

theorem TCPSegment_accepts_short_offset_witness:
  "runs (TCPHeader_parse (NetParser_new (Buffer_new (replicate 20 0)))) (\<lambda>(res, _). res = HeaderTooShort) \<and>
    runs (TCPSegment_parse TCPSegment_default (Buffer_new (replicate 20 0)) 0xffff) (\<lambda>(res, _). res = NoError)"
proof (rule TCPSegment_accepts_short_offset)
  show "InternetChecksum_value
      (InternetChecksum_add (InternetChecksum_new 0xffff) (Buffer_str (Buffer_new (replicate 20 0)))) = 0"
    by code_simp
qed (simp_all add: fits_def tcp_header_of_def)

end
