(* ===== verification/Tcp_Receiver.thy ===== *)
theory Tcp_Receiver
  imports Reassembly Tcp_Segment
begin

text \<open>
  \<^verbatim>\<open>libsponge/tcp_receiver.{hh,cc}\<close>: the receiving half of a TCP endpoint.  It turns segments
  with wrapped sequence numbers into substrings for the reassembler and computes the
  acknowledgment number and the window.
\<close>

section \<open>State and operations\<close>

record tcp_receiver =
  tr_reassembler :: stream_reassembler
  tr_capacity :: size_t
  tr_have_SYN :: bool
  tr_have_FIN :: bool
  tr_icn :: wrapping_int32

definition TCPReceiver_new :: "size_t \<Rightarrow> tcp_receiver" where
  "TCPReceiver_new capacity =
     \<lparr>tr_reassembler = StreamReassembler_new capacity, tr_capacity = capacity,
      tr_have_SYN = False, tr_have_FIN = False, tr_icn = WrappingInt32 0\<rparr>"

definition TCPReceiver_stream_out :: "tcp_receiver \<Rightarrow> byte_stream" where
  "TCPReceiver_stream_out rc = sr_output (tr_reassembler rc)"

text \<open>\<^verbatim>\<open>stream_out()\<close> is also used as an lvalue: the caller changes the stream in place.\<close>

definition TCPReceiver_set_stream_out :: "tcp_receiver \<Rightarrow> byte_stream \<Rightarrow> tcp_receiver" where
  "TCPReceiver_set_stream_out rc s =
     rc\<lparr>tr_reassembler := (tr_reassembler rc)\<lparr>sr_output := s\<rparr>\<rparr>"

text \<open>The part of \<^verbatim>\<open>segment_received\<close> after the handling of SYN.\<close>

definition TCPReceiver_receive_payload ::
  "tcp_receiver \<Rightarrow> wrapping_int32 \<Rightarrow> tcp_segment \<Rightarrow> tcp_receiver outcome" where
  "TCPReceiver_receive_payload rc seqno' seg =
     (let header = seg_header seg;
          checkpoint = ByteStream_bytes_written (sr_output (tr_reassembler rc))
      in bindE (StreamReassembler_push_substring (tr_reassembler rc) (Buffer_copy (seg_payload seg))
                 (unwrap seqno' (tr_icn rc) checkpoint - 1) (fin header)) (\<lambda>r.
           let rc = rc\<lparr>tr_reassembler := r\<rparr>;
               rc = (if fin header then rc\<lparr>tr_have_FIN := True\<rparr> else rc)
           in Inr (if tr_have_FIN rc \<and> StreamReassembler_empty (tr_reassembler rc)
                   then TCPReceiver_set_stream_out rc (ByteStream_end_input (TCPReceiver_stream_out rc))
                   else rc)))"

definition TCPReceiver_segment_received :: "tcp_receiver \<Rightarrow> tcp_segment \<Rightarrow> tcp_receiver outcome" where
  "TCPReceiver_segment_received rc seg =
     (let header = seg_header seg
      in if \<not> tr_have_SYN rc then
           if \<not> syn header then Inr rc
           else let rc = rc\<lparr>tr_have_SYN := True, tr_icn := seqno header\<rparr>
                in TCPReceiver_receive_payload rc (wrap 1 (tr_icn rc)) seg
         else if syn header then Inr rc
         else TCPReceiver_receive_payload rc (seqno header) seg)"

definition TCPReceiver_ackno :: "tcp_receiver \<Rightarrow> wrapping_int32 option" where
  "TCPReceiver_ackno rc =
     (let length_wo_flag = ByteStream_bytes_written (TCPReceiver_stream_out rc)
      in if tr_have_SYN rc then
           if tr_have_FIN rc \<and> ByteStream_input_ended (TCPReceiver_stream_out rc)
           then Some (wrap (length_wo_flag + 2) (tr_icn rc))
           else Some (wrap (length_wo_flag + 1) (tr_icn rc))
         else None)"

definition TCPReceiver_window_size :: "tcp_receiver \<Rightarrow> size_t" where
  "TCPReceiver_window_size rc =
     tr_capacity rc -
       (ByteStream_bytes_written (TCPReceiver_stream_out rc) -
        ByteStream_bytes_read (TCPReceiver_stream_out rc))"

definition TCPReceiver_unassembled_bytes :: "tcp_receiver \<Rightarrow> size_t" where
  "TCPReceiver_unassembled_bytes rc = StreamReassembler_unassembled_bytes (tr_reassembler rc)"

section \<open>No segment breaks the receiver\<close>

definition TCPReceiver_wf :: "tcp_receiver \<Rightarrow> bool" where
  "TCPReceiver_wf rc \<longleftrightarrow>
     StreamReassembler_wf (tr_reassembler rc) \<and> sr_capacity (tr_reassembler rc) = tr_capacity rc"

lemma TCPReceiver_wf_new: "c \<noteq> 0 \<Longrightarrow> TCPReceiver_wf (TCPReceiver_new c)"
  by (simp add: TCPReceiver_wf_def TCPReceiver_new_def StreamReassembler_wf_new)
    (simp add: StreamReassembler_new_def)

lemma StreamReassembler_wf_end_input [simp]:
  "StreamReassembler_wf (r\<lparr>sr_output := ByteStream_end_input (sr_output r)\<rparr>) = StreamReassembler_wf r"
  by (simp add: StreamReassembler_wf_def window_end_def ByteStream_wf_def ByteStream_end_input_def)

lemma unat_window_size:
  assumes "TCPReceiver_wf rc"
  shows "unat (TCPReceiver_window_size rc) =
    unat (tr_capacity rc) - length (bs_buffer (TCPReceiver_stream_out rc))"
proof -
  have wf: "ByteStream_wf (sr_output (tr_reassembler rc))" "bs_capacity (sr_output (tr_reassembler rc)) = tr_capacity rc"
    using assms StreamReassembler_wfD [of "tr_reassembler rc"] by (auto simp: TCPReceiver_wf_def)
  then show ?thesis
    by (simp add: TCPReceiver_window_size_def ByteStream_bytes_read_def TCPReceiver_stream_out_def
        unat_sub_nowrap ByteStream_wf_def)
qed

lemma push_substring_capacity:
  "StreamReassembler_push_substring r x i e = Inr r' \<Longrightarrow> sr_capacity r' = sr_capacity r"
  by (auto simp: StreamReassembler_push_substring_def Let_def bindE_Inr_iff split_def
      StreamReassembler_eof_process_def split: if_splits)

lemma receive_payload_runs:
  assumes "TCPReceiver_wf rc" "Buffer_wf (seg_payload seg)"
  shows "runs (TCPReceiver_receive_payload rc s seg) TCPReceiver_wf"
proof -
  let ?i = "unwrap s (tr_icn rc) (ByteStream_bytes_written (sr_output (tr_reassembler rc))) - 1"
  obtain r' where "StreamReassembler_push_substring (tr_reassembler rc) (Buffer_str (seg_payload seg))
      ?i (fin (seg_header seg)) = Inr r'" "StreamReassembler_wf r'"
    using push_substring_total [of "tr_reassembler rc" "Buffer_str (seg_payload seg)" ?i] assms
    by (auto simp: TCPReceiver_wf_def)
  then show ?thesis
    using assms push_substring_capacity
    by (auto simp: TCPReceiver_receive_payload_def Let_def TCPReceiver_wf_def Buffer_copy_def
        TCPReceiver_set_stream_out_def TCPReceiver_stream_out_def)
qed

lemma segment_received_runs:
  assumes "TCPReceiver_wf rc" "Buffer_wf (seg_payload seg)"
  shows "runs (TCPReceiver_segment_received rc seg) TCPReceiver_wf"
proof -
  have "TCPReceiver_wf (rc\<lparr>tr_have_SYN := True, tr_icn := seqno (seg_header seg)\<rparr>)"
    using assms(1) by (simp add: TCPReceiver_wf_def)
  then show ?thesis
    using assms receive_payload_runs by (simp add: TCPReceiver_segment_received_def Let_def)
qed

section \<open>Receiving a stream\<close>

text \<open>
  \<open>segment_of S isn seg i\<close>: \<open>seg\<close> is one a correct sender of the stream \<open>S\<close> with initial sequence
  number \<open>isn\<close> can send, its payload starting at stream index \<open>i\<close>.
\<close>

definition segment_of :: "bytes \<Rightarrow> wrapping_int32 \<Rightarrow> tcp_segment \<Rightarrow> nat \<Rightarrow> bool" where
  "segment_of S isn seg i \<longleftrightarrow>
     Buffer_wf (seg_payload seg) \<and>
     substring_of S (Buffer_str (seg_payload seg)) i (fin (seg_header seg)) \<and>
     (if syn (seg_header seg) then i = 0 \<and> seqno (seg_header seg) = isn
      else seqno (seg_header seg) = wrap (word_of_nat (i + 1)) isn)"

definition stream_position :: "tcp_receiver \<Rightarrow> nat" where
  "stream_position rc = unat (sr_unassembled_start_index (tr_reassembler rc))"

text \<open>
  The invariant of a receiver of \<open>S\<close>.  The end flag of the stream is only bounded on both
  sides: it is set at the latest when everything has arrived, and never before a FIN has.
\<close>

definition receives :: "bytes \<Rightarrow> wrapping_int32 \<Rightarrow> size_t \<Rightarrow> bytes \<Rightarrow> tcp_receiver \<Rightarrow> bool" where
  "receives S isn c d rc \<longleftrightarrow>
     tr_capacity rc = c \<and> sr_capacity (tr_reassembler rc) = c \<and>
     tracks S d (tr_reassembler rc) \<and>
     (tr_have_FIN rc \<longleftrightarrow> sr_have_eof (tr_reassembler rc)) \<and>
     (bs_is_ended (TCPReceiver_stream_out rc) \<longrightarrow> tr_have_FIN rc) \<and>
     (tr_have_FIN rc \<and> stream_position rc = length S \<longrightarrow> bs_is_ended (TCPReceiver_stream_out rc)) \<and>
     (if tr_have_SYN rc then tr_icn rc = isn else stream_position rc = 0 \<and> \<not> tr_have_FIN rc)"

lemma receives_new: "c \<noteq> 0 \<Longrightarrow> receives S isn c [] (TCPReceiver_new c)"
  using reassembles_new [of c S]
  by (simp add: receives_def TCPReceiver_new_def reassembles_def stream_position_def TCPReceiver_stream_out_def)
    (simp add: StreamReassembler_new_def ByteStream_new_def)

lemma receives_wf: "receives S isn c d rc \<Longrightarrow> TCPReceiver_wf rc"
  by (simp add: receives_def TCPReceiver_wf_def tracks_def)

lemma tracks_end_input [simp]:
  "tracks S d (r\<lparr>sr_output := ByteStream_end_input (sr_output r)\<rparr>) = tracks S d r"
  by (simp add: tracks_def) (simp add: ByteStream_end_input_def)

lemma bytes_written_position:
  "receives S isn c d rc \<Longrightarrow> unat (ByteStream_bytes_written (TCPReceiver_stream_out rc)) = stream_position rc"
  by (auto simp: receives_def tracks_def StreamReassembler_wf_def stream_position_def
      ByteStream_bytes_written_def TCPReceiver_stream_out_def)

definition receives_more :: "bytes \<Rightarrow> bytes \<Rightarrow> nat \<Rightarrow> bool \<Rightarrow> tcp_receiver \<Rightarrow> tcp_receiver \<Rightarrow> bool" where
  "receives_more S x i eof rc rc' \<longleftrightarrow>
     stream_position rc \<le> stream_position rc' \<and>
     window_end (tr_reassembler rc') = window_end (tr_reassembler rc) \<and>
     (tr_have_FIN rc' \<longleftrightarrow> tr_have_FIN rc \<or> eof) \<and>
     (\<forall>j < length S. known (tr_reassembler rc) j \<or>
        i \<le> j \<and> j < i + length x \<and> j < window_end (tr_reassembler rc) \<longrightarrow>
        known (tr_reassembler rc') j)"

lemma known_end_input [simp]:
  "known (r\<lparr>sr_output := s\<rparr>) j = known r j"
  by (simp add: known_def)

lemma window_end_end_input [simp]:
  "window_end (r\<lparr>sr_output := ByteStream_end_input (sr_output r)\<rparr>) = window_end r"
  by (simp add: window_end_def ByteStream_end_input_def)

text \<open>The receiver after the reassembler has taken the substring: flags, then the end test.\<close>

lemma receives_after_push:
  fixes rc :: tcp_receiver and r' :: stream_reassembler and seg :: tcp_segment
  defines "x \<equiv> Buffer_str (seg_payload seg)" and "eof \<equiv> fin (seg_header seg)"
  defines "rc1 \<equiv> rc\<lparr>tr_reassembler := r', tr_have_FIN := tr_have_FIN rc \<or> eof\<rparr>"
  assumes rc: "receives S isn c d rc" "tr_have_SYN rc" and sub: "substring_of S x i eof"
    and r': "tracks S d r'" "push_effect (tr_reassembler rc) x i eof r'"
  shows "receives S isn c d rc1 \<and> receives_more S x i eof rc rc1"
proof -
  have tr: "tracks S d (tr_reassembler rc)"
    using rc by (simp add: receives_def)
  have eff: "sr_have_eof r' = (sr_have_eof (tr_reassembler rc) \<or> eof)"
    "sr_capacity r' = sr_capacity (tr_reassembler rc)" "window_end r' = window_end (tr_reassembler rc)"
    "unat (sr_unassembled_start_index (tr_reassembler rc)) \<le> unat (sr_unassembled_start_index r')"
    using r'(2) by (simp_all add: push_effect_def Let_def)
  have "receives S isn c d rc1"
    using rc r'(1) eff push_effect_finished [OF tr sub r'(2)]
    by (auto simp: receives_def rc1_def TCPReceiver_stream_out_def stream_position_def)
  moreover have "receives_more S x i eof rc rc1"
    using rc eff push_effect_known [OF r'(2,1)]
    by (auto simp: receives_more_def receives_def rc1_def stream_position_def)
  ultimately show ?thesis ..
qed

lemma bs_is_ended_end_input: "bs_is_ended (ByteStream_end_input s)"
  by (simp add: ByteStream_end_input_def)

lemma receives_end_input:
  assumes "receives S isn c d rc" "tr_have_FIN rc"
  shows "receives S isn c d
    (TCPReceiver_set_stream_out rc (ByteStream_end_input (TCPReceiver_stream_out rc)))"
  using assms
  by (auto simp: receives_def TCPReceiver_set_stream_out_def TCPReceiver_stream_out_def stream_position_def
      bs_is_ended_end_input split: if_splits)

lemma receives_payload:
  assumes rc: "receives S isn c d rc" "tr_have_SYN rc"
    and seg: "Buffer_wf (seg_payload seg)"
      "substring_of S (Buffer_str (seg_payload seg)) i (fin (seg_header seg))"
    and s: "unwrap s isn (ByteStream_bytes_written (TCPReceiver_stream_out rc)) = word_of_nat (i + 1)"
    and S: "length S < 2 ^ 64"
  shows "runs (TCPReceiver_receive_payload rc s seg) (\<lambda>rc'. receives S isn c d rc' \<and> tr_have_SYN rc' \<and>
    receives_more S (Buffer_str (seg_payload seg)) i (fin (seg_header seg)) rc rc')"
proof -
  have icn: "tr_icn rc = isn" and tr: "tracks S d (tr_reassembler rc)"
    using rc by (simp_all add: receives_def)
  have i: "unat (word_of_nat i :: u64) = i"
    using seg(2) S by (intro unat_of_nat_eq) (simp add: substring_of_def)
  from tracks_push [OF tr _ S, of _ "word_of_nat i"] seg(2)
  obtain r' where r': "StreamReassembler_push_substring (tr_reassembler rc) (Buffer_str (seg_payload seg))
      (word_of_nat i) (fin (seg_header seg)) = Inr r'" "tracks S d r'"
    "push_effect (tr_reassembler rc) (Buffer_str (seg_payload seg)) i (fin (seg_header seg)) r'"
    by (auto simp: i)
  let ?rc = "rc\<lparr>tr_reassembler := r', tr_have_FIN := tr_have_FIN rc \<or> fin (seg_header seg)\<rparr>"
  have step: "TCPReceiver_receive_payload rc s seg =
      Inr (if tr_have_FIN ?rc \<and> StreamReassembler_empty r'
           then TCPReceiver_set_stream_out ?rc (ByteStream_end_input (TCPReceiver_stream_out ?rc)) else ?rc)"
    using r'(1) s icn
    by (cases "fin (seg_header seg)"; cases "tr_have_FIN rc")
      (simp_all add: TCPReceiver_receive_payload_def Let_def Buffer_copy_def TCPReceiver_stream_out_def
        TCPReceiver_set_stream_out_def)
  show ?thesis
    using receives_after_push [OF rc seg(2) r'(2,3)] receives_end_input [of S isn c d ?rc] rc(2)
    unfolding step
    by (auto simp: receives_more_def TCPReceiver_set_stream_out_def stream_position_def TCPReceiver_stream_out_def)
qed

lemma receives_segment:
  assumes rc: "receives S isn c d rc" and seg: "segment_of S isn seg i"
    and S: "length S + 2 ^ 32 < 2 ^ 64"
    and near: "i + 1 < stream_position rc + 2 ^ 31" "stream_position rc < i + 1 + 2 ^ 31"
  shows "runs (TCPReceiver_segment_received rc seg) (\<lambda>rc'. receives S isn c d rc' \<and>
    (tr_have_SYN rc' \<longleftrightarrow> tr_have_SYN rc \<or> syn (seg_header seg)) \<and>
    (if tr_have_SYN rc = syn (seg_header seg) then rc' = rc
     else receives_more S (Buffer_str (seg_payload seg)) i (fin (seg_header seg)) rc rc'))"
proof -
  let ?h = "seg_header seg"
  have sub: "Buffer_wf (seg_payload seg)" "substring_of S (Buffer_str (seg_payload seg)) i (fin ?h)"
    using seg by (auto simp: segment_of_def)
  have pos: "unat (ByteStream_bytes_written (TCPReceiver_stream_out rc)) = stream_position rc"
    "stream_position rc \<le> length S"
    using bytes_written_position [OF rc] rc by (auto simp: receives_def tracks_def stream_position_def)
  have unwrap: "unwrap (wrap (word_of_nat (i + 1)) isn) isn
      (ByteStream_bytes_written (TCPReceiver_stream_out rc)) = word_of_nat (i + 1)"
    by (rule unwrap_wrap_near) (use pos S near in simp_all)
  show ?thesis
  proof (cases "tr_have_SYN rc = syn ?h")
    case True
    then show ?thesis
      using rc by (auto simp: TCPReceiver_segment_received_def Let_def)
  next
    case False
    define rc0 where "rc0 = (if syn ?h then rc\<lparr>tr_have_SYN := True, tr_icn := seqno ?h\<rparr> else rc)"
    have rc0: "receives S isn c d rc0" "tr_have_SYN rc0" "TCPReceiver_stream_out rc0 = TCPReceiver_stream_out rc"
      using rc seg False by (auto simp: rc0_def receives_def segment_of_def TCPReceiver_stream_out_def stream_position_def)
    have "runs (TCPReceiver_receive_payload rc0 (wrap (word_of_nat (i + 1)) isn) seg) (\<lambda>rc'.
      receives S isn c d rc' \<and> tr_have_SYN rc' \<and>
      receives_more S (Buffer_str (seg_payload seg)) i (fin ?h) rc0 rc')"
      by (rule receives_payload [OF rc0(1,2) sub]) (use unwrap rc0(3) S in simp_all)
    moreover have "TCPReceiver_segment_received rc seg =
        TCPReceiver_receive_payload rc0 (wrap (word_of_nat (i + 1)) isn) seg"
      using seg False by (auto simp: TCPReceiver_segment_received_def Let_def rc0_def segment_of_def)
    ultimately show ?thesis
      using False by (auto simp: rc0_def receives_more_def stream_position_def elim!: runs_mono split: if_splits)
  qed
qed

text \<open>Segments that occupy no sequence numbers (pure acknowledgments, resets).\<close>

definition harmless :: "tcp_segment \<Rightarrow> bool" where
  "harmless seg \<longleftrightarrow>
     Buffer_str (seg_payload seg) = [] \<and> \<not> syn (seg_header seg) \<and> \<not> fin (seg_header seg)"

lemma tracks_eof_process: "tracks S d r \<Longrightarrow> tracks S d (StreamReassembler_eof_process r)"
  using StreamReassembler_wf_eof_process [of r]
  by (auto simp: tracks_def StreamReassembler_eof_process_def ByteStream_end_input_def)

lemma receives_harmless:
  assumes rc: "receives S isn c d rc" and seg: "harmless seg"
  shows "runs (TCPReceiver_segment_received rc seg) (\<lambda>rc'. receives S isn c d rc' \<and>
    tr_have_SYN rc' = tr_have_SYN rc \<and> stream_position rc' = stream_position rc)"
proof (cases "tr_have_SYN rc")
  case True
  let ?r = "StreamReassembler_eof_process (tr_reassembler rc)"
  let ?rc = "rc\<lparr>tr_reassembler := ?r\<rparr>"
  have push: "StreamReassembler_push_substring (tr_reassembler rc) [] i False = Inr ?r" for i
    by (simp add: StreamReassembler_push_substring_def Let_def)
  have step: "TCPReceiver_segment_received rc seg =
      Inr (if tr_have_FIN rc \<and> StreamReassembler_empty ?r
           then TCPReceiver_set_stream_out ?rc (ByteStream_end_input (TCPReceiver_stream_out ?rc)) else ?rc)"
    using seg True
    by (simp add: TCPReceiver_segment_received_def TCPReceiver_receive_payload_def Let_def harmless_def
        Buffer_copy_def push)
  have "receives S isn c d ?rc" "stream_position ?rc = stream_position rc"
    using rc tracks_eof_process [of S d "tr_reassembler rc"]
    by (auto simp: receives_def TCPReceiver_stream_out_def stream_position_def
        StreamReassembler_eof_process_def ByteStream_end_input_def)
  then show ?thesis
    unfolding step using receives_end_input [of S isn c d ?rc]
    by (auto simp: TCPReceiver_set_stream_out_def stream_position_def)
next
  case False
  then show ?thesis
    using assms by (simp add: TCPReceiver_segment_received_def Let_def harmless_def)
qed

lemma receives_read:
  assumes rc: "receives S isn c d rc" and n: "unat n \<le> length (bs_buffer (TCPReceiver_stream_out rc))"
    and S: "length S + unat c < 2 ^ 64"
  shows "receives S isn c (d @ snd (ByteStream_read (TCPReceiver_stream_out rc) n))
    (TCPReceiver_set_stream_out rc (fst (ByteStream_read (TCPReceiver_stream_out rc) n)))"
  using assms tracks_read [of S d "tr_reassembler rc" n]
  by (auto simp: receives_def TCPReceiver_set_stream_out_def TCPReceiver_stream_out_def stream_position_def
      ByteStream_read_def ByteStream_pop_output_def ByteStream_set_error_def Let_def split: if_splits)

text \<open>
  A run of the receiver: segments of the stream arrive in any order, any number of times, cut
  in any way, at most \<open>2 ^ 31 - 1\<close> bytes ahead or behind (always true of streams shorter than
  that), segments without payload, SYN and FIN arrive too, and the application reads in between.
\<close>

inductive receiving :: "bytes \<Rightarrow> wrapping_int32 \<Rightarrow> size_t \<Rightarrow> tcp_receiver \<Rightarrow> bytes \<Rightarrow> bool"
  for S :: bytes and isn :: wrapping_int32 and c :: size_t where
  start: "receiving S isn c (TCPReceiver_new c) []"
| segment: "receiving S isn c rc d \<Longrightarrow> segment_of S isn seg i \<Longrightarrow>
    i + 1 < stream_position rc + 2 ^ 31 \<Longrightarrow> stream_position rc < i + 1 + 2 ^ 31 \<Longrightarrow>
    TCPReceiver_segment_received rc seg = Inr rc' \<Longrightarrow> receiving S isn c rc' d"
| other: "receiving S isn c rc d \<Longrightarrow> harmless seg \<Longrightarrow>
    TCPReceiver_segment_received rc seg = Inr rc' \<Longrightarrow> receiving S isn c rc' d"
| read: "receiving S isn c rc d \<Longrightarrow> unat n \<le> length (bs_buffer (TCPReceiver_stream_out rc)) \<Longrightarrow>
    receiving S isn c
      (TCPReceiver_set_stream_out rc (fst (ByteStream_read (TCPReceiver_stream_out rc) n)))
      (d @ snd (ByteStream_read (TCPReceiver_stream_out rc) n))"

lemma receiving_invariant:
  assumes "receiving S isn c rc d" "c \<noteq> 0" "length S + unat c < 2 ^ 64" "length S + 2 ^ 32 < 2 ^ 64"
  shows "receives S isn c d rc"
  using assms(1)
proof (induction rule: receiving.induct)
  case start
  show ?case by (rule receives_new [OF assms(2)])
next
  case (segment rc d seg i rc')
  from receives_segment [OF segment.IH segment.hyps(2) assms(4) segment.hyps(3,4)] segment.hyps(5)
  show ?case by simp
next
  case (other rc d seg rc')
  from receives_harmless [OF other.IH other.hyps(2)] other.hyps(3) show ?case by simp
next
  case (read rc d n)
  then show ?case by (intro receives_read assms(3))
qed

text \<open>No segment takes a flag back: SYN, FIN, the end of the output stream and its error stay.\<close>

lemma assemble_flags:
  "bs_is_ended (fst (snd (snd (StreamReassembler_assemble start count out xs)))) = bs_is_ended out"
  "bs_error (fst (snd (snd (StreamReassembler_assemble start count out xs)))) = bs_error out"
  by (induction start count out xs rule: StreamReassembler_assemble.induct)
    (simp_all add: ByteStream_write_def Let_def)

lemma eof_process_flags:
  "bs_is_ended (sr_output r) \<Longrightarrow> bs_is_ended (sr_output (StreamReassembler_eof_process r))"
  "bs_error (sr_output (StreamReassembler_eof_process r)) = bs_error (sr_output r)"
  by (simp_all add: StreamReassembler_eof_process_def ByteStream_end_input_def)

lemma push_substring_flags:
  assumes "StreamReassembler_push_substring r x i e = Inr r'"
  shows "(bs_is_ended (sr_output r) \<longrightarrow> bs_is_ended (sr_output r')) \<and>
    bs_error (sr_output r') = bs_error (sr_output r)"
proof -
  have stage: "bs_is_ended (sr_output q) = bs_is_ended (sr_output r) \<and> bs_error (sr_output q) = bs_error (sr_output r)"
    if "StreamReassembler_stage r x i = Inr q" for r q
    using that by (auto simp: StreamReassembler_stage_def bindE_Inr_iff Let_def split_def assemble_flags)
  define r1 where "r1 = (if e then r\<lparr>sr_have_eof := True, sr_eof_index := i + sz x\<rparr> else r)"
  then have out: "sr_output r1 = sr_output r"
    by simp
  from assms consider "r' = StreamReassembler_eof_process r1"
    | q where "StreamReassembler_stage r1 x i = Inr q" "r' = StreamReassembler_eof_process q"
    by (auto simp: push_substring_stage Let_def bindE_Inr_iff simp flip: r1_def split: if_split_asm)
  then show ?thesis
    by cases (use stage [of r1] out in \<open>auto simp: eof_process_flags\<close>)
qed

definition flags_kept :: "tcp_receiver \<Rightarrow> tcp_receiver \<Rightarrow> bool" where
  "flags_kept rc rc' \<longleftrightarrow>
     (tr_have_SYN rc \<longrightarrow> tr_have_SYN rc') \<and> (tr_have_FIN rc \<longrightarrow> tr_have_FIN rc') \<and>
     (bs_is_ended (TCPReceiver_stream_out rc) \<longrightarrow> bs_is_ended (TCPReceiver_stream_out rc')) \<and>
     bs_error (TCPReceiver_stream_out rc') = bs_error (TCPReceiver_stream_out rc)"

lemma receive_payload_flags:
  assumes "TCPReceiver_receive_payload rc s seg = Inr rc'"
  shows "flags_kept rc rc'"
proof -
  from assms obtain r where
    r: "StreamReassembler_push_substring (tr_reassembler rc) (Buffer_copy (seg_payload seg))
      (unwrap s (tr_icn rc) (ByteStream_bytes_written (sr_output (tr_reassembler rc))) - 1) (fin (seg_header seg)) = Inr r"
    and rc': "rc' = (let rc = rc\<lparr>tr_reassembler := r\<rparr>;
        rc = (if fin (seg_header seg) then rc\<lparr>tr_have_FIN := True\<rparr> else rc)
      in if tr_have_FIN rc \<and> StreamReassembler_empty (tr_reassembler rc)
         then TCPReceiver_set_stream_out rc (ByteStream_end_input (TCPReceiver_stream_out rc)) else rc)"
    unfolding TCPReceiver_receive_payload_def bindE_Inr_iff Let_def by blast
  show ?thesis
    using push_substring_flags [OF r] unfolding rc'
    by (simp add: flags_kept_def TCPReceiver_stream_out_def TCPReceiver_set_stream_out_def
        ByteStream_end_input_def Let_def)
qed

lemma segment_received_flags:
  "TCPReceiver_segment_received rc seg = Inr rc' \<Longrightarrow> flags_kept rc rc'"
  by (auto simp: TCPReceiver_segment_received_def Let_def dest!: receive_payload_flags split: if_splits)
    (auto simp: flags_kept_def TCPReceiver_stream_out_def)

text \<open>\<open>ack_position\<close>: the absolute sequence number the receiver acknowledges, 0 before SYN.\<close>

definition ack_position :: "tcp_receiver \<Rightarrow> nat" where
  "ack_position rc =
     (if \<not> tr_have_SYN rc then 0
      else if tr_have_FIN rc \<and> ByteStream_input_ended (TCPReceiver_stream_out rc)
      then stream_position rc + 2 else stream_position rc + 1)"

lemma ack_position_mono:
  "flags_kept rc rc' \<Longrightarrow> stream_position rc \<le> stream_position rc' \<Longrightarrow> ack_position rc \<le> ack_position rc'"
  by (auto simp: flags_kept_def ack_position_def ByteStream_input_ended_def)

lemma receives_ackno:
  assumes "receives S isn c d rc"
  shows "TCPReceiver_ackno rc =
    (if \<not> tr_have_SYN rc then None
     else if tr_have_FIN rc \<and> ByteStream_input_ended (TCPReceiver_stream_out rc)
     then Some (wrap (word_of_nat (stream_position rc + 2)) isn)
     else Some (wrap (word_of_nat (stream_position rc + 1)) isn))"
proof -
  have "ByteStream_bytes_written (TCPReceiver_stream_out rc) = word_of_nat (stream_position rc)"
    by (simp flip: bytes_written_position [OF assms])
  then show ?thesis
    using assms by (auto simp: TCPReceiver_ackno_def receives_def Let_def add.commute split: if_splits)
qed

lemma receives_ack_position:
  "receives S isn c d rc \<Longrightarrow> TCPReceiver_ackno rc =
     (if ack_position rc = 0 then None else Some (wrap (word_of_nat (ack_position rc)) isn))"
  by (simp add: receives_ackno ack_position_def)

lemma receives_set_error:
  "receives S isn c d (TCPReceiver_set_stream_out rc (ByteStream_set_error (TCPReceiver_stream_out rc))) =
   receives S isn c d rc"
  by (simp add: receives_def tracks_def StreamReassembler_wf_def window_end_def stream_position_def
      TCPReceiver_set_stream_out_def TCPReceiver_stream_out_def ByteStream_wf_def ByteStream_set_error_def)

section \<open>Properties\<close>

text \<open>
  C29. No segment, whatever its flags, numbers and payload, makes the receiver throw or breaks
  its invariant.
\<close>

theorem TCPReceiver_never_throws:
  assumes "TCPReceiver_wf rc" "Buffer_wf (seg_payload seg)"
  shows "runs (TCPReceiver_segment_received rc seg) TCPReceiver_wf"
  using assms by (rule segment_received_runs)

theorem TCPReceiver_never_throws_witness:
  "runs (TCPReceiver_segment_received (TCPReceiver_new 4)
     (TCPSegment_default\<lparr>seg_payload := Buffer_new [1, 2]\<rparr>)) TCPReceiver_wf"
  by (rule TCPReceiver_never_throws) (simp_all add: TCPReceiver_wf_new fits_def)

text \<open>
  C5. While segments of a stream \<open>S\<close> arrive in any order and the application reads, what has
  been read followed by what is buffered is the prefix of \<open>S\<close> of length \<^verbatim>\<open>bytes_written\<close>; the
  window is the free room; the end of the stream is signalled only after a FIN, and at the
  latest when FIN and all bytes are there; and then the acknowledgment number covers SYN, all
  of \<open>S\<close> and FIN.
\<close>

theorem receiver_safety:
  assumes "receiving S isn c rc d" "c \<noteq> 0" "length S + unat c < 2 ^ 64" "length S + 2 ^ 32 < 2 ^ 64"
  shows "d @ bs_buffer (TCPReceiver_stream_out rc) =
      take (unat (ByteStream_bytes_written (TCPReceiver_stream_out rc))) S \<and>
    unat (TCPReceiver_window_size rc) + length (bs_buffer (TCPReceiver_stream_out rc)) = unat c \<and>
    (ByteStream_input_ended (TCPReceiver_stream_out rc) \<longrightarrow> tr_have_FIN rc) \<and>
    (tr_have_FIN rc \<and> d @ bs_buffer (TCPReceiver_stream_out rc) = S \<longrightarrow>
       ByteStream_input_ended (TCPReceiver_stream_out rc) \<and>
       TCPReceiver_ackno rc = Some (wrap (word_of_nat (length S + 2)) isn))"
proof -
  have inv: "receives S isn c d rc"
    by (rule receiving_invariant [OF assms])
  then have tr: "tracks S d (tr_reassembler rc)"
    by (simp add: receives_def)
  then have out: "d @ bs_buffer (TCPReceiver_stream_out rc) = take (stream_position rc) S"
    "stream_position rc \<le> length S" "length (bs_buffer (TCPReceiver_stream_out rc)) \<le> unat c"
    using inv StreamReassembler_wfD [of "tr_reassembler rc"]
    by (auto simp: tracks_def receives_def TCPReceiver_stream_out_def stream_position_def ByteStream_wf_def)
  have "stream_position rc = length S" if "take (stream_position rc) S = S"
    using that out(2) by (metis length_take min_absorb2)
  then show ?thesis
    using inv out unat_window_size [OF receives_wf [OF inv]]
    by (auto simp: bytes_written_position [OF inv] receives_ackno [OF inv] receives_def ByteStream_input_ended_def)
qed

theorem receiver_safety_witness:
  "\<exists>rc. receiving [1, 2] (WrappingInt32 0xffffffff) 4 rc [] \<and>
     bs_buffer (TCPReceiver_stream_out rc) = [1, 2] \<and>
     ByteStream_input_ended (TCPReceiver_stream_out rc) \<and>
     TCPReceiver_ackno rc = Some (WrappingInt32 3)"
proof -
  let ?seg = "\<lparr>seg_header = TCPHeader_default\<lparr>seqno := WrappingInt32 0xffffffff, syn := True, fin := True\<rparr>,
    seg_payload = Buffer_new [1, 2]\<rparr>"
  let ?isn = "WrappingInt32 0xffffffff"
  have "returns (TCPReceiver_segment_received (TCPReceiver_new 4) ?seg)"
    using segment_received_runs [of "TCPReceiver_new 4" ?seg]
    by (auto simp: TCPReceiver_wf_new fits_def runs_def)
  then obtain rc where rc: "TCPReceiver_segment_received (TCPReceiver_new 4) ?seg = Inr rc"
    by (rule returnsE)
  have "case_sum (\<lambda>_. False) (\<lambda>rc. bs_buffer (TCPReceiver_stream_out rc) = [1, 2] \<and> tr_have_FIN rc)
      (TCPReceiver_segment_received (TCPReceiver_new 4) ?seg)"
    by code_simp
  then have out: "bs_buffer (TCPReceiver_stream_out rc) = [1, 2]" "tr_have_FIN rc"
    by (simp_all add: rc)
  have "receiving [1, 2] ?isn 4 rc []"
    by (rule receiving.segment [OF receiving.start _ _ _ rc, where i = 0])
      (auto simp: segment_of_def substring_of_def fits_def stream_position_def TCPReceiver_new_def
        StreamReassembler_new_def)
  with receiver_safety [OF this] out show ?thesis
    by (auto simp: wrap_eq)
qed



text \<open>
  A FIN that overtakes the data ends the stream too early.  If a FIN segment without
  payload arrives while nothing is staged, the receiver ends its output stream at once and
  acknowledges one number beyond what it has received, although bytes before the FIN are
  still missing.
\<close>

theorem receiver_premature_end:
  assumes "receives S isn c d rc" "tr_have_SYN rc" "StreamReassembler_empty (tr_reassembler rc)"
    and "stream_position rc < length S" "length S + 1 < 2 ^ 31"
  shows "runs (TCPReceiver_segment_received rc
      \<lparr>seg_header = TCPHeader_default\<lparr>seqno := wrap (word_of_nat (length S + 1)) isn, fin := True\<rparr>,
       seg_payload = Buffer_default\<rparr>) (\<lambda>rc'.
    ByteStream_input_ended (TCPReceiver_stream_out rc') \<and>
    unat (ByteStream_bytes_written (TCPReceiver_stream_out rc')) < length S \<and>
    TCPReceiver_ackno rc' = Some (wrap (ByteStream_bytes_written (TCPReceiver_stream_out rc') + 2) isn))"
proof -
  let ?r = "tr_reassembler rc"
  have pos: "unat (ByteStream_bytes_written (TCPReceiver_stream_out rc)) < length S"
    using assms(4) by (simp add: bytes_written_position [OF assms(1)])
  have "unwrap (wrap (word_of_nat (length S + 1)) isn) isn
      (ByteStream_bytes_written (TCPReceiver_stream_out rc)) = word_of_nat (length S + 1)"
    by (rule unwrap_wrap_near) (use pos assms(5) in simp_all)
  then show ?thesis
    using assms(1-3) pos
    by (simp add: TCPReceiver_segment_received_def TCPReceiver_receive_payload_def Let_def Buffer_copy_def
        StreamReassembler_push_substring_def StreamReassembler_eof_process_def StreamReassembler_empty_def
        TCPReceiver_stream_out_def TCPReceiver_set_stream_out_def TCPReceiver_ackno_def receives_def
        TCPHeader_default_def ByteStream_end_input_def ByteStream_input_ended_def ByteStream_bytes_written_def)
qed

theorem receiver_premature_end_witness:
  "\<exists>rc. receives [7] (WrappingInt32 0) 4 [] rc \<and>
     runs (TCPReceiver_segment_received rc
        \<lparr>seg_header = TCPHeader_default\<lparr>seqno := WrappingInt32 2, fin := True\<rparr>, seg_payload = Buffer_default\<rparr>)
       (\<lambda>rc'. ByteStream_input_ended (TCPReceiver_stream_out rc') \<and>
          unat (ByteStream_bytes_written (TCPReceiver_stream_out rc')) < 1)"
proof -
  let ?rc = "(TCPReceiver_new 4)\<lparr>tr_have_SYN := True\<rparr>"
  have rc: "receives [7] (WrappingInt32 0) 4 [] ?rc"
    using receives_new [of 4 "[7]" "WrappingInt32 0"]
    by (simp add: receives_def TCPReceiver_stream_out_def stream_position_def) (simp add: TCPReceiver_new_def)
  have "StreamReassembler_empty (tr_reassembler ?rc)" "stream_position ?rc < length [7 :: u8]"
    by (simp_all add: StreamReassembler_empty_def TCPReceiver_new_def StreamReassembler_new_def stream_position_def)
  from receiver_premature_end [OF rc _ this] rc show ?thesis
    by (intro exI [of _ ?rc]) (auto simp: wrap_eq elim!: runs_mono)
qed

end
