(* ===== verification/Tcp_Sender.thy ===== *)
theory Tcp_Sender
  imports Tcp_Receiver
begin

text \<open>
  \<^verbatim>\<open>libsponge/tcp_sender.{hh,cc}\<close> and the constants of \<^verbatim>\<open>tcp_helpers/tcp_config.hh\<close>: the
  sending half of a TCP endpoint.  The \<^verbatim>\<open>while\<close> loop of \<^verbatim>\<open>fill_window\<close> is a partial function
  that is shown to return.  The invariant says that the tracked segments tile the sequence
  numbers in flight and that every segment queued carries the right bytes of the stream.
\<close>

section \<open>Configuration\<close>

definition TCPConfig_DEFAULT_CAPACITY :: size_t where
  "TCPConfig_DEFAULT_CAPACITY = 64000"

definition TCPConfig_MAX_PAYLOAD_SIZE :: size_t where
  "TCPConfig_MAX_PAYLOAD_SIZE = 1000"

definition TCPConfig_TIMEOUT_DFLT :: u16 where
  "TCPConfig_TIMEOUT_DFLT = 1000"

definition TCPConfig_MAX_RETX_ATTEMPTS :: u32 where
  "TCPConfig_MAX_RETX_ATTEMPTS = 8"

record tcp_config =
  rt_timeout :: u16
  recv_capacity :: size_t
  send_capacity :: size_t
  fixed_isn :: "wrapping_int32 option"

definition TCPConfig_default :: tcp_config where
  "TCPConfig_default =
     \<lparr>rt_timeout = TCPConfig_TIMEOUT_DFLT, recv_capacity = TCPConfig_DEFAULT_CAPACITY,
      send_capacity = TCPConfig_DEFAULT_CAPACITY, fixed_isn = None\<rparr>"

section \<open>State and operations\<close>

datatype sender_state = Closed | SynSent | SynAcked | SynAckedEof | FinSent | FinAcked

record tcp_sender =
  ts_isn :: wrapping_int32
  ts_segments_out :: "tcp_segment list"
  ts_initial_retransmission_timeout :: u32
  ts_stream :: byte_stream
  ts_next_seqno :: u64
  ts_next_ackno :: u64
  ts_tracking_segments :: "tcp_segment list"
  ts_tracked_count :: u64
  ts_timer :: u64
  ts_retransmission_timeout :: u64
  ts_window_size :: u16
  ts_remain_window_size :: u16
  ts_consecutive_time_out_count :: u16

text \<open>\<open>random_isn\<close> is what \<^verbatim>\<open>random_device\<close> returns.\<close>

definition TCPSender_new :: "size_t \<Rightarrow> u16 \<Rightarrow> wrapping_int32 option \<Rightarrow> u32 \<Rightarrow> tcp_sender" where
  "TCPSender_new capacity retx_timeout fixed random_isn =
     \<lparr>ts_isn = (case fixed of Some isn \<Rightarrow> isn | None \<Rightarrow> WrappingInt32 random_isn),
      ts_segments_out = [], ts_initial_retransmission_timeout = ucast retx_timeout,
      ts_stream = ByteStream_new capacity, ts_next_seqno = 0, ts_next_ackno = 0,
      ts_tracking_segments = [], ts_tracked_count = 0, ts_timer = 0,
      ts_retransmission_timeout = ucast retx_timeout, ts_window_size = 1,
      ts_remain_window_size = 1, ts_consecutive_time_out_count = 0\<rparr>"

definition TCPSender_bytes_in_flight :: "tcp_sender \<Rightarrow> u64" where
  "TCPSender_bytes_in_flight sn = ts_tracked_count sn"

definition TCPSender_next_seqno_absolute :: "tcp_sender \<Rightarrow> u64" where
  "TCPSender_next_seqno_absolute sn = ts_next_seqno sn"

definition TCPSender_next_seqno :: "tcp_sender \<Rightarrow> wrapping_int32" where
  "TCPSender_next_seqno sn = wrap (ts_next_seqno sn) (ts_isn sn)"

definition TCPSender_consecutive_retransmissions :: "tcp_sender \<Rightarrow> u32" where
  "TCPSender_consecutive_retransmissions sn = ucast (ts_consecutive_time_out_count sn)"

definition TCPSender_current_state :: "tcp_sender \<Rightarrow> sender_state" where
  "TCPSender_current_state sn =
     (let next = TCPSender_next_seqno_absolute sn; in_flight = TCPSender_bytes_in_flight sn;
          stream = ts_stream sn
      in if next = 0 then Closed
         else if next > 0 \<and> next = in_flight then SynSent
         else if next > in_flight \<and> \<not> ByteStream_eof stream then SynAcked
         else if ByteStream_eof stream \<and> next < ByteStream_bytes_written stream + 2 then SynAckedEof
         else if ByteStream_eof stream \<and> next = ByteStream_bytes_written stream + 2 \<and> in_flight > 0
         then FinSent
         else if ByteStream_eof stream \<and> next = ByteStream_bytes_written stream + 2 \<and> in_flight = 0
         then FinAcked
         else Closed)"

text \<open>\<^verbatim>\<open>fill_window\<close>: the SYN, the condition and the body of the loop, the loop, the switch.\<close>

definition TCPSender_send_syn :: "tcp_sender \<Rightarrow> tcp_sender" where
  "TCPSender_send_syn sn0 =
     (let sn = sn0\<lparr>ts_next_seqno := ts_next_seqno sn0 + 1\<rparr>;
          header = TCPHeader_default\<lparr>seqno := ts_isn sn, syn := True, ackno := TCPSender_next_seqno sn\<rparr>;
          segment = TCPSegment_default\<lparr>seg_header := header\<rparr>
      in sn\<lparr>ts_segments_out := ts_segments_out sn @ [segment],
            ts_tracking_segments := segment # ts_tracking_segments sn,
            ts_tracked_count := ts_tracked_count sn + 1,
            ts_timer := 0\<rparr>)"

definition TCPSender_can_send :: "tcp_sender \<Rightarrow> bool" where
  "TCPSender_can_send sn \<longleftrightarrow>
     ts_next_ackno sn + ucast (ts_remain_window_size sn) > TCPSender_next_seqno_absolute sn \<and>
     (\<not> ByteStream_buffer_empty (ts_stream sn) \<or> TCPSender_current_state sn = SynAckedEof)"

definition TCPSender_read_size :: "tcp_sender \<Rightarrow> u16" where
  "TCPSender_read_size sn =
     (let available = ts_next_ackno sn + ucast (ts_remain_window_size sn) - TCPSender_next_seqno_absolute sn
      in ucast (min (if available > ByteStream_buffer_size (ts_stream sn)
                     then ByteStream_buffer_size (ts_stream sn) else available)
                    TCPConfig_MAX_PAYLOAD_SIZE))"

definition TCPSender_send_segment :: "tcp_sender \<Rightarrow> tcp_sender" where
  "TCPSender_send_segment sn =
     (let read_size = TCPSender_read_size sn;
          (stream, payload) =
            (if read_size \<noteq> 0
             then (let (stream, str) = ByteStream_read (ts_stream sn) (ucast read_size)
                   in (stream, Buffer_new str))
             else (ts_stream sn, Buffer_default));
          finish = ts_remain_window_size sn > read_size \<and> ByteStream_eof stream;
          header = TCPHeader_default\<lparr>seqno := TCPSender_next_seqno sn, fin := finish, ack := finish\<rparr>;
          len = TCPSegment_length_in_sequence_space \<lparr>seg_header = header, seg_payload = payload\<rparr>;
          segment = \<lparr>seg_header = header\<lparr>ackno := wrapping_add (seqno header) (ucast len)\<rparr>,
                     seg_payload = payload\<rparr>
      in sn\<lparr>ts_stream := stream,
            ts_segments_out := ts_segments_out sn @ [segment],
            ts_tracking_segments := segment # ts_tracking_segments sn,
            ts_next_seqno := ts_next_seqno sn + len,
            ts_tracked_count := ts_tracked_count sn + len,
            ts_remain_window_size :=
              (if ts_remain_window_size sn \<noteq> ts_window_size sn then 0 else ts_remain_window_size sn)\<rparr>)"

partial_function (option) TCPSender_fill_loop :: "tcp_sender \<Rightarrow> tcp_sender option" where
  [code]: "TCPSender_fill_loop sn =
     (if TCPSender_can_send sn then TCPSender_fill_loop (TCPSender_send_segment sn) else Some sn)"

definition TCPSender_fill_window :: "tcp_sender \<Rightarrow> tcp_sender outcome" where
  "TCPSender_fill_window sn =
     (case TCPSender_current_state sn of
        Closed \<Rightarrow> Inr (TCPSender_send_syn sn)
      | SynSent \<Rightarrow> Inr sn
      | _ \<Rightarrow> (case TCPSender_fill_loop sn of Some sn' \<Rightarrow> Inr sn' | None \<Rightarrow> Inl Diverges))"

text \<open>
  The loop of \<^verbatim>\<open>ack_received\<close>, newest segment first: the segments that stay tracked, their
  total length, and whether a segment that ends at \<^verbatim>\<open>ackno\<close> was found.
\<close>

fun TCPSender_ack_scan ::
  "wrapping_int32 \<Rightarrow> tcp_segment list \<Rightarrow> u64 \<Rightarrow> tcp_segment list \<times> u64 \<times> bool" where
  "TCPSender_ack_scan ackno' [] remain = ([], remain, False)"
| "TCPSender_ack_scan ackno' (seg # segs) remain =
     (if ackno (seg_header seg) = ackno' then ([], remain, True)
      else let (kept, remain', found) =
             TCPSender_ack_scan ackno' segs (remain + TCPSegment_length_in_sequence_space seg)
           in (seg # kept, remain', found))"

definition TCPSender_ack_received :: "tcp_sender \<Rightarrow> wrapping_int32 \<Rightarrow> u16 \<Rightarrow> tcp_sender" where
  "TCPSender_ack_received sn0 ackno' window_size =
     (let abs = unwrap ackno' (ts_isn sn0) (ts_next_ackno sn0);
          sn = (if abs \<ge> ts_next_ackno sn0 \<and> abs \<le> ts_next_seqno sn0
                then sn0\<lparr>ts_window_size := window_size\<rparr> else sn0);
          (kept, remain_tracked_length, found) = TCPSender_ack_scan ackno' (ts_tracking_segments sn) 0;
          sn = (if found
                then sn\<lparr>ts_next_ackno := (if abs > ts_next_ackno sn then abs else ts_next_ackno sn),
                        ts_tracking_segments := kept,
                        ts_consecutive_time_out_count := 0,
                        ts_timer := 0,
                        ts_retransmission_timeout := ucast (ts_initial_retransmission_timeout sn)\<rparr>
                else sn)
      in if ts_tracked_count sn = remain_tracked_length \<and> ts_tracking_segments sn \<noteq> [] \<and>
            raw_value (seqno (seg_header (last (ts_tracking_segments sn)))) < raw_value ackno'
         then sn
         else let sn = sn\<lparr>ts_tracked_count := remain_tracked_length\<rparr>
              in sn\<lparr>ts_remain_window_size :=
                     (if ts_window_size sn = 0 \<and> ts_tracked_count sn = 0 then 1 else ts_window_size sn)\<rparr>)"

definition TCPSender_tick :: "tcp_sender \<Rightarrow> size_t \<Rightarrow> tcp_sender outcome" where
  "TCPSender_tick sn0 ms_since_last_tick =
     (let sn = (if TCPSender_bytes_in_flight sn0 \<noteq> 0
                then sn0\<lparr>ts_timer := ts_timer sn0 + ms_since_last_tick\<rparr> else sn0)
      in if ts_timer sn \<ge> ts_retransmission_timeout sn \<and> TCPSender_bytes_in_flight sn \<noteq> 0
         then if ts_tracking_segments sn = [] then Inl (Undefined ''list::back'')
              else Inr (sn\<lparr>ts_segments_out := ts_segments_out sn @ [last (ts_tracking_segments sn)],
                           ts_timer := 0,
                           ts_retransmission_timeout :=
                             (if ts_window_size sn \<noteq> 0
                              then ts_retransmission_timeout sn + ts_retransmission_timeout sn
                              else ts_retransmission_timeout sn),
                           ts_consecutive_time_out_count := ts_consecutive_time_out_count sn + 1\<rparr>)
         else Inr sn)"

definition TCPSender_send_empty_segment :: "tcp_sender \<Rightarrow> tcp_sender" where
  "TCPSender_send_empty_segment sn =
     (let header = TCPHeader_default\<lparr>seqno := TCPSender_next_seqno sn, ackno := TCPSender_next_seqno sn\<rparr>
      in sn\<lparr>ts_segments_out := ts_segments_out sn @ [TCPSegment_default\<lparr>seg_header := header\<rparr>]\<rparr>)"

section \<open>The invariant\<close>

text \<open>\<open>seg_at S isn seg a b\<close>: \<open>seg\<close> carries the absolute sequence numbers from \<open>a\<close> up to \<open>b\<close> of \<open>S\<close>.\<close>

definition seg_at :: "bytes \<Rightarrow> wrapping_int32 \<Rightarrow> tcp_segment \<Rightarrow> nat \<Rightarrow> nat \<Rightarrow> bool" where
  "seg_at S isn seg a b \<longleftrightarrow>
     seqno (seg_header seg) = wrap (word_of_nat a) isn \<and> ackno (seg_header seg) = wrap (word_of_nat b) isn \<and>
     a < b \<and> unat (TCPSegment_length_in_sequence_space seg) = b - a \<and> Buffer_wf (seg_payload seg) \<and>
     (if syn (seg_header seg)
      then a = 0 \<and> b = 1 \<and> \<not> fin (seg_header seg) \<and> Buffer_str (seg_payload seg) = []
      else 0 < a \<and> substring_of S (Buffer_str (seg_payload seg)) (a - 1) (fin (seg_header seg)))"

definition carries :: "bytes \<Rightarrow> wrapping_int32 \<Rightarrow> tcp_segment \<Rightarrow> bool" where
  "carries S isn seg \<longleftrightarrow> harmless seg \<or> (\<exists>i. segment_of S isn seg i)"

lemma seg_at_segment_of: "seg_at S isn seg a b \<Longrightarrow> segment_of S isn seg (a - 1)"
  by (auto simp: seg_at_def segment_of_def substring_of_def wrap_eq split: if_splits)

lemma seg_at_carries: "seg_at S isn seg a b \<Longrightarrow> carries S isn seg"
  unfolding carries_def by (blast dest: seg_at_segment_of)

text \<open>The tracked segments, newest first, tile the sequence numbers from \<open>lo\<close> to \<open>hi\<close>.\<close>

fun tracked_chain :: "bytes \<Rightarrow> wrapping_int32 \<Rightarrow> nat \<Rightarrow> tcp_segment list \<Rightarrow> nat \<Rightarrow> bool" where
  "tracked_chain S isn lo [] hi \<longleftrightarrow> lo = hi"
| "tracked_chain S isn lo (seg # segs) hi \<longleftrightarrow>
     (\<exists>mid. seg_at S isn seg mid hi \<and> tracked_chain S isn lo segs mid)"

lemma tracked_chain_le: "tracked_chain S isn lo segs hi \<Longrightarrow> lo \<le> hi"
  by (induction segs arbitrary: hi) (fastforce simp: seg_at_def)+

lemma tracked_chain_nonempty: "tracked_chain S isn lo segs hi \<Longrightarrow> lo < hi \<Longrightarrow> segs \<noteq> []"
  by auto

lemma tracked_chain_last:
  "tracked_chain S isn lo segs hi \<Longrightarrow> segs \<noteq> [] \<Longrightarrow> \<exists>b. seg_at S isn (last segs) lo b \<and> b \<le> hi"
proof (induction segs arbitrary: hi)
  case (Cons seg segs)
  then obtain mid where mid: "seg_at S isn seg mid hi" "tracked_chain S isn lo segs mid"
    by auto
  then have "mid < hi"
    by (simp add: seg_at_def)
  show ?case
  proof (cases "segs = []")
    case True
    then show ?thesis using mid by auto
  next
    case False
    then show ?thesis using Cons.IH [OF mid(2)] \<open>mid < hi\<close> by force
  qed
qed simp

text \<open>
  \<open>S\<close> is the whole stream the application will write.  \<open>W\<close> bytes of it have been written, \<open>B\<close>
  are buffered, so \<open>W - B\<close> have been cut into segments.
\<close>

definition sends :: "bytes \<Rightarrow> wrapping_int32 \<Rightarrow> tcp_sender \<Rightarrow> bool" where
  "sends S isn sn \<longleftrightarrow>
     (let st = ts_stream sn; W = unat (bs_written_length st); B = length (bs_buffer st);
          n = unat (ts_next_seqno sn); a = unat (ts_next_ackno sn)
      in ts_isn sn = isn \<and> ByteStream_wf st \<and> B \<le> W \<and> W \<le> length S \<and>
         take B (drop (W - B) S) = bs_buffer st \<and> (bs_is_ended st \<longrightarrow> W = length S) \<and>
         (n = 0 \<and> W = B \<or> n = W - B + 1 \<or> n = W + 2 \<and> B = 0 \<and> bs_is_ended st) \<and>
         a \<le> n \<and> n \<le> a + 65536 \<and> unat (ts_tracked_count sn) = n - a \<and>
         tracked_chain S isn a (ts_tracking_segments sn) n \<and>
         (\<forall>seg \<in> set (ts_segments_out sn). carries S isn seg))"

lemma sendsD:
  assumes "sends S isn sn"
  shows "ts_isn sn = isn" "ByteStream_wf (ts_stream sn)"
    "length (bs_buffer (ts_stream sn)) \<le> unat (bs_written_length (ts_stream sn))"
    "unat (bs_written_length (ts_stream sn)) \<le> length S"
    "unat (ts_next_ackno sn) \<le> unat (ts_next_seqno sn)"
    "unat (ts_next_seqno sn) \<le> unat (ts_next_ackno sn) + 65536"
    "unat (ts_tracked_count sn) = unat (ts_next_seqno sn) - unat (ts_next_ackno sn)"
    "tracked_chain S isn (unat (ts_next_ackno sn)) (ts_tracking_segments sn) (unat (ts_next_seqno sn))"
    "\<forall>seg \<in> set (ts_segments_out sn). carries S isn seg"
    "unat (ts_next_seqno sn) \<le> unat (bs_written_length (ts_stream sn)) + 2"
  using assms by (auto simp: sends_def Let_def)

lemma sends_new:
  "isn = (case fixed of Some i \<Rightarrow> i | None \<Rightarrow> WrappingInt32 random_isn) \<Longrightarrow>
   sends S isn (TCPSender_new c retx fixed random_isn)"
  by (simp add: sends_def TCPSender_new_def) (simp add: ByteStream_new_def)

lemma sends_send_syn:
  assumes "sends S isn sn" "ts_next_seqno sn = 0"
  shows "sends S isn (TCPSender_send_syn sn)"
proof -
  let ?seg = "TCPSegment_default\<lparr>seg_header := TCPHeader_default\<lparr>seqno := isn, syn := True, ackno := wrap 1 isn\<rparr>\<rparr>"
  have seg: "seg_at S isn ?seg 0 1"
    by (simp add: seg_at_def TCPSegment_length_in_sequence_space_def TCPSegment_default_def
        TCPHeader_default_def wrap_eq)
  have "unat (ts_next_ackno sn) = 0" "unat (ts_tracked_count sn) = 0"
    using sendsD(5,7) [OF assms(1)] assms(2) by simp_all
  then have "ts_tracked_count sn = 0" "ts_next_ackno sn = 0"
    by (simp_all add: unat_eq_0)
  then show ?thesis
    using assms seg seg_at_carries [OF seg]
    by (auto simp: sends_def Let_def TCPSender_send_syn_def TCPSender_next_seqno_def intro!: exI [of _ 0])
qed

section \<open>Filling the window\<close>

text \<open>The numbers of one iteration of the loop.\<close>

lemma unat_window_edge:
  assumes "sends S isn sn" "length S + 2 ^ 33 < 2 ^ 64"
  shows "unat (ts_next_ackno sn + ucast (ts_remain_window_size sn)) =
    unat (ts_next_ackno sn) + unat (ts_remain_window_size sn)"
proof -
  have w: "unat (ucast (ts_remain_window_size sn) :: u64) = unat (ts_remain_window_size sn)"
    "unat (ts_remain_window_size sn) < 65536"
    using unsigned_less [of "ts_remain_window_size sn", where ?'a = nat]
    by (simp_all add: unsigned_ucast_eq take_bit_nat_eq_self)
  have "unat (ts_next_ackno sn) + unat (ucast (ts_remain_window_size sn) :: u64) < 2 ^ LENGTH(64)"
    using w sendsD(4,5,10) [OF assms(1)] assms(2) by simp
  then show ?thesis
    by (simp only: unat_add_nowrap w)
qed

lemma can_send_room:
  assumes "sends S isn sn" "length S + 2 ^ 33 < 2 ^ 64" "TCPSender_can_send sn"
  shows "unat (ts_next_seqno sn) < unat (ts_next_ackno sn) + unat (ts_remain_window_size sn)"
    and "unat (ts_next_ackno sn + ucast (ts_remain_window_size sn) - TCPSender_next_seqno_absolute sn) =
      unat (ts_next_ackno sn) + unat (ts_remain_window_size sn) - unat (ts_next_seqno sn)"
proof -
  note edge = unat_window_edge [OF assms(1,2)]
  then show room: "unat (ts_next_seqno sn) < unat (ts_next_ackno sn) + unat (ts_remain_window_size sn)"
    using assms(3) by (simp add: TCPSender_can_send_def TCPSender_next_seqno_absolute_def word_less_nat_alt)
  then show "unat (ts_next_ackno sn + ucast (ts_remain_window_size sn) - TCPSender_next_seqno_absolute sn) =
      unat (ts_next_ackno sn) + unat (ts_remain_window_size sn) - unat (ts_next_seqno sn)"
    using edge by (subst unat_sub_nowrap) (simp_all add: TCPSender_next_seqno_absolute_def)
qed

lemma read_size_eq:
  assumes "sends S isn sn" "length S + 2 ^ 33 < 2 ^ 64" "TCPSender_can_send sn"
  shows "unat (TCPSender_read_size sn) =
    min (min (unat (ts_next_ackno sn) + unat (ts_remain_window_size sn) - unat (ts_next_seqno sn))
          (length (bs_buffer (ts_stream sn)))) 1000"
proof -
  let ?avail = "ts_next_ackno sn + ucast (ts_remain_window_size sn) - TCPSender_next_seqno_absolute sn"
  let ?m = "min (if ?avail > ByteStream_buffer_size (ts_stream sn)
      then ByteStream_buffer_size (ts_stream sn) else ?avail) TCPConfig_MAX_PAYLOAD_SIZE"
  have "(if b < a then b else a) = min a b" for a b :: u64
    by (auto simp: min_def)
  then have "unat ?m = min (min (unat ?avail) (length (bs_buffer (ts_stream sn)))) 1000"
    using sendsD(2) [OF assms(1)] by (simp add: TCPConfig_MAX_PAYLOAD_SIZE_def)
  then show ?thesis
    unfolding TCPSender_read_size_def Let_def can_send_room(2) [OF assms, symmetric]
    by (simp add: unsigned_ucast_eq take_bit_nat_eq_self)
qed

text \<open>One iteration, with the stream read folded into one update of \<open>k\<close> bytes.\<close>

definition data_segment :: "tcp_sender \<Rightarrow> bool \<Rightarrow> u64 \<Rightarrow> buffer \<Rightarrow> tcp_segment" where
  "data_segment sn f len pl =
     \<lparr>seg_header = TCPHeader_default\<lparr>seqno := TCPSender_next_seqno sn, fin := f, ack := f,
        ackno := wrapping_add (TCPSender_next_seqno sn) (ucast len)\<rparr>,
      seg_payload = pl\<rparr>"

definition after_send :: "tcp_sender \<Rightarrow> nat \<Rightarrow> bool \<Rightarrow> u64 \<Rightarrow> buffer \<Rightarrow> tcp_sender" where
  "after_send sn k f len pl =
     sn\<lparr>ts_stream := (ts_stream sn)\<lparr>bs_buffer := drop k (bs_buffer (ts_stream sn))\<rparr>,
        ts_segments_out := ts_segments_out sn @ [data_segment sn f len pl],
        ts_tracking_segments := data_segment sn f len pl # ts_tracking_segments sn,
        ts_next_seqno := ts_next_seqno sn + len,
        ts_tracked_count := ts_tracked_count sn + len,
        ts_remain_window_size :=
          (if ts_remain_window_size sn \<noteq> ts_window_size sn then 0 else ts_remain_window_size sn)\<rparr>"

definition finishes :: "tcp_sender \<Rightarrow> bool" where
  "finishes sn \<longleftrightarrow>
     unat (TCPSender_read_size sn) < unat (ts_remain_window_size sn) \<and> bs_is_ended (ts_stream sn) \<and>
     length (bs_buffer (ts_stream sn)) \<le> unat (TCPSender_read_size sn)"

lemma send_segment_eq:
  fixes sn :: tcp_sender
  defines "k \<equiv> unat (TCPSender_read_size sn)" and "buf \<equiv> bs_buffer (ts_stream sn)"
  assumes wf: "ByteStream_wf (ts_stream sn)" and le: "k \<le> length buf"
  obtains pl len where "Buffer_wf pl" "Buffer_str pl = take k buf"
    "unat (len :: u64) = k + (if finishes sn then 1 else 0)"
    "TCPSender_send_segment sn = after_send sn k (finishes sn) len pl"
proof -
  define pl where "pl = (if TCPSender_read_size sn \<noteq> 0 then Buffer_new (take k buf) else Buffer_default)"
  define len where "len = (word_of_nat (k + (if finishes sn then 1 else 0)) :: u64)"
  let ?st = "(ts_stream sn)\<lparr>bs_buffer := drop k buf\<rparr>"
  have k: "unat (ucast (TCPSender_read_size sn) :: size_t) = k" "k < 65536"
    using unsigned_less [of "TCPSender_read_size sn", where ?'a = nat]
    by (simp_all add: k_def unsigned_ucast_eq take_bit_nat_eq_self)
  have zero: "k = 0" if "TCPSender_read_size sn = 0"
    using that by (simp add: k_def)
  have read: "(if TCPSender_read_size sn \<noteq> 0
      then (let (stream, str) = ByteStream_read (ts_stream sn) (ucast (TCPSender_read_size sn))
            in (stream, Buffer_new str))
      else (ts_stream sn, Buffer_default)) = (?st, pl)"
    using wf le k(1) zero
    by (simp add: ByteStream_read_def ByteStream_peek_output_def ByteStream_pop_output_def
        word_less_nat_alt pl_def buf_def)
  have fin: "(ts_remain_window_size sn > TCPSender_read_size sn \<and> ByteStream_eof ?st) = finishes sn"
    by (auto simp: finishes_def k_def buf_def word_less_nat_alt ByteStream_eof_def
        ByteStream_input_ended_def ByteStream_buffer_empty_def)
  have pl: "Buffer_wf pl" "Buffer_str pl = take k buf"
    using wf zero by (auto simp: pl_def buf_def)
  have lenseq: "TCPSegment_length_in_sequence_space \<lparr>seg_header = TCPHeader_default
      \<lparr>seqno := x, fin := finishes sn, ack := finishes sn\<rparr>, seg_payload = pl\<rparr> = len" for x
    using pl le by (simp add: TCPSegment_length_in_sequence_space_def TCPHeader_default_def len_def sz_def)
  have len: "unat len = k + (if finishes sn then 1 else 0)"
    unfolding len_def using k(2) by (intro unat_of_nat_eq) simp
  have "TCPSender_send_segment sn = after_send sn k (finishes sn) len pl"
    unfolding TCPSender_send_segment_def Let_def read [unfolded Let_def]
    by (simp only: prod.case fin lenseq) (simp add: TCPHeader_default_def after_send_def data_segment_def buf_def)
  with pl len show thesis by (rule that)
qed

text \<open>Each iteration sends something, and keeps the invariant.\<close>

lemma wrapping_add_wrap: "wrapping_add (wrap a isn) (ucast b) = wrap (a + b) isn"
  by (simp add: wrap_add)

lemma can_send_position:
  assumes "sends S isn sn" "length S + 2 ^ 33 < 2 ^ 64" "TCPSender_can_send sn" "ts_next_seqno sn \<noteq> 0"
  shows "unat (ts_next_seqno sn) =
      unat (bs_written_length (ts_stream sn)) - length (bs_buffer (ts_stream sn)) + 1"
    and "bs_buffer (ts_stream sn) = [] \<Longrightarrow> bs_is_ended (ts_stream sn)"
proof -
  let ?st = "ts_stream sn"
  have "unat (bs_written_length ?st + 2) = unat (bs_written_length ?st) + 2"
    using sendsD(4) [OF assms(1)] assms(2) by (subst unat_add_nowrap) simp_all
  then have eof: "bs_buffer ?st = [] \<Longrightarrow> unat (ts_next_seqno sn) < unat (bs_written_length ?st) + 2 \<and>
      bs_is_ended ?st"
    using assms(3)
    by (auto simp: TCPSender_can_send_def TCPSender_current_state_def ByteStream_buffer_empty_def Let_def
        ByteStream_bytes_written_def ByteStream_eof_def ByteStream_input_ended_def word_less_nat_alt
        TCPSender_next_seqno_absolute_def split: if_splits)
  then show "bs_buffer ?st = [] \<Longrightarrow> bs_is_ended ?st"
    by simp
  have "unat (ts_next_seqno sn) \<noteq> 0"
    using assms(4) by (simp add: unat_eq_0)
  with eof show "unat (ts_next_seqno sn) = unat (bs_written_length ?st) - length (bs_buffer ?st) + 1"
    using assms(1) by (auto simp: sends_def Let_def)
qed

lemma sent_seg_at:
  fixes st :: byte_stream and n len :: u64
  defines "W \<equiv> unat (bs_written_length st)" and "B \<equiv> length (bs_buffer st)"
  assumes st: "B \<le> W" "W \<le> length S" "take B (drop (W - B) S) = bs_buffer st" "bs_is_ended st \<longrightarrow> W = length S"
    and n: "unat n = W - B + 1" and pl: "Buffer_wf pl" "Buffer_str pl = take k (bs_buffer st)" "k \<le> B"
    and f: "f \<longrightarrow> k = B \<and> bs_is_ended st" and len: "unat len = k + (if f then 1 else 0)" "0 < unat len"
  shows "seg_at S isn \<lparr>seg_header = TCPHeader_default\<lparr>seqno := wrap n isn, fin := f, ack := f,
      ackno := wrapping_add (wrap n isn) (ucast len)\<rparr>, seg_payload = pl\<rparr> (unat n) (unat n + unat len)"
proof -
  have x: "Buffer_str pl = take k (drop (W - B) S)" "length (take k (drop (W - B) S)) = k"
    using st(1,2) pl(2,3) by (simp_all add: st(3) [symmetric] min_absorb1)
  have seq: "word_of_nat (unat n) = n" "word_of_nat (unat n + unat len) = n + len"
    by simp_all
  have fits: "fits (Buffer_str pl)"
    using pl(1) by simp
  have "substring_of S (Buffer_str pl) (unat n - 1) f"
    using st n f pl(3) unfolding substring_of_def x(1) x(2) by simp
  moreover have "unat (sz (Buffer_str pl) + (if f then 1 else 0)) = unat len"
  proof -
    have "unat (sz (Buffer_str pl)) = k"
      using unat_sz [OF fits] x by simp
    then show ?thesis
      using len unat_lt64 [of len] by (cases f) (simp_all add: unat_add_nowrap)
  qed
  moreover have "0 < unat n"
    using n by simp
  ultimately show ?thesis
    using pl(1) len(2)
    by (simp add: seg_at_def TCPHeader_default_def TCPSegment_length_in_sequence_space_def wrapping_add_wrap seq
        del: of_nat_add)
qed

lemma sends_after_send:
  fixes sn :: tcp_sender
  defines "k \<equiv> unat (TCPSender_read_size sn)" and "st \<equiv> ts_stream sn"
  assumes inv: "sends S isn sn" and S: "length S + 2 ^ 33 < 2 ^ 64"
    and n: "unat (ts_next_seqno sn) = unat (bs_written_length st) - length (bs_buffer st) + 1"
    and k: "k \<le> length (bs_buffer st)" and pos: "0 < unat len"
    and pl: "Buffer_wf pl" "Buffer_str pl = take k (bs_buffer st)"
    and len: "unat len = k + (if finishes sn then 1 else 0)"
    and window: "unat (ts_next_seqno sn) + unat len \<le> unat (ts_next_ackno sn) + 65536"
  shows "sends S isn (after_send sn k (finishes sn) len pl)"
proof -
  let ?sn = "after_send sn k (finishes sn) len pl"
  note inv' = inv [unfolded sends_def Let_def, folded st_def]
  have f: "finishes sn \<Longrightarrow> k = length (bs_buffer st) \<and> bs_is_ended st"
    using k by (simp add: finishes_def k_def st_def)
  have seg: "seg_at S isn (data_segment sn (finishes sn) len pl) (unat (ts_next_seqno sn))
      (unat (ts_next_seqno sn) + unat len)"
    using sent_seg_at [of st S "ts_next_seqno sn" pl k "finishes sn" len isn] inv' n pl k f len pos
    by (simp add: data_segment_def TCPSender_next_seqno_def)
  have add: "unat (ts_next_seqno sn + len) = unat (ts_next_seqno sn) + unat len"
    "unat (ts_tracked_count sn + len) = unat (ts_tracked_count sn) + unat len"
    using sendsD(4,5,7,10) [OF inv] window S by (subst unat_add_nowrap; simp)+
  have buf: "drop k (bs_buffer st) = take (length (bs_buffer st) - k)
      (drop (unat (bs_written_length st) - (length (bs_buffer st) - k)) S)"
  proof -
    have "drop k (bs_buffer st) = drop k (take (length (bs_buffer st))
        (drop (unat (bs_written_length st) - length (bs_buffer st)) S))"
      using inv' by (simp only:)
    then show ?thesis
      using sendsD(3) [OF inv] k unfolding st_def by (simp add: drop_take add.commute)
  qed
  have "ByteStream_wf (st\<lparr>bs_buffer := drop k (bs_buffer st)\<rparr>)"
    using sendsD(2) [OF inv] by (auto simp: ByteStream_wf_def st_def)
  moreover have "unat (ts_next_seqno sn) + unat len =
        unat (bs_written_length st) - (length (bs_buffer st) - k) + 1 \<or>
      unat (ts_next_seqno sn) + unat len = unat (bs_written_length st) + 2 \<and>
        length (bs_buffer st) - k = 0 \<and> bs_is_ended st"
    using n len f inv' k by (cases "finishes sn") auto
  moreover have "tracked_chain S isn (unat (ts_next_ackno sn))
      (data_segment sn (finishes sn) len pl # ts_tracking_segments sn) (unat (ts_next_seqno sn) + unat len)"
    using seg sendsD(8) [OF inv] by auto
  moreover have "length (bs_buffer st) - k \<le> unat (bs_written_length st)"
    using sendsD(3) [OF inv] by (simp add: st_def)
  ultimately show ?thesis
    using sendsD [OF inv] inv' seg_at_carries [OF seg] window
    unfolding sends_def Let_def after_send_def
    by (simp add: add buf [symmetric] flip: st_def del: tracked_chain.simps)
qed

lemma sends_send_segment:
  assumes inv: "sends S isn sn" and S: "length S + 2 ^ 33 < 2 ^ 64" and can: "TCPSender_can_send sn"
    and syn: "ts_next_seqno sn \<noteq> 0"
  obtains k len pl where "TCPSender_send_segment sn = after_send sn k (finishes sn) len pl"
    "sends S isn (TCPSender_send_segment sn)" "0 < unat len" "unat len = k + (if finishes sn then 1 else 0)"
    "unat (ts_next_seqno sn + len) = unat (ts_next_seqno sn) + unat len"
    "unat (ts_next_seqno sn) + k \<le> unat (ts_next_ackno sn) + unat (ts_remain_window_size sn)" "k \<le> 1000"
    "k = unat (TCPSender_read_size sn)" "k \<le> length (bs_buffer (ts_stream sn))"
proof -
  define k where "k = unat (TCPSender_read_size sn)"
  have k: "k = min (min (unat (ts_next_ackno sn) + unat (ts_remain_window_size sn) - unat (ts_next_seqno sn))
      (length (bs_buffer (ts_stream sn)))) 1000"
    using read_size_eq [OF inv S can] by (simp add: k_def)
  have room: "unat (ts_next_seqno sn) < unat (ts_next_ackno sn) + unat (ts_remain_window_size sn)"
    by (rule can_send_room [OF inv S can])
  have rem: "unat (ts_remain_window_size sn) \<le> 65535"
    using unsigned_less [of "ts_remain_window_size sn", where ?'a = nat] by simp
  have le: "k \<le> length (bs_buffer (ts_stream sn))"
    using k by simp
  obtain pl len where seg: "Buffer_wf pl" "Buffer_str pl = take k (bs_buffer (ts_stream sn))"
    "unat (len :: u64) = k + (if finishes sn then 1 else 0)"
    "TCPSender_send_segment sn = after_send sn k (finishes sn) len pl"
    by (rule send_segment_eq [OF sendsD(2) [OF inv] le [unfolded k_def], folded k_def]) blast
  have "finishes sn" if "bs_buffer (ts_stream sn) = []"
    using can_send_position(2) [OF inv S can syn that] that room sendsD(5) [OF inv] k
    by (simp add: finishes_def k_def)
  moreover have "0 < k" if "bs_buffer (ts_stream sn) \<noteq> []"
    using that room k by auto
  ultimately have pos: "0 < unat len"
    using seg(3) by (cases "bs_buffer (ts_stream sn) = []") auto
  have bound: "unat (ts_next_seqno sn) + k \<le> unat (ts_next_ackno sn) + unat (ts_remain_window_size sn)"
    using k room by simp
  then have sends: "sends S isn (after_send sn k (finishes sn) len pl)"
    using sends_after_send [OF inv S can_send_position(1) [OF inv S can syn] le [unfolded k_def] pos seg(1)]
      seg(2,3) rem unfolding k_def [symmetric] by simp
  have "unat (ts_next_seqno sn + len) = unat (ts_next_seqno sn) + unat len"
    using bound rem seg(3) sendsD(4,5,10) [OF inv] S by (simp add: unat_add_nowrap)
  moreover have "sends S isn (TCPSender_send_segment sn)" "k \<le> 1000"
    using sends seg(4) k by simp_all
  ultimately show thesis
    using that [OF seg(4) _ pos seg(3) _ bound _ k_def le] by blast
qed

lemma after_send_fields [simp]:
  "ts_next_seqno (after_send sn k f len pl) = ts_next_seqno sn + len"
  "ts_next_ackno (after_send sn k f len pl) = ts_next_ackno sn"
  "bs_written_length (ts_stream (after_send sn k f len pl)) = bs_written_length (ts_stream sn)"
  "bs_is_ended (ts_stream (after_send sn k f len pl)) = bs_is_ended (ts_stream sn)"
  "ts_window_size (after_send sn k f len pl) = ts_window_size sn"
  "ts_segments_out (after_send sn k f len pl) = ts_segments_out sn @ [data_segment sn f len pl]"
  by (simp_all add: after_send_def)

text \<open>
  What the loop does to the sender: nothing is sent outside the window of \<open>remain\<close> numbers from
  \<open>a\<close> on, except that a FIN may exceed it by one.
\<close>

definition filled :: "tcp_sender \<Rightarrow> tcp_sender \<Rightarrow> bool" where
  "filled sn sn' \<longleftrightarrow>
     ts_next_ackno sn' = ts_next_ackno sn \<and> ts_window_size sn' = ts_window_size sn \<and>
     bs_written_length (ts_stream sn') = bs_written_length (ts_stream sn) \<and>
     bs_is_ended (ts_stream sn') = bs_is_ended (ts_stream sn) \<and>
     unat (ts_next_seqno sn) \<le> unat (ts_next_seqno sn') \<and>
     (ts_remain_window_size sn = ts_window_size sn \<longrightarrow>
        ts_remain_window_size sn' = ts_remain_window_size sn) \<and>
     (let edge = unat (ts_next_ackno sn) + unat (ts_remain_window_size sn)
      in unat (ts_next_seqno sn') \<le> max (unat (ts_next_seqno sn)) edge \<or>
         unat (ts_next_seqno sn') = unat (bs_written_length (ts_stream sn)) + 2 \<and>
         unat (ts_next_seqno sn') = edge + 1)"

lemma filled_refl: "filled sn sn"
  by (simp add: filled_def)

lemma filled_step:
  assumes inv: "sends S isn sn" and S: "length S + 2 ^ 33 < 2 ^ 64" and can: "TCPSender_can_send sn"
    and syn: "ts_next_seqno sn \<noteq> 0"
    and inv': "sends S isn sn'" and step: "filled (TCPSender_send_segment sn) sn'"
  shows "filled sn sn'"
proof -
  let ?n = "unat (ts_next_seqno sn)" and ?W = "unat (bs_written_length (ts_stream sn))"
  let ?edge = "unat (ts_next_ackno sn) + unat (ts_remain_window_size sn)"
  obtain k len pl where seg: "TCPSender_send_segment sn = after_send sn k (finishes sn) len pl"
    "unat len = k + (if finishes sn then 1 else 0)" "unat (ts_next_seqno sn + len) = ?n + unat len"
    "?n + k \<le> ?edge" "k = unat (TCPSender_read_size sn)" "k \<le> length (bs_buffer (ts_stream sn))"
    by (rule sends_send_segment [OF inv S can syn])
  have rem: "ts_remain_window_size (after_send sn k (finishes sn) len pl) =
      (if ts_remain_window_size sn \<noteq> ts_window_size sn then 0 else ts_remain_window_size sn)"
    by (simp add: after_send_def)
  have "unat (ts_next_seqno sn + len) = ?W + 2" if "finishes sn"
    using that seg can_send_position(1) [OF inv S can syn] sendsD(3) [OF inv]
    by (simp add: finishes_def)
  moreover have "unat (ts_next_seqno sn') \<le> ?W + 2"
    using sendsD(10) [OF inv'] step by (simp add: filled_def seg(1))
  moreover have "unat (ts_next_seqno sn + len) \<le> unat (ts_next_seqno sn')"
    using step by (simp add: filled_def seg(1))
  ultimately show ?thesis
    using step seg(2-4) unfolding filled_def seg(1) rem after_send_fields Let_def
    by (cases "finishes sn") (auto split: if_splits)
qed

lemma fill_loop_returns:
  assumes "sends S isn sn" "length S + 2 ^ 33 < 2 ^ 64" "ts_next_seqno sn \<noteq> 0"
  shows "\<exists>sn'. TCPSender_fill_loop sn = Some sn' \<and> sends S isn sn' \<and> \<not> TCPSender_can_send sn' \<and> filled sn sn'"
  using assms
proof (induction "unat (bs_written_length (ts_stream sn)) + 2 - unat (ts_next_seqno sn)"
    arbitrary: sn rule: less_induct)
  case less
  show ?case
  proof (cases "TCPSender_can_send sn")
    case True
    let ?sn = "TCPSender_send_segment sn"
    obtain k len pl where seg: "?sn = after_send sn k (finishes sn) len pl" "sends S isn ?sn" "0 < unat len"
      "unat (ts_next_seqno sn + len) = unat (ts_next_seqno sn) + unat len"
      by (rule sends_send_segment [OF less.prems(1,2) True less.prems(3)])
    have n: "ts_next_seqno ?sn \<noteq> 0"
      using seg by (auto simp: unat_eq_0 [symmetric])
    have "unat (ts_next_seqno ?sn) \<le> unat (bs_written_length (ts_stream sn)) + 2"
      using sendsD(10) [OF seg(2)] by (simp add: seg(1))
    then have "unat (bs_written_length (ts_stream ?sn)) + 2 - unat (ts_next_seqno ?sn) <
        unat (bs_written_length (ts_stream sn)) + 2 - unat (ts_next_seqno sn)"
      using seg(3,4) unfolding seg(1) by simp
    from less.hyps [OF this seg(2) less.prems(2) n] obtain sn' where
      "TCPSender_fill_loop ?sn = Some sn'" "sends S isn sn'" "\<not> TCPSender_can_send sn'" "filled ?sn sn'"
      by blast
    with filled_step [OF less.prems(1,2) True less.prems(3)] True show ?thesis
      by (subst TCPSender_fill_loop.simps) simp
  next
    case False
    then show ?thesis
      using less.prems(1) filled_refl by (subst TCPSender_fill_loop.simps) simp
  qed
qed

lemma current_state_simps:
  assumes "sends S isn sn" "length S + 2 ^ 33 < 2 ^ 64"
  shows "TCPSender_current_state sn = Closed \<longleftrightarrow> ts_next_seqno sn = 0"
    and "TCPSender_current_state sn = SynSent \<longleftrightarrow> ts_next_seqno sn \<noteq> 0 \<and> ts_next_ackno sn = 0"
    and "TCPSender_current_state sn = SynAckedEof \<longleftrightarrow> ts_next_ackno sn \<noteq> 0 \<and>
      ByteStream_eof (ts_stream sn) \<and> unat (ts_next_seqno sn) < unat (bs_written_length (ts_stream sn)) + 2"
proof -
  have W: "unat (bs_written_length (ts_stream sn) + 2) = unat (bs_written_length (ts_stream sn)) + 2"
    using sendsD(4) [OF assms(1)] assms(2) by (subst unat_add_nowrap) simp_all
  have flight: "ts_next_seqno sn = ts_tracked_count sn \<longleftrightarrow> unat (ts_next_ackno sn) = 0"
    "ts_tracked_count sn < ts_next_seqno sn \<longleftrightarrow> unat (ts_next_ackno sn) \<noteq> 0"
    using sendsD(5,7) [OF assms(1)] by (auto simp: word_nat)
  have le: "unat (ts_next_seqno sn) \<le> unat (bs_written_length (ts_stream sn)) + 2"
    "unat (ts_next_ackno sn) \<le> unat (ts_next_seqno sn)"
    using sendsD(5,10) [OF assms(1)] by auto
  note simps = TCPSender_current_state_def TCPSender_next_seqno_absolute_def TCPSender_bytes_in_flight_def
    ByteStream_bytes_written_def Let_def
  show "TCPSender_current_state sn = Closed \<longleftrightarrow> ts_next_seqno sn = 0"
    using W le flight by (auto simp: simps word_less_nat_alt word_eq_unat [of "ts_next_seqno sn" "_ + 2"] word_gt_0
        unat_eq_0)
  show "TCPSender_current_state sn = SynSent \<longleftrightarrow> ts_next_seqno sn \<noteq> 0 \<and> ts_next_ackno sn = 0"
    using flight by (auto simp: simps word_gt_0 unat_eq_0)
  show "TCPSender_current_state sn = SynAckedEof \<longleftrightarrow> ts_next_ackno sn \<noteq> 0 \<and>
      ByteStream_eof (ts_stream sn) \<and> unat (ts_next_seqno sn) < unat (bs_written_length (ts_stream sn)) + 2"
    using W flight le by (auto simp: simps word_gt_0 unat_eq_0 word_less_nat_alt)
qed

text \<open>\<^verbatim>\<open>fill_window\<close> in the three situations the code distinguishes.\<close>

lemma fill_window_cases:
  assumes "sends S isn sn" "length S + 2 ^ 33 < 2 ^ 64"
  shows "ts_next_seqno sn = 0 \<Longrightarrow> TCPSender_fill_window sn = Inr (TCPSender_send_syn sn)"
    and "ts_next_seqno sn \<noteq> 0 \<Longrightarrow> ts_next_ackno sn = 0 \<Longrightarrow> TCPSender_fill_window sn = Inr sn"
    and "ts_next_ackno sn \<noteq> 0 \<Longrightarrow> TCPSender_fill_window sn =
      (case TCPSender_fill_loop sn of Some sn' \<Rightarrow> Inr sn' | None \<Rightarrow> Inl Diverges)"
proof -
  note state = current_state_simps [OF assms]
  show "ts_next_seqno sn = 0 \<Longrightarrow> TCPSender_fill_window sn = Inr (TCPSender_send_syn sn)"
    using state(1) by (simp add: TCPSender_fill_window_def)
  show "ts_next_seqno sn \<noteq> 0 \<Longrightarrow> ts_next_ackno sn = 0 \<Longrightarrow> TCPSender_fill_window sn = Inr sn"
    using state(2) by (simp add: TCPSender_fill_window_def)
  assume "ts_next_ackno sn \<noteq> 0"
  moreover have "ts_next_seqno sn \<noteq> 0"
    using sendsD(5) [OF assms(1)] calculation by (auto simp: unat_eq_0 [symmetric])
  ultimately have "TCPSender_current_state sn \<noteq> Closed" "TCPSender_current_state sn \<noteq> SynSent"
    using state(1,2) by auto
  then show "TCPSender_fill_window sn =
      (case TCPSender_fill_loop sn of Some sn' \<Rightarrow> Inr sn' | None \<Rightarrow> Inl Diverges)"
    by (cases "TCPSender_current_state sn") (simp_all add: TCPSender_fill_window_def)
qed

lemma fill_window_runs:
  assumes "sends S isn sn" "length S + 2 ^ 33 < 2 ^ 64"
  shows "runs (TCPSender_fill_window sn) (\<lambda>sn'. sends S isn sn' \<and> ts_next_seqno sn' \<noteq> 0 \<and>
    (ts_next_seqno sn \<noteq> 0 \<longrightarrow> filled sn sn') \<and> (ts_next_ackno sn \<noteq> 0 \<longrightarrow> \<not> TCPSender_can_send sn'))"
proof -
  consider "ts_next_seqno sn = 0" | "ts_next_seqno sn \<noteq> 0" "ts_next_ackno sn = 0" | "ts_next_ackno sn \<noteq> 0"
    by blast
  then show ?thesis
  proof cases
    case 1
    then have "ts_next_seqno (TCPSender_send_syn sn) \<noteq> 0" "ts_next_ackno sn = 0"
      using sendsD(5) [OF assms(1)] by (simp_all add: TCPSender_send_syn_def Let_def unat_eq_0)
    then show ?thesis
      using 1 fill_window_cases(1) [OF assms] sends_send_syn [OF assms(1)] by simp
  next
    case 2
    then show ?thesis
      using fill_window_cases(2) [OF assms] filled_refl assms(1) by simp
  next
    case 3
    then have n: "ts_next_seqno sn \<noteq> 0"
      using sendsD(5) [OF assms(1)] by (auto simp: unat_eq_0 [symmetric])
    from fill_loop_returns [OF assms this] obtain sn' where sn': "TCPSender_fill_loop sn = Some sn'"
      "sends S isn sn'" "\<not> TCPSender_can_send sn'" "filled sn sn'" by blast
    have "ts_next_seqno sn' \<noteq> 0"
      using n sn'(4) by (auto simp: filled_def unat_eq_0 [symmetric])
    then show ?thesis
      using sn' fill_window_cases(3) [OF assms 3] by simp
  qed
qed

section \<open>Acknowledgments\<close>

lemma ack_scan_chain:
  assumes "tracked_chain S isn lo segs hi" "unat acc + (hi - lo) < 2 ^ 64"
  shows "case TCPSender_ack_scan ackno' segs acc of (kept, remain, found) \<Rightarrow>
    if found
    then \<exists>e. lo < e \<and> e \<le> hi \<and> ackno' = wrap (word_of_nat e) isn \<and> tracked_chain S isn e kept hi \<and>
           unat remain = unat acc + (hi - e)
    else kept = segs \<and> unat remain = unat acc + (hi - lo)"
  using assms
proof (induction segs arbitrary: hi acc)
  case (Cons seg segs)
  from Cons.prems(1) obtain mid where mid: "seg_at S isn seg mid hi" "tracked_chain S isn lo segs mid"
    by auto
  then have len: "unat (TCPSegment_length_in_sequence_space seg) = hi - mid" "mid < hi" "lo \<le> mid"
    "ackno (seg_header seg) = wrap (word_of_nat hi) isn"
    using tracked_chain_le by (auto simp: seg_at_def)
  show ?case
  proof (cases "ackno (seg_header seg) = ackno'")
    case True
    then show ?thesis
      using len by (auto intro!: exI [of _ hi])
  next
    case False
    let ?acc = "acc + TCPSegment_length_in_sequence_space seg"
    have acc: "unat ?acc = unat acc + (hi - mid)"
      using len Cons.prems(2) by (subst unat_add_nowrap) simp_all
    then have "unat ?acc + (mid - lo) < 2 ^ 64"
      using len Cons.prems(2) by simp
    from Cons.IH [OF mid(2) this] mid(1) len acc False show ?thesis
      by (auto simp: split_def Let_def) (force split: if_splits)+
  qed
qed simp

lemma ack_scan_found:
  "snd (snd (TCPSender_ack_scan ackno' segs acc)) \<longleftrightarrow> (\<exists>seg \<in> set segs. ackno (seg_header seg) = ackno')"
  by (induction segs arbitrary: acc) (auto simp: split_def Let_def)

text \<open>
  The effect of an acknowledgment: it either ends a tracked segment, at absolute number \<open>e\<close>, and
  then everything before \<open>e\<close> is dropped, or it changes nothing but the windows.
\<close>

definition acknowledged :: "bytes \<Rightarrow> wrapping_int32 \<Rightarrow> wrapping_int32 \<Rightarrow> nat \<Rightarrow> tcp_sender \<Rightarrow> tcp_sender \<Rightarrow> bool" where
  "acknowledged S isn ackno' e sn sn' \<longleftrightarrow>
     unat (ts_next_ackno sn) < e \<and> e \<le> unat (ts_next_seqno sn) \<and> wrap (word_of_nat e) isn = ackno' \<and>
     unat (ts_next_ackno sn') = e \<and> unat (ts_tracked_count sn') = unat (ts_next_seqno sn) - e \<and>
     tracked_chain S isn e (ts_tracking_segments sn') (unat (ts_next_seqno sn)) \<and>
     ts_timer sn' = 0 \<and> ts_consecutive_time_out_count sn' = 0 \<and>
     ts_retransmission_timeout sn' = ucast (ts_initial_retransmission_timeout sn)"

definition ack_ignored :: "tcp_sender \<Rightarrow> tcp_sender \<Rightarrow> bool" where
  "ack_ignored sn sn' \<longleftrightarrow>
     ts_next_ackno sn' = ts_next_ackno sn \<and> ts_tracked_count sn' = ts_tracked_count sn \<and>
     ts_tracking_segments sn' = ts_tracking_segments sn \<and> ts_timer sn' = ts_timer sn \<and>
     ts_consecutive_time_out_count sn' = ts_consecutive_time_out_count sn \<and>
     ts_retransmission_timeout sn' = ts_retransmission_timeout sn"

lemma ack_received_fields:
  "ts_stream (TCPSender_ack_received sn ackno' w) = ts_stream sn"
  "ts_segments_out (TCPSender_ack_received sn ackno' w) = ts_segments_out sn"
  "ts_isn (TCPSender_ack_received sn ackno' w) = ts_isn sn"
  "ts_next_seqno (TCPSender_ack_received sn ackno' w) = ts_next_seqno sn"
  by (simp_all add: TCPSender_ack_received_def Let_def split_def)

lemma ack_received_effect:
  fixes sn :: tcp_sender and ackno' :: wrapping_int32 and w :: u16
  assumes inv: "sends S isn sn" and S: "length S + 2 ^ 33 < 2 ^ 64"
  defines "sn' \<equiv> TCPSender_ack_received sn ackno' w"
  shows "if \<exists>seg \<in> set (ts_tracking_segments sn). ackno (seg_header seg) = ackno'
    then \<exists>e. acknowledged S isn ackno' e sn sn' else ack_ignored sn sn'"
proof -
  let ?a = "unat (ts_next_ackno sn)" and ?n = "unat (ts_next_seqno sn)"
  obtain kept remain found where scan: "TCPSender_ack_scan ackno' (ts_tracking_segments sn) 0 = (kept, remain, found)"
    by (cases "TCPSender_ack_scan ackno' (ts_tracking_segments sn) 0") auto
  have n: "unat (0 :: u64) + (?n - ?a) < 2 ^ 64"
    using unat_lt64 [of "ts_next_seqno sn"] by simp
  note chain = ack_scan_chain [OF sendsD(8) [OF inv] n, of ackno', unfolded scan, simplified]
  have found: "found \<longleftrightarrow> (\<exists>seg \<in> set (ts_tracking_segments sn). ackno (seg_header seg) = ackno')"
    using ack_scan_found [of ackno' "ts_tracking_segments sn" 0] by (simp add: scan)
  show ?thesis
    unfolding found [symmetric]
  proof (cases found)
    case True
    then obtain e where e: "?a < e" "e \<le> ?n" "ackno' = wrap (word_of_nat e) isn"
      "tracked_chain S isn e kept ?n" "unat remain = ?n - e"
      using chain by auto
    have e64: "unat (word_of_nat e :: u64) = e"
      using e(2) unat_lt64 [of "ts_next_seqno sn"] by (intro unat_of_nat_eq) simp
    have abs: "unwrap ackno' (ts_isn sn) (ts_next_ackno sn) = word_of_nat e"
      unfolding e(3) sendsD(1) [OF inv]
      by (rule unwrap_wrap_near) (use e sendsD(4,5,6,10) [OF inv] S in simp_all)
    have "remain \<noteq> ts_tracked_count sn" "ts_next_ackno sn < word_of_nat e"
      using e e64 sendsD(7) [OF inv] by (auto simp: word_nat)
    then have "acknowledged S isn ackno' e sn sn'"
      using e(1,2,4,5) e(3) [symmetric] e64 True
      by (simp add: sn'_def TCPSender_ack_received_def scan abs acknowledged_def Let_def)
    then show "if found then \<exists>e. acknowledged S isn ackno' e sn sn' else ack_ignored sn sn'"
      using True by auto
  next
    case False
    then have "remain = ts_tracked_count sn"
      using chain sendsD(7) [OF inv] by (simp add: word_eq_unat)
    then show "if found then \<exists>e. acknowledged S isn ackno' e sn sn' else ack_ignored sn sn'"
      using False by (simp add: sn'_def TCPSender_ack_received_def scan Let_def ack_ignored_def)
  qed
qed

lemma sends_ack_received:
  assumes inv: "sends S isn sn" and S: "length S + 2 ^ 33 < 2 ^ 64"
  shows "sends S isn (TCPSender_ack_received sn ackno' w)"
proof -
  let ?sn = "TCPSender_ack_received sn ackno' w"
  note same = ack_received_fields
  from ack_received_effect [OF assms, of ackno' w] consider e where "acknowledged S isn ackno' e sn ?sn" | "ack_ignored sn ?sn"
    by (auto split: if_splits)
  then show ?thesis
  proof cases
    case 1
    then have "unat (ts_next_ackno ?sn) = e" "unat (ts_next_ackno sn) < e" "e \<le> unat (ts_next_seqno sn)"
      "unat (ts_tracked_count ?sn) = unat (ts_next_seqno sn) - e"
      "tracked_chain S isn e (ts_tracking_segments ?sn) (unat (ts_next_seqno sn))"
      by (simp_all add: acknowledged_def)
    then show ?thesis
      using inv unfolding sends_def Let_def same by simp
  next
    case 2
    then show ?thesis
      using inv unfolding sends_def Let_def same ack_ignored_def by simp
  qed
qed

section \<open>Time, empty segments and the writer\<close>

lemma sends_segments_out:
  "sends S isn sn \<Longrightarrow> (\<forall>seg \<in> set segs. carries S isn seg) \<Longrightarrow> sends S isn (sn\<lparr>ts_segments_out := segs\<rparr>)"
  by (simp add: sends_def Let_def)

text \<open>\<^verbatim>\<open>tick\<close>: the retransmission happens exactly when data is in flight and the timer expires.\<close>

lemma tick_runs:
  assumes "sends S isn sn"
  shows "runs (TCPSender_tick sn ms) (\<lambda>sn'. sends S isn sn' \<and>
    (if ts_tracked_count sn \<noteq> 0 \<and> ts_retransmission_timeout sn \<le> ts_timer sn + ms
     then \<exists>seg b. seg_at S isn seg (unat (ts_next_ackno sn)) b \<and>
       sn' = sn\<lparr>ts_segments_out := ts_segments_out sn @ [seg], ts_timer := 0,
         ts_retransmission_timeout :=
           (if ts_window_size sn \<noteq> 0 then 2 * ts_retransmission_timeout sn else ts_retransmission_timeout sn),
         ts_consecutive_time_out_count := ts_consecutive_time_out_count sn + 1\<rparr>
     else sn' = (if ts_tracked_count sn \<noteq> 0 then sn\<lparr>ts_timer := ts_timer sn + ms\<rparr> else sn)))"
proof (cases "ts_tracked_count sn \<noteq> 0 \<and> ts_retransmission_timeout sn \<le> ts_timer sn + ms")
  case True
  then have "unat (ts_tracked_count sn) \<noteq> 0"
    by (simp add: unat_eq_0)
  then have ne: "ts_tracking_segments sn \<noteq> []"
    using sendsD(7,8) [OF assms] tracked_chain_nonempty by fastforce
  from tracked_chain_last [OF sendsD(8) [OF assms] this] obtain b where
    seg: "seg_at S isn (last (ts_tracking_segments sn)) (unat (ts_next_ackno sn)) b" by blast
  have "sends S isn (sn\<lparr>ts_segments_out := ts_segments_out sn @ [last (ts_tracking_segments sn)], ts_timer := t,
         ts_retransmission_timeout := r, ts_consecutive_time_out_count := c\<rparr>)" for t r c
    using sends_segments_out [OF assms, of "ts_segments_out sn @ [last (ts_tracking_segments sn)]"]
      sendsD(9) [OF assms] seg_at_carries [OF seg] by (simp add: sends_def Let_def)
  then show ?thesis
    using True ne seg by (auto simp: TCPSender_tick_def TCPSender_bytes_in_flight_def Let_def)
next
  case False
  have "sends S isn (sn\<lparr>ts_timer := t\<rparr>)" for t
    using assms by (simp add: sends_def)
  then show ?thesis
    using False assms by (auto simp: TCPSender_tick_def TCPSender_bytes_in_flight_def Let_def)
qed

lemma sends_send_empty_segment:
  assumes "sends S isn sn"
  shows "sends S isn (TCPSender_send_empty_segment sn)"
proof -
  have "carries S isn (TCPSegment_default\<lparr>seg_header := TCPHeader_default\<lparr>seqno := x, ackno := y\<rparr>\<rparr>)" for x y
    by (simp add: carries_def harmless_def TCPSegment_default_def TCPHeader_default_def)
  then show ?thesis
    using assms sendsD(9) [OF assms] unfolding TCPSender_send_empty_segment_def Let_def
    by (intro sends_segments_out) auto
qed

lemma sends_write:
  assumes inv: "sends S isn sn" and fits: "fits data" and open_: "\<not> bs_is_ended (ts_stream sn)"
    and next_: "substring_of S data (unat (bs_written_length (ts_stream sn))) False" and S: "length S < 2 ^ 64"
  shows "sends S isn (sn\<lparr>ts_stream := fst (ByteStream_write (ts_stream sn) data)\<rparr>)"
proof -
  let ?st = "ts_stream sn"
  let ?W = "unat (bs_written_length ?st)" and ?B = "length (bs_buffer ?st)"
  define k where "k = min (unat (bs_capacity ?st) - ?B) (length data)"
  let ?st' = "fst (ByteStream_write ?st data)"
  note wr = ByteStream_write_wf [OF sendsD(2) [OF inv] fits]
  have sub: "?W + length data \<le> length S" "take (length data) (drop ?W S) = data"
    using next_ by (simp_all add: substring_of_def)
  have W': "unat (bs_written_length ?st') = ?W + k"
    using wr(2) sub S unfolding wr(3) by (subst unat_add_nowrap) (simp_all add: k_def)
  have buf': "bs_buffer ?st' = bs_buffer ?st @ take k data"
    unfolding wr(1) by (simp add: k_def min_def)
  have B': "length (bs_buffer ?st') = ?B + k"
    unfolding buf' by (simp add: k_def)
  have buf: "take ?B (drop (?W - ?B) S) = bs_buffer ?st"
    using inv by (simp add: sends_def Let_def)
  have "take k (take (length data) (drop ?W S)) = take k (drop ?W S)"
    by (simp add: k_def)
  then have "take k data = take k (drop ?W S)"
    unfolding sub(2) .
  then have "take (?B + k) (drop (?W - ?B) S) = bs_buffer ?st @ take k data"
    using buf sendsD(3) [OF inv] by (simp add: take_add)
  moreover have "?W + k - (?B + k) = ?W - ?B" "?W + k \<le> length S"
    using sub(1) by (simp_all add: k_def)
  moreover have "min (length data) k = k"
    by (simp add: k_def)
  ultimately show ?thesis
    using inv open_ unfolding sends_def Let_def
    by (simp add: W' B' buf' wr(5) fits)
qed

lemma sends_end_input:
  "sends S isn sn \<Longrightarrow> unat (bs_written_length (ts_stream sn)) = length S \<Longrightarrow>
   sends S isn (sn\<lparr>ts_stream := ByteStream_end_input (ts_stream sn)\<rparr>)"
  by (simp add: sends_def Let_def) (auto simp: ByteStream_end_input_def)

section \<open>What the operations leave alone\<close>

text \<open>A segment the sender marks as an acknowledgment by itself is a FIN: the input has ended.\<close>

definition flagged :: "tcp_sender \<Rightarrow> bool" where
  "flagged sn \<longleftrightarrow>
     (\<forall>seg \<in> set (ts_segments_out sn) \<union> set (ts_tracking_segments sn).
        ack (seg_header seg) \<longrightarrow> bs_is_ended (ts_stream sn))"

definition stream_kept :: "tcp_sender \<Rightarrow> tcp_sender \<Rightarrow> bool" where
  "stream_kept sn sn' \<longleftrightarrow>
     bs_written_length (ts_stream sn') = bs_written_length (ts_stream sn) \<and>
     bs_is_ended (ts_stream sn') = bs_is_ended (ts_stream sn) \<and>
     (bs_error (ts_stream sn) \<longrightarrow> bs_error (ts_stream sn')) \<and>
     (flagged sn \<longrightarrow> flagged sn')"

definition sender_frame :: "tcp_sender \<Rightarrow> tcp_sender \<Rightarrow> bool" where
  "sender_frame sn sn' \<longleftrightarrow> stream_kept sn sn' \<and> ts_next_ackno sn' = ts_next_ackno sn"

lemma sender_frame_refl: "sender_frame sn sn"
  by (simp add: sender_frame_def stream_kept_def)

lemma sender_frame_trans: "sender_frame sn sn' \<Longrightarrow> sender_frame sn' sn'' \<Longrightarrow> sender_frame sn sn''"
  by (simp add: sender_frame_def stream_kept_def)

lemma read_flags:
  "bs_written_length (fst (ByteStream_read st n)) = bs_written_length st"
  "bs_is_ended (fst (ByteStream_read st n)) = bs_is_ended st"
  "bs_error st \<Longrightarrow> bs_error (fst (ByteStream_read st n))"
  by (simp_all add: ByteStream_read_def ByteStream_pop_output_def ByteStream_set_error_def Let_def)

lemma send_segment_frame: "sender_frame sn (TCPSender_send_segment sn)"
  using read_flags [of "ts_stream sn" "ucast (TCPSender_read_size sn)"]
  by (auto simp: sender_frame_def stream_kept_def flagged_def TCPSender_send_segment_def Let_def split_def
      TCPHeader_default_def ByteStream_eof_def ByteStream_input_ended_def)

lemma fill_loop_frame:
  assumes "TCPSender_fill_loop sn = Some sn'"
  shows "sender_frame sn sn'"
proof (rule TCPSender_fill_loop.raw_induct [OF _ assms, of sender_frame])
  fix loop and sn sn' :: tcp_sender
  assume "\<And>x y. loop x = Some y \<Longrightarrow> sender_frame x y"
    and "(if TCPSender_can_send sn then loop (TCPSender_send_segment sn) else Some sn) = Some sn'"
  then show "sender_frame sn sn'"
    using send_segment_frame [of sn] sender_frame_refl [of sn]
    by (auto intro: sender_frame_trans split: if_split_asm)
qed

lemma fill_window_frame: "TCPSender_fill_window sn = Inr sn' \<Longrightarrow> sender_frame sn sn'"
proof -
  have "sender_frame sn (TCPSender_send_syn sn)"
    by (auto simp: sender_frame_def stream_kept_def flagged_def TCPSender_send_syn_def Let_def
        TCPHeader_default_def TCPSegment_default_def)
  then show "TCPSender_fill_window sn = Inr sn' \<Longrightarrow> ?thesis"
    using sender_frame_refl fill_loop_frame
    by (auto simp: TCPSender_fill_window_def split: sender_state.splits option.splits)
qed

lemma tick_frame: "TCPSender_tick sn ms = Inr sn' \<Longrightarrow> sender_frame sn sn'"
  by (auto simp: TCPSender_tick_def Let_def sender_frame_def stream_kept_def flagged_def split: if_split_asm)

lemma send_empty_segment_frame: "sender_frame sn (TCPSender_send_empty_segment sn)"
  by (auto simp: sender_frame_def stream_kept_def flagged_def TCPSender_send_empty_segment_def Let_def
      TCPHeader_default_def TCPSegment_default_def)

lemma ack_scan_kept: "set (fst (TCPSender_ack_scan ackno' segs n)) \<subseteq> set segs"
  by (induction ackno' segs n rule: TCPSender_ack_scan.induct) (auto simp: split_def Let_def)

lemma ack_received_kept: "stream_kept sn (TCPSender_ack_received sn ackno' w)"
  using ack_scan_kept [of ackno' "ts_tracking_segments sn" 0]
  by (auto simp: stream_kept_def flagged_def TCPSender_ack_received_def Let_def split_def)

lemma sends_set_error [simp]:
  "sends S isn (sn\<lparr>ts_stream := ByteStream_set_error (ts_stream sn)\<rparr>) = sends S isn sn"
  by (simp add: sends_def Let_def ByteStream_set_error_def ByteStream_wf_def)

end
