(* ===== verification/Sending.thy ===== *)
theory Sending
  imports Tcp_Sender
begin

text \<open>
  What the sender promises about a whole run: the application writes a stream, acknowledgments
  and ticks come in any order.  Every segment emitted is right, \<^verbatim>\<open>fill_window\<close> returns, stays in
  the window and leaves nothing sendable behind, acknowledgments release exactly what they
  cover, and the timer retransmits the oldest segment.
\<close>

section \<open>Runs of the sender\<close>

text \<open>
  The application writes \<open>S\<close> piece by piece and may end the input when all of it is written;
  acknowledgments with any numbers and windows, ticks, empty segments and calls of
  \<^verbatim>\<open>fill_window\<close> come in any order.  \<open>hist\<close> collects the segments taken from the queue.
\<close>

inductive sending :: "bytes \<Rightarrow> wrapping_int32 \<Rightarrow> tcp_sender \<Rightarrow> tcp_segment list \<Rightarrow> bool"
  for S :: bytes and isn :: wrapping_int32 where
  start: "isn = (case fixed of Some i \<Rightarrow> i | None \<Rightarrow> WrappingInt32 random_isn) \<Longrightarrow>
    sending S isn (TCPSender_new c retx fixed random_isn) []"
| write_data: "sending S isn sn hist \<Longrightarrow> fits data \<Longrightarrow> \<not> bs_is_ended (ts_stream sn) \<Longrightarrow>
    substring_of S data (unat (bs_written_length (ts_stream sn))) False \<Longrightarrow>
    sending S isn (sn\<lparr>ts_stream := fst (ByteStream_write (ts_stream sn) data)\<rparr>) hist"
| end_input: "sending S isn sn hist \<Longrightarrow> unat (bs_written_length (ts_stream sn)) = length S \<Longrightarrow>
    sending S isn (sn\<lparr>ts_stream := ByteStream_end_input (ts_stream sn)\<rparr>) hist"
| fill: "sending S isn sn hist \<Longrightarrow> TCPSender_fill_window sn = Inr sn' \<Longrightarrow> sending S isn sn' hist"
| acked: "sending S isn sn hist \<Longrightarrow> sending S isn (TCPSender_ack_received sn ackno' w) hist"
| time: "sending S isn sn hist \<Longrightarrow> TCPSender_tick sn ms = Inr sn' \<Longrightarrow> sending S isn sn' hist"
| empty: "sending S isn sn hist \<Longrightarrow> sending S isn (TCPSender_send_empty_segment sn) hist"
| dequeue: "sending S isn sn hist \<Longrightarrow> ts_segments_out sn = seg # segs \<Longrightarrow>
    sending S isn (sn\<lparr>ts_segments_out := segs\<rparr>) (hist @ [seg])"

lemma sending_invariant:
  assumes "sending S isn sn hist" "length S + 2 ^ 33 < 2 ^ 64"
  shows "sends S isn sn \<and> (\<forall>seg \<in> set hist. carries S isn seg)"
  using assms(1)
proof (induction rule: sending.induct)
  case (start fixed random_isn c retx)
  then show ?case by (simp add: sends_new)
next
  case (write_data sn hist data)
  then show ?case using assms(2) by (simp add: sends_write)
next
  case (fill sn hist sn')
  then show ?case using fill_window_runs [of S isn sn] assms(2) by simp
next
  case (time sn hist ms sn')
  then show ?case using tick_runs [of S isn sn ms] by simp
next
  case (dequeue sn hist seg segs)
  then show ?case using sendsD(9) [of S isn sn] by (auto intro: sends_segments_out)
qed (simp_all add: sends_end_input sends_ack_received [OF _ assms(2)] sends_send_empty_segment)

section \<open>An example run\<close>

text \<open>
  The stream \<open>[7, 8]\<close> with initial number 0: SYN, its acknowledgment with a window of two, the
  first byte, then the second byte with the end of input.
\<close>

definition example_syn :: tcp_sender where
  "example_syn = projr (TCPSender_fill_window (TCPSender_new 10 1000 (Some (WrappingInt32 0)) 0))"

definition example_acked :: tcp_sender where
  "example_acked = TCPSender_ack_received example_syn (WrappingInt32 1) 2"

definition example_sent :: tcp_sender where
  "example_sent = projr (TCPSender_fill_window
     (example_acked\<lparr>ts_stream := fst (ByteStream_write (ts_stream example_acked) [7])\<rparr>))"

definition example_ended :: tcp_sender where
  "example_ended = (let st = fst (ByteStream_write (ts_stream example_sent) [8])
     in example_sent\<lparr>ts_stream := ByteStream_end_input st\<rparr>)"

lemma sending_fill_projr:
  assumes "sending S isn sn hist" "length S + 2 ^ 33 < 2 ^ 64"
  shows "sending S isn (projr (TCPSender_fill_window sn)) hist"
proof -
  have "sends S isn sn"
    using sending_invariant [OF assms] by simp
  from fill_window_runs [OF this assms(2)] obtain sn' where "TCPSender_fill_window sn = Inr sn'"
    by (auto simp: runs_def)
  then show ?thesis
    using sending.fill [OF assms(1)] by simp
qed

definition example_segment :: tcp_segment where
  "example_segment =
     \<lparr>seg_header = TCPHeader_default\<lparr>seqno := WrappingInt32 1, ackno := WrappingInt32 2\<rparr>,
      seg_payload = Buffer_new [7]\<rparr>"

lemma fill_loop_unfold:
  "TCPSender_can_send sn \<Longrightarrow> TCPSender_fill_loop sn = TCPSender_fill_loop (TCPSender_send_segment sn)"
  "\<not> TCPSender_can_send sn \<Longrightarrow> TCPSender_fill_loop sn = Some sn"
  by (simp_all add: TCPSender_fill_loop.simps [of sn])

lemmas sender_eval =
  TCPSender_new_def TCPSender_fill_window_def TCPSender_current_state_def TCPSender_send_syn_def
  TCPSender_next_seqno_absolute_def TCPSender_bytes_in_flight_def TCPSender_next_seqno_def
  TCPSender_can_send_def TCPSender_send_segment_def TCPSender_read_size_def TCPConfig_MAX_PAYLOAD_SIZE_def
  TCPSegment_length_in_sequence_space_def TCPHeader_default_def wrapping_add_def wrap_eq fill_loop_unfold
  byte_stream_defs sz_def Let_def

lemma example_syn_eq:
  "example_syn = TCPSender_send_syn (TCPSender_new 10 1000 (Some (WrappingInt32 0)) 0)"
  by (simp add: example_syn_def sender_eval)

lemma example_acked_eq:
  "example_acked = (TCPSender_new 10 1000 (Some (WrappingInt32 0)) 0)
     \<lparr>ts_segments_out := ts_segments_out example_syn, ts_next_seqno := 1, ts_next_ackno := 1,
      ts_window_size := 2, ts_remain_window_size := 2\<rparr>"
  by (simp add: example_acked_def example_syn_eq TCPSender_ack_received_def unwrap_def two_32_def sender_eval)

lemma example_sent_eq:
  "example_sent = example_acked
     \<lparr>ts_segments_out := ts_segments_out example_syn @ [example_segment],
      ts_tracking_segments := [example_segment], ts_tracked_count := 1, ts_next_seqno := 2,
      ts_stream := (ts_stream example_acked)\<lparr>bs_written_length := 1\<rparr>\<rparr>"
  by (simp add: example_sent_def example_acked_eq example_segment_def sender_eval word_le_nat_alt)

lemma example_ended_eq:
  "example_ended = example_sent\<lparr>ts_stream := \<lparr>bs_buffer = [8], bs_capacity = 10, bs_is_ended = True,
     bs_written_length = 2, bs_error = False\<rparr>\<rparr>"
  by (simp add: example_ended_def example_sent_eq example_acked_eq sender_eval word_le_nat_alt)

lemma example_sent_values:
  "\<not> bs_is_ended (ts_stream example_acked)" "bs_written_length (ts_stream example_acked) = 0"
  "\<not> bs_is_ended (ts_stream example_sent)" "bs_written_length (ts_stream example_sent) = 1"
  "bs_written_length (fst (ByteStream_write (ts_stream example_sent) [8])) = 2"
  by (simp_all add: example_sent_eq example_acked_eq sender_eval word_le_nat_alt)

lemma example_ended_values:
  "length (ts_segments_out example_ended) = 2" "ts_next_seqno example_ended = 2"
  "ts_next_ackno example_ended = 1" "ts_remain_window_size example_ended = 2"
  "ts_window_size example_ended = 2" "bs_is_ended (ts_stream example_ended)"
  "\<not> bs_error (ts_stream example_ended)" "TCPSender_current_state example_ended = SynAcked"
  "bs_written_length (ts_stream example_ended) = 2" "bs_buffer (ts_stream example_ended) = [8]"
  "map (\<lambda>seg. ackno (seg_header seg)) (ts_tracking_segments example_ended) = [WrappingInt32 2]"
  "TCPSender_bytes_in_flight example_ended = 1" "ts_retransmission_timeout example_ended = 1000"
  "ts_timer example_ended = 0"
  by (simp_all add: example_ended_eq example_sent_eq example_acked_eq example_syn_eq example_segment_def sender_eval)

lemma sending_examples:
  "sending [7, 8] (WrappingInt32 0) example_syn []" "sending [7, 8] (WrappingInt32 0) example_acked []"
  "sending [7, 8] (WrappingInt32 0) example_sent []" "sending [7, 8] (WrappingInt32 0) example_ended []"
proof -
  show syn: "sending [7, 8] (WrappingInt32 0) example_syn []"
    unfolding example_syn_def by (rule sending_fill_projr [OF sending.start]) simp_all
  show acked: "sending [7, 8] (WrappingInt32 0) example_acked []"
    unfolding example_acked_def by (rule sending.acked [OF syn])
  show sent: "sending [7, 8] (WrappingInt32 0) example_sent []"
    unfolding example_sent_def
    by (intro sending_fill_projr sending.write_data [OF acked])
      (simp_all add: substring_of_def fits_def example_sent_values)
  let ?st = "fst (ByteStream_write (ts_stream example_sent) [8])"
  have wr: "sending [7, 8] (WrappingInt32 0) (example_sent\<lparr>ts_stream := ?st\<rparr>) []"
    "unat (bs_written_length ?st) = 2"
    by (simp_all add: sending.write_data [OF sent] substring_of_def fits_def example_sent_values)
  show "sending [7, 8] (WrappingInt32 0) example_ended []"
    using sending.end_input [OF wr(1)] wr(2) by (simp add: example_ended_def Let_def)
qed

section \<open>Properties\<close>

text \<open>
  C7. Every segment the sender ever emits is right: in every run over a stream \<open>S\<close> it either
  occupies no sequence numbers or carries bytes of \<open>S\<close> under their sequence numbers, SYN only
  with the first number and FIN only behind the last byte.  The segments tracked tile exactly
  the numbers from the last acknowledged to the next to send, \<^verbatim>\<open>bytes_in_flight\<close> counts them,
  and there are never more than 65,536.
\<close>

theorem sender_segments_correct:
  assumes "sending S isn sn hist" "length S + 2 ^ 33 < 2 ^ 64"
  shows "(\<forall>seg \<in> set (hist @ ts_segments_out sn). carries S isn seg) \<and>
    tracked_chain S isn (unat (ts_next_ackno sn)) (ts_tracking_segments sn) (unat (ts_next_seqno sn)) \<and>
    unat (ts_next_seqno sn) = unat (ts_next_ackno sn) + unat (TCPSender_bytes_in_flight sn) \<and>
    unat (TCPSender_bytes_in_flight sn) \<le> 65536"
proof -
  have inv: "sends S isn sn" and hist: "\<forall>seg \<in> set hist. carries S isn seg"
    using sending_invariant [OF assms] by auto
  from sendsD [OF inv] hist show ?thesis
    by (auto simp: TCPSender_bytes_in_flight_def)
qed

theorem sender_segments_correct_witness:
  "length (ts_segments_out example_ended) = 2 \<and>
     list_all (carries [7, 8] (WrappingInt32 0)) (ts_segments_out example_ended)"
  using sender_segments_correct [OF sending_examples(4)] example_ended_values by (simp add: list_all_iff)

text \<open>
  C18. \<^verbatim>\<open>fill_window\<close> always returns, and never sends outside the receiver's window: the next
  sequence number stays at most the acknowledged number plus the window, except that a FIN
  may lie one beyond it.
\<close>

theorem fill_window_in_window:
  assumes "sending S isn sn hist" "length S + 2 ^ 33 < 2 ^ 64" "ts_next_seqno sn \<noteq> 0"
  shows "runs (TCPSender_fill_window sn) (\<lambda>sn'.
    let edge = unat (ts_next_ackno sn) + unat (ts_remain_window_size sn); n' = unat (ts_next_seqno sn')
    in unat (ts_next_seqno sn) \<le> n' \<and>
       (n' \<le> max (unat (ts_next_seqno sn)) edge \<or>
        n' = edge + 1 \<and> n' = unat (bs_written_length (ts_stream sn)) + 2 \<and> bs_is_ended (ts_stream sn)))"
proof -
  have inv: "sends S isn sn"
    using sending_invariant [OF assms(1,2)] by simp
  have "bs_is_ended (ts_stream sn')"
    if "sends S isn sn'" "unat (ts_next_seqno sn') = unat (bs_written_length (ts_stream sn')) + 2" for sn'
    using that by (auto simp: sends_def Let_def)
  then show ?thesis
    using assms(3) by (intro runs_mono [OF fill_window_runs [OF inv assms(2)]]) (auto simp: filled_def Let_def)
qed

theorem fill_window_in_window_witness: "returns (TCPSender_fill_window example_ended)"
  using fill_window_in_window [OF sending_examples(4)] example_ended_values by (auto simp: runs_def)



text \<open>
  C19. \<^verbatim>\<open>ack_received\<close> with any number and any window: if the number ends a tracked segment,
  exactly the sequence numbers before it are released, the rest stays tracked and counted, and
  the timer, the timeout and the retransmission count start over; otherwise nothing changes but
  the windows.  The advertised window is taken over exactly when the number lies between the
  last acknowledged and the next to send.
\<close>

theorem ack_received_correct:
  assumes "sending S isn sn hist" "length S + 2 ^ 33 < 2 ^ 64"
  shows "(if \<exists>seg \<in> set (ts_tracking_segments sn). ackno (seg_header seg) = ackno'
      then \<exists>e. acknowledged S isn ackno' e sn (TCPSender_ack_received sn ackno' w)
      else ack_ignored sn (TCPSender_ack_received sn ackno' w)) \<and>
    ts_window_size (TCPSender_ack_received sn ackno' w) =
      (if ts_next_ackno sn \<le> unwrap ackno' isn (ts_next_ackno sn) \<and>
          unwrap ackno' isn (ts_next_ackno sn) \<le> ts_next_seqno sn then w else ts_window_size sn)"
proof
  have inv: "sends S isn sn"
    using sending_invariant [OF assms] by simp
  show "if \<exists>seg \<in> set (ts_tracking_segments sn). ackno (seg_header seg) = ackno'
      then \<exists>e. acknowledged S isn ackno' e sn (TCPSender_ack_received sn ackno' w)
      else ack_ignored sn (TCPSender_ack_received sn ackno' w)"
    by (rule ack_received_effect [OF inv assms(2)])
  show "ts_window_size (TCPSender_ack_received sn ackno' w) =
      (if ts_next_ackno sn \<le> unwrap ackno' isn (ts_next_ackno sn) \<and>
          unwrap ackno' isn (ts_next_ackno sn) \<le> ts_next_seqno sn then w else ts_window_size sn)"
    using sendsD(1) [OF inv] by (auto simp: TCPSender_ack_received_def Let_def split_def)
qed

theorem ack_received_correct_witness:
  "\<exists>e. acknowledged [7, 8] (WrappingInt32 0) (WrappingInt32 2) e example_ended
     (TCPSender_ack_received example_ended (WrappingInt32 2) 9)"
proof -
  have "WrappingInt32 2 \<in> (\<lambda>seg. ackno (seg_header seg)) ` set (ts_tracking_segments example_ended)"
    using example_ended_values by (metis list.set_intros(1) list.set_map)
  then have "\<exists>seg \<in> set (ts_tracking_segments example_ended). ackno (seg_header seg) = WrappingInt32 2"
    by auto
  with ack_received_correct [OF sending_examples(4), of "WrappingInt32 2" 9] show ?thesis
    by simp
qed

text \<open>
  C15. \<^verbatim>\<open>tick\<close> never calls \<^verbatim>\<open>back()\<close> on an empty list.  It retransmits exactly when something is
  in flight and the timer reaches the timeout, and then the segment that starts at the last
  acknowledged number; the timeout doubles unless the window is zero, and the count goes up.
\<close>

theorem tick_retransmits_oldest:
  assumes "sending S isn sn hist" "length S + 2 ^ 33 < 2 ^ 64"
  shows "runs (TCPSender_tick sn ms) (\<lambda>sn'.
    if TCPSender_bytes_in_flight sn \<noteq> 0 \<and> ts_retransmission_timeout sn \<le> ts_timer sn + ms
    then \<exists>seg b. seg_at S isn seg (unat (ts_next_ackno sn)) b \<and>
      sn' = sn\<lparr>ts_segments_out := ts_segments_out sn @ [seg], ts_timer := 0,
        ts_retransmission_timeout :=
          (if ts_window_size sn \<noteq> 0 then 2 * ts_retransmission_timeout sn else ts_retransmission_timeout sn),
        ts_consecutive_time_out_count := ts_consecutive_time_out_count sn + 1\<rparr>
    else ts_segments_out sn' = ts_segments_out sn)"
proof -
  have "sends S isn sn"
    using sending_invariant [OF assms] by simp
  from tick_runs [OF this] show ?thesis
    by (rule runs_mono) (auto simp: TCPSender_bytes_in_flight_def split: if_splits)
qed

theorem tick_retransmits_oldest_witness:
  "runs (TCPSender_tick example_ended 1000) (\<lambda>sn'. length (ts_segments_out sn') = 3)"
proof -
  note example_ended_values
  with tick_retransmits_oldest [OF sending_examples(4), of 1000] show ?thesis
    by (auto elim!: runs_mono)
qed

text \<open>
  The test for room for a FIN compares the payload with the whole window instead of what is
  left of it.  When the last bytes exactly fill the window and something is in flight, the FIN
  goes out one sequence number beyond the window.
\<close>

theorem fin_exceeds_window:
  assumes "sending S isn sn hist" "length S + 2 ^ 33 < 2 ^ 64" "ts_next_ackno sn \<noteq> 0"
    and "bs_is_ended (ts_stream sn)" "bs_buffer (ts_stream sn) \<noteq> []" "length (bs_buffer (ts_stream sn)) \<le> 1000"
    and "TCPSender_bytes_in_flight sn \<noteq> 0"
    and "unat (ts_next_seqno sn) + length (bs_buffer (ts_stream sn)) =
      unat (ts_next_ackno sn) + unat (ts_remain_window_size sn)"
  shows "runs (TCPSender_fill_window sn) (\<lambda>sn'.
    unat (ts_next_seqno sn') = unat (ts_next_ackno sn) + unat (ts_remain_window_size sn) + 1)"
proof -
  let ?B = "length (bs_buffer (ts_stream sn))" and ?W = "unat (bs_written_length (ts_stream sn))"
  have inv: "sends S isn sn"
    using sending_invariant [OF assms(1,2)] by simp
  have syn: "ts_next_seqno sn \<noteq> 0"
    using sendsD(5) [OF inv] assms(3) by (auto simp: unat_eq_0 [symmetric])
  have flight: "unat (ts_next_ackno sn) < unat (ts_next_seqno sn)"
    using assms(7) sendsD(5,7) [OF inv] by (auto simp: TCPSender_bytes_in_flight_def unat_eq_0 [symmetric])
  have "0 < ?B"
    using assms(5) by simp
  then have can: "TCPSender_can_send sn"
    using unat_window_edge [OF inv assms(2)] assms(5,8) [symmetric]
    by (simp add: TCPSender_can_send_def TCPSender_next_seqno_absolute_def word_less_nat_alt
        ByteStream_buffer_empty_def)
  have k: "unat (TCPSender_read_size sn) = ?B"
    using read_size_eq [OF inv assms(2) can] assms(6,8) by simp
  then have fin: "finishes sn"
    using assms(4,8) flight by (simp add: finishes_def)
  define sn1 where "sn1 = TCPSender_send_segment sn"
  obtain k len pl where seg: "TCPSender_send_segment sn = after_send sn k (finishes sn) len pl"
    "sends S isn (TCPSender_send_segment sn)" "unat len = k + (if finishes sn then 1 else 0)"
    "unat (ts_next_seqno sn + len) = unat (ts_next_seqno sn) + unat len" "k = unat (TCPSender_read_size sn)"
    by (rule sends_send_segment [OF inv assms(2) can syn])
  have sn1: "TCPSender_send_segment sn = sn1" "sends S isn sn1"
    "bs_written_length (ts_stream sn1) = bs_written_length (ts_stream sn)"
    using seg(1,2) by (simp_all add: sn1_def)
  have n1: "unat (ts_next_seqno sn1) = unat (ts_next_seqno sn) + ?B + 1"
    using seg(3-5) k fin by (simp add: sn1_def seg(1))
  then have syn1: "ts_next_seqno sn1 \<noteq> 0"
    by (auto simp: unat_eq_0 [symmetric])
  have W: "unat (ts_next_seqno sn1) = ?W + 2"
    using can_send_position(1) [OF inv assms(2) can syn] n1 sendsD(3) [OF inv] by simp
  from fill_loop_returns [OF sn1(2) assms(2) syn1] obtain sn' where sn':
    "TCPSender_fill_loop sn1 = Some sn'" "sends S isn sn'" "filled sn1 sn'" by blast
  then have "unat (ts_next_seqno sn') = ?W + 2"
    using W sendsD(10) [OF sn'(2)] sn1(3) by (auto simp: filled_def)
  moreover have "TCPSender_fill_window sn = Inr sn'"
    using fill_window_cases(3) [OF inv assms(2,3)] can sn1(1) sn'(1) by (simp add: TCPSender_fill_loop.simps [of sn])
  ultimately show ?thesis
    using W n1 assms(8) by simp
qed

theorem fin_exceeds_window_witness:
  "runs (TCPSender_fill_window example_ended) (\<lambda>sn'. unat (ts_next_seqno sn') = 4) \<and>
     unat (ts_next_ackno example_ended) + unat (ts_window_size example_ended) = 3"
proof -
  note example_ended_values
  with fin_exceeds_window [OF sending_examples(4)] show ?thesis
    by (simp del: add_2_eq_Suc add_2_eq_Suc')
qed

end
