(* ===== verification/Tcp_State.thy ===== *)
theory Tcp_State
  imports Sending
begin

text \<open>
  \<^verbatim>\<open>libsponge/tcp_helpers/tcp_state.{hh,cc}\<close>: the summary of a connection in the vocabulary of the
  TCP specification.  The summary of the sender agrees with the state the sender computes for
  itself, and the official states have pairwise different summaries.
\<close>

section \<open>State and operations\<close>

definition TCPReceiverStateSummary_ERROR :: string where
  "TCPReceiverStateSummary_ERROR = ''error (connection was reset)''"

definition TCPReceiverStateSummary_LISTEN :: string where
  "TCPReceiverStateSummary_LISTEN = ''waiting for SYN: ackno is empty''"

definition TCPReceiverStateSummary_SYN_RECV :: string where
  "TCPReceiverStateSummary_SYN_RECV = ''SYN received (ackno exists), and input to stream hasn't ended''"

definition TCPReceiverStateSummary_FIN_RECV :: string where
  "TCPReceiverStateSummary_FIN_RECV = ''input to stream has ended''"

definition TCPSenderStateSummary_ERROR :: string where
  "TCPSenderStateSummary_ERROR = ''error (connection was reset)''"

definition TCPSenderStateSummary_CLOSED :: string where
  "TCPSenderStateSummary_CLOSED = ''waiting for stream to begin (no SYN sent)''"

definition TCPSenderStateSummary_SYN_SENT :: string where
  "TCPSenderStateSummary_SYN_SENT = ''stream started but nothing acknowledged''"

definition TCPSenderStateSummary_SYN_ACKED :: string where
  "TCPSenderStateSummary_SYN_ACKED = ''stream ongoing''"

definition TCPSenderStateSummary_FIN_SENT :: string where
  "TCPSenderStateSummary_FIN_SENT = ''stream finished (FIN sent) but not fully acknowledged''"

definition TCPSenderStateSummary_FIN_ACKED :: string where
  "TCPSenderStateSummary_FIN_ACKED = ''stream finished and fully acknowledged''"

lemmas summary_defs =
  TCPReceiverStateSummary_ERROR_def TCPReceiverStateSummary_LISTEN_def
  TCPReceiverStateSummary_SYN_RECV_def TCPReceiverStateSummary_FIN_RECV_def
  TCPSenderStateSummary_ERROR_def TCPSenderStateSummary_CLOSED_def TCPSenderStateSummary_SYN_SENT_def
  TCPSenderStateSummary_SYN_ACKED_def TCPSenderStateSummary_FIN_SENT_def TCPSenderStateSummary_FIN_ACKED_def

record tcp_state =
  st_sender :: string
  st_receiver :: string
  st_active :: bool
  st_linger_after_streams_finish :: bool

datatype official_state =
    LISTEN | SYN_RCVD | SYN_SENT | ESTABLISHED | CLOSE_WAIT | LAST_ACK | FIN_WAIT_1 | FIN_WAIT_2
  | CLOSING | TIME_WAIT | CLOSED | RESET

definition TCPState_eq :: "tcp_state \<Rightarrow> tcp_state \<Rightarrow> bool" where
  "TCPState_eq s other \<longleftrightarrow>
     st_active s = st_active other \<and>
     st_linger_after_streams_finish s = st_linger_after_streams_finish other \<and>
     st_sender s = st_sender other \<and> st_receiver s = st_receiver other"

definition TCPState_name :: "tcp_state \<Rightarrow> string" where
  "TCPState_name s =
     (let to_string = (\<lambda>b. if b then ''1'' else ''0'')
      in ''sender=`'' @ st_sender s @ ''`, receiver=`'' @ st_receiver s @ ''`, active='' @
         to_string (st_active s) @ '', linger_after_streams_finish='' @
         to_string (st_linger_after_streams_finish s))"

fun TCPState_of_official :: "official_state \<Rightarrow> tcp_state" where
  "TCPState_of_official LISTEN =
     \<lparr>st_sender = TCPSenderStateSummary_CLOSED, st_receiver = TCPReceiverStateSummary_LISTEN,
      st_active = True, st_linger_after_streams_finish = True\<rparr>"
| "TCPState_of_official SYN_RCVD =
     \<lparr>st_sender = TCPSenderStateSummary_SYN_SENT, st_receiver = TCPReceiverStateSummary_SYN_RECV,
      st_active = True, st_linger_after_streams_finish = True\<rparr>"
| "TCPState_of_official SYN_SENT =
     \<lparr>st_sender = TCPSenderStateSummary_SYN_SENT, st_receiver = TCPReceiverStateSummary_LISTEN,
      st_active = True, st_linger_after_streams_finish = True\<rparr>"
| "TCPState_of_official ESTABLISHED =
     \<lparr>st_sender = TCPSenderStateSummary_SYN_ACKED, st_receiver = TCPReceiverStateSummary_SYN_RECV,
      st_active = True, st_linger_after_streams_finish = True\<rparr>"
| "TCPState_of_official CLOSE_WAIT =
     \<lparr>st_sender = TCPSenderStateSummary_SYN_ACKED, st_receiver = TCPReceiverStateSummary_FIN_RECV,
      st_active = True, st_linger_after_streams_finish = False\<rparr>"
| "TCPState_of_official LAST_ACK =
     \<lparr>st_sender = TCPSenderStateSummary_FIN_SENT, st_receiver = TCPReceiverStateSummary_FIN_RECV,
      st_active = True, st_linger_after_streams_finish = False\<rparr>"
| "TCPState_of_official CLOSING =
     \<lparr>st_sender = TCPSenderStateSummary_FIN_SENT, st_receiver = TCPReceiverStateSummary_FIN_RECV,
      st_active = True, st_linger_after_streams_finish = True\<rparr>"
| "TCPState_of_official FIN_WAIT_1 =
     \<lparr>st_sender = TCPSenderStateSummary_FIN_SENT, st_receiver = TCPReceiverStateSummary_SYN_RECV,
      st_active = True, st_linger_after_streams_finish = True\<rparr>"
| "TCPState_of_official FIN_WAIT_2 =
     \<lparr>st_sender = TCPSenderStateSummary_FIN_ACKED, st_receiver = TCPReceiverStateSummary_SYN_RECV,
      st_active = True, st_linger_after_streams_finish = True\<rparr>"
| "TCPState_of_official TIME_WAIT =
     \<lparr>st_sender = TCPSenderStateSummary_FIN_ACKED, st_receiver = TCPReceiverStateSummary_FIN_RECV,
      st_active = True, st_linger_after_streams_finish = True\<rparr>"
| "TCPState_of_official RESET =
     \<lparr>st_sender = TCPSenderStateSummary_ERROR, st_receiver = TCPReceiverStateSummary_ERROR,
      st_active = False, st_linger_after_streams_finish = False\<rparr>"
| "TCPState_of_official CLOSED =
     \<lparr>st_sender = TCPSenderStateSummary_FIN_ACKED, st_receiver = TCPReceiverStateSummary_FIN_RECV,
      st_active = False, st_linger_after_streams_finish = False\<rparr>"

definition TCPState_receiver_summary :: "tcp_receiver \<Rightarrow> string" where
  "TCPState_receiver_summary rc =
     (if bs_error (TCPReceiver_stream_out rc) then TCPReceiverStateSummary_ERROR
      else if TCPReceiver_ackno rc = None then TCPReceiverStateSummary_LISTEN
      else if ByteStream_input_ended (TCPReceiver_stream_out rc) then TCPReceiverStateSummary_FIN_RECV
      else TCPReceiverStateSummary_SYN_RECV)"

definition TCPState_sender_summary :: "tcp_sender \<Rightarrow> string" where
  "TCPState_sender_summary sn =
     (if bs_error (ts_stream sn) then TCPSenderStateSummary_ERROR
      else if TCPSender_next_seqno_absolute sn = 0 then TCPSenderStateSummary_CLOSED
      else if TCPSender_next_seqno_absolute sn = TCPSender_bytes_in_flight sn
      then TCPSenderStateSummary_SYN_SENT
      else if \<not> ByteStream_eof (ts_stream sn) then TCPSenderStateSummary_SYN_ACKED
      else if TCPSender_next_seqno_absolute sn < ByteStream_bytes_written (ts_stream sn) + 2
      then TCPSenderStateSummary_SYN_ACKED
      else if TCPSender_bytes_in_flight sn \<noteq> 0 then TCPSenderStateSummary_FIN_SENT
      else TCPSenderStateSummary_FIN_ACKED)"

definition TCPState_new :: "tcp_sender \<Rightarrow> tcp_receiver \<Rightarrow> bool \<Rightarrow> bool \<Rightarrow> tcp_state" where
  "TCPState_new sn rc active linger =
     \<lparr>st_sender = TCPState_sender_summary sn, st_receiver = TCPState_receiver_summary rc,
      st_active = active, st_linger_after_streams_finish = (if active then linger else False)\<rparr>"

section \<open>Properties\<close>

fun summary_of_state :: "sender_state \<Rightarrow> string" where
  "summary_of_state Closed = TCPSenderStateSummary_CLOSED"
| "summary_of_state SynSent = TCPSenderStateSummary_SYN_SENT"
| "summary_of_state SynAcked = TCPSenderStateSummary_SYN_ACKED"
| "summary_of_state SynAckedEof = TCPSenderStateSummary_SYN_ACKED"
| "summary_of_state FinSent = TCPSenderStateSummary_FIN_SENT"
| "summary_of_state FinAcked = TCPSenderStateSummary_FIN_ACKED"

text \<open>
  In every run, the state the sender computes for its own decisions in \<^verbatim>\<open>_current_state\<close> and
  the summary \<^verbatim>\<open>TCPState\<close> computes from its accessors agree, unless the stream has an error.
  In particular \<^verbatim>\<open>_current_state\<close> never reaches its final fall-through.
\<close>

theorem sender_state_summary_agrees:
  assumes "sending S isn sn hist" "length S + 2 ^ 33 < 2 ^ 64" "\<not> bs_error (ts_stream sn)"
  shows "TCPState_sender_summary sn = summary_of_state (TCPSender_current_state sn)"
proof -
  have inv: "sends S isn sn"
    using sending_invariant [OF assms(1,2)] by simp
  have W: "unat (bs_written_length (ts_stream sn) + 2) = unat (bs_written_length (ts_stream sn)) + 2"
    using sendsD(4) [OF inv] assms(2) by (subst unat_add_nowrap) simp_all
  have "ts_tracked_count sn \<le> ts_next_seqno sn" "ts_next_seqno sn \<le> bs_written_length (ts_stream sn) + 2"
    using sendsD(7,10) [OF inv] by (simp_all add: word_le_nat_alt W)
  then show ?thesis
    using assms(3)
    by (auto simp: TCPState_sender_summary_def TCPSender_current_state_def Let_def word_gt_0
        TCPSender_next_seqno_absolute_def TCPSender_bytes_in_flight_def ByteStream_bytes_written_def)
qed

theorem sender_state_summary_agrees_witness:
  "TCPState_sender_summary example_ended = summary_of_state SynAcked"
  using sender_state_summary_agrees [OF sending_examples(4)] example_ended_values by simp

text \<open>
  The twelve official TCP states have pairwise different summaries, so a test that compares
  summaries identifies the state.
\<close>

theorem TCPState_of_official_injective:
  "TCPState_eq (TCPState_of_official s) (TCPState_of_official s') \<longleftrightarrow> s = s'"
  by (cases s; cases s'; simp add: TCPState_eq_def summary_defs)

end
