(* ===== verification/Tcp_Connection.thy ===== *)
theory Tcp_Connection
  imports Tcp_State
begin

text \<open>
  \<^verbatim>\<open>libsponge/tcp_connection.{hh,cc}\<close>: a complete endpoint.  Every method is shown to return and
  to keep the invariants of the sender and the receiver it owns; every segment it queues
  carries its own stream and acknowledges the peer's; a reset, by the peer or after too many
  retransmissions, ends in the official state RESET.
\<close>

section \<open>State and operations\<close>

record tcp_connection =
  tc_cfg :: tcp_config
  tc_receiver :: tcp_receiver
  tc_sender :: tcp_sender
  tc_segments_out :: "tcp_segment list"
  tc_linger_after_streams_finish :: bool
  tc_is_active :: bool
  tc_time_since_last_segment_received :: size_t

definition TCPConnection_new :: "tcp_config \<Rightarrow> u32 \<Rightarrow> tcp_connection" where
  "TCPConnection_new cfg random_isn =
     \<lparr>tc_cfg = cfg, tc_receiver = TCPReceiver_new (recv_capacity cfg),
      tc_sender = TCPSender_new (send_capacity cfg) (rt_timeout cfg) (fixed_isn cfg) random_isn,
      tc_segments_out = [], tc_linger_after_streams_finish = True, tc_is_active = True,
      tc_time_since_last_segment_received = 0\<rparr>"

definition TCPConnection_inbound_stream :: "tcp_connection \<Rightarrow> byte_stream" where
  "TCPConnection_inbound_stream tc = TCPReceiver_stream_out (tc_receiver tc)"

text \<open>\<^verbatim>\<open>inbound_stream()\<close> returns a reference: the owner changes the stream in place.\<close>

definition TCPConnection_set_inbound_stream :: "tcp_connection \<Rightarrow> byte_stream \<Rightarrow> tcp_connection" where
  "TCPConnection_set_inbound_stream tc s =
     tc\<lparr>tc_receiver := TCPReceiver_set_stream_out (tc_receiver tc) s\<rparr>"

definition TCPConnection_remaining_outbound_capacity :: "tcp_connection \<Rightarrow> size_t" where
  "TCPConnection_remaining_outbound_capacity tc = ByteStream_remaining_capacity (ts_stream (tc_sender tc))"

definition TCPConnection_bytes_in_flight :: "tcp_connection \<Rightarrow> size_t" where
  "TCPConnection_bytes_in_flight tc = TCPSender_bytes_in_flight (tc_sender tc)"

definition TCPConnection_unassembled_bytes :: "tcp_connection \<Rightarrow> size_t" where
  "TCPConnection_unassembled_bytes tc = TCPReceiver_unassembled_bytes (tc_receiver tc)"

definition TCPConnection_time_since_last_segment_received :: "tcp_connection \<Rightarrow> size_t" where
  "TCPConnection_time_since_last_segment_received tc = tc_time_since_last_segment_received tc"

definition TCPConnection_active :: "tcp_connection \<Rightarrow> bool" where
  "TCPConnection_active tc = tc_is_active tc"

definition TCPConnection_state :: "tcp_connection \<Rightarrow> tcp_state" where
  "TCPConnection_state tc =
     TCPState_new (tc_sender tc) (tc_receiver tc) (TCPConnection_active tc) (tc_linger_after_streams_finish tc)"

definition TCPConnection_is_satisfied_prereq :: "tcp_connection \<Rightarrow> bool" where
  "TCPConnection_is_satisfied_prereq tc \<longleftrightarrow>
     TCPReceiver_unassembled_bytes (tc_receiver tc) = 0 \<and>
     ByteStream_eof (TCPReceiver_stream_out (tc_receiver tc)) \<and>
     ByteStream_eof (ts_stream (tc_sender tc)) \<and> TCPSender_bytes_in_flight (tc_sender tc) = 0"

text \<open>
  \<^verbatim>\<open>_move_to_segments_out\<close>: the body of the loop for one segment, then the loop over the queue
  of the sender.  The window size is stored in a field of 16 bits.
\<close>

definition TCPConnection_stamp :: "tcp_receiver \<Rightarrow> tcp_segment \<Rightarrow> tcp_segment" where
  "TCPConnection_stamp rc segment =
     (case TCPReceiver_ackno rc of
        None \<Rightarrow> segment
      | Some a \<Rightarrow> segment\<lparr>seg_header := (seg_header segment)\<lparr>ack := True, ackno := a,
                           win := ucast (TCPReceiver_window_size rc)\<rparr>\<rparr>)"

fun TCPConnection_move_loop :: "tcp_receiver \<Rightarrow> tcp_segment list \<Rightarrow> tcp_segment list \<Rightarrow> tcp_segment list" where
  "TCPConnection_move_loop rc [] out = out"
| "TCPConnection_move_loop rc (segment # queue) out =
     TCPConnection_move_loop rc queue (out @ [TCPConnection_stamp rc segment])"

definition TCPConnection_move_to_segments_out :: "tcp_connection \<Rightarrow> tcp_connection" where
  "TCPConnection_move_to_segments_out tc =
     tc\<lparr>tc_segments_out :=
          TCPConnection_move_loop (tc_receiver tc) (ts_segments_out (tc_sender tc)) (tc_segments_out tc),
        tc_sender := (tc_sender tc)\<lparr>ts_segments_out := []\<rparr>\<rparr>"

definition TCPConnection_connect :: "tcp_connection \<Rightarrow> tcp_connection outcome" where
  "TCPConnection_connect tc =
     bindE (TCPSender_fill_window (tc_sender tc)) (\<lambda>sn.
       Inr (TCPConnection_move_to_segments_out (tc\<lparr>tc_sender := sn\<rparr>)))"

text \<open>\<^verbatim>\<open>_sender.stream_in().set_error(); _receiver.stream_out().set_error();\<close>\<close>

definition TCPConnection_set_errors :: "tcp_connection \<Rightarrow> tcp_connection" where
  "TCPConnection_set_errors tc =
     tc\<lparr>tc_sender := (tc_sender tc)\<lparr>ts_stream := ByteStream_set_error (ts_stream (tc_sender tc))\<rparr>,
        tc_receiver := TCPReceiver_set_stream_out (tc_receiver tc)
          (ByteStream_set_error (TCPReceiver_stream_out (tc_receiver tc)))\<rparr>"

text \<open>What \<^verbatim>\<open>tick\<close> and the destructor do to give the connection up.\<close>

definition TCPConnection_abort :: "tcp_connection \<Rightarrow> tcp_connection" where
  "TCPConnection_abort tc0 =
     (let segment = TCPSegment_default\<lparr>seg_header := TCPHeader_default\<lparr>rst := True\<rparr>\<rparr>;
          tc = tc0\<lparr>tc_segments_out := tc_segments_out tc0 @ [segment], tc_is_active := False\<rparr>
      in (TCPConnection_set_errors tc)\<lparr>tc_linger_after_streams_finish := False\<rparr>)"

text \<open>\<^verbatim>\<open>segment_received\<close>: the decisions at its end, then the whole method.\<close>

definition TCPConnection_check_close :: "tcp_connection \<Rightarrow> tcp_connection" where
  "TCPConnection_check_close tc0 =
     (let sn = tc_sender tc0; stream = ts_stream sn;
          tc = (if ByteStream_eof (TCPReceiver_stream_out (tc_receiver tc0)) \<and>
                   \<not> (ByteStream_eof stream \<and>
                      TCPSender_next_seqno_absolute sn = ByteStream_bytes_written stream + 2)
                then tc0\<lparr>tc_linger_after_streams_finish := False\<rparr> else tc0)
      in if \<not> tc_linger_after_streams_finish tc \<and> TCPConnection_is_satisfied_prereq tc
         then tc\<lparr>tc_is_active := False\<rparr> else tc)"

definition TCPConnection_segment_received :: "tcp_connection \<Rightarrow> tcp_segment \<Rightarrow> tcp_connection outcome" where
  "TCPConnection_segment_received tc0 seg =
     bindE (TCPReceiver_segment_received (tc_receiver tc0) seg) (\<lambda>rc.
     let header = seg_header seg;
         tc = tc0\<lparr>tc_time_since_last_segment_received := 0, tc_receiver := rc\<rparr>;
         tc = (if rst header then TCPConnection_set_errors (tc\<lparr>tc_is_active := False\<rparr>) else tc)
     in bindE (if TCPSender_next_seqno_absolute (tc_sender tc) \<noteq> 0 \<and> ack header
               then bindE (TCPSender_fill_window
                             (TCPSender_ack_received (tc_sender tc) (ackno header) (win header))) (\<lambda>sn.
                      Inr (TCPConnection_move_to_segments_out (tc\<lparr>tc_sender := sn\<rparr>)))
               else Inr tc) (\<lambda>tc.
        if TCPSegment_length_in_sequence_space seg > 0 then
          if TCPSender_next_seqno_absolute (tc_sender tc) = 0 then TCPConnection_connect tc
          else let tc = (if tc_segments_out tc = []
                         then tc\<lparr>tc_sender := TCPSender_send_empty_segment (tc_sender tc)\<rparr> else tc)
               in Inr (TCPConnection_check_close (TCPConnection_move_to_segments_out tc))
        else Inr (TCPConnection_check_close tc)))"

definition TCPConnection_write :: "tcp_connection \<Rightarrow> bytes \<Rightarrow> (tcp_connection \<times> size_t) outcome" where
  "TCPConnection_write tc data =
     (let sn = tc_sender tc; (stream, written_length) = ByteStream_write (ts_stream sn) data
      in bindE (TCPSender_fill_window (sn\<lparr>ts_stream := stream\<rparr>)) (\<lambda>sn.
           Inr (TCPConnection_move_to_segments_out (tc\<lparr>tc_sender := sn\<rparr>), written_length)))"

definition TCPConnection_tick :: "tcp_connection \<Rightarrow> size_t \<Rightarrow> tcp_connection outcome" where
  "TCPConnection_tick tc0 ms_since_last_tick =
     bindE (TCPSender_tick (tc_sender tc0) ms_since_last_tick) (\<lambda>sn.
     let tc = tc0\<lparr>tc_sender := sn, tc_time_since_last_segment_received :=
                    tc_time_since_last_segment_received tc0 + ms_since_last_tick\<rparr>;
         tc = (if tc_time_since_last_segment_received tc \<ge> 10 * ucast (rt_timeout (tc_cfg tc)) \<and>
                  TCPConnection_is_satisfied_prereq tc
               then tc\<lparr>tc_is_active := False\<rparr> else tc)
     in if TCPSender_consecutive_retransmissions (tc_sender tc) > TCPConfig_MAX_RETX_ATTEMPTS
        then Inr (TCPConnection_abort tc)
        else Inr (TCPConnection_move_to_segments_out tc))"

definition TCPConnection_end_input_stream :: "tcp_connection \<Rightarrow> tcp_connection outcome" where
  "TCPConnection_end_input_stream tc =
     (let sn = tc_sender tc
      in bindE (TCPSender_fill_window (sn\<lparr>ts_stream := ByteStream_end_input (ts_stream sn)\<rparr>)) (\<lambda>sn.
           Inr (TCPConnection_move_to_segments_out (tc\<lparr>tc_sender := sn\<rparr>))))"

definition TCPConnection_destroy :: "tcp_connection \<Rightarrow> tcp_connection" where
  "TCPConnection_destroy tc = (if TCPConnection_active tc then TCPConnection_abort tc else tc)"

section \<open>The loop over the queue\<close>

lemma move_loop_eq: "TCPConnection_move_loop rc queue out = out @ map (TCPConnection_stamp rc) queue"
  by (induction queue arbitrary: out) simp_all

lemma move_fields [simp]:
  "tc_receiver (TCPConnection_move_to_segments_out tc) = tc_receiver tc"
  "tc_cfg (TCPConnection_move_to_segments_out tc) = tc_cfg tc"
  "tc_is_active (TCPConnection_move_to_segments_out tc) = tc_is_active tc"
  "tc_linger_after_streams_finish (TCPConnection_move_to_segments_out tc) = tc_linger_after_streams_finish tc"
  "tc_time_since_last_segment_received (TCPConnection_move_to_segments_out tc) =
     tc_time_since_last_segment_received tc"
  "tc_sender (TCPConnection_move_to_segments_out tc) = (tc_sender tc)\<lparr>ts_segments_out := []\<rparr>"
  "tc_segments_out (TCPConnection_move_to_segments_out tc) =
     tc_segments_out tc @ map (TCPConnection_stamp (tc_receiver tc)) (ts_segments_out (tc_sender tc))"
  by (simp_all add: TCPConnection_move_to_segments_out_def move_loop_eq)

lemma stamp_fields [simp]:
  "seg_payload (TCPConnection_stamp rc seg) = seg_payload seg"
  "seqno (seg_header (TCPConnection_stamp rc seg)) = seqno (seg_header seg)"
  "syn (seg_header (TCPConnection_stamp rc seg)) = syn (seg_header seg)"
  "fin (seg_header (TCPConnection_stamp rc seg)) = fin (seg_header seg)"
  "rst (seg_header (TCPConnection_stamp rc seg)) = rst (seg_header seg)"
  by (simp_all add: TCPConnection_stamp_def split: option.splits)

lemma carries_stamp [simp]: "carries S isn (TCPConnection_stamp rc seg) = carries S isn seg"
  by (simp add: carries_def harmless_def segment_of_def)

section \<open>The invariant\<close>

text \<open>
  \<open>connects S isn T isn' d tc\<close>: the connection sends \<open>S\<close>, numbered from \<open>isn\<close>, and receives \<open>T\<close>,
  numbered from \<open>isn'\<close>, of which the application has read \<open>d\<close>.  Every segment queued carries \<open>S\<close>
  and acknowledges no more of \<open>T\<close> than has been received.
\<close>

definition acknowledges :: "wrapping_int32 \<Rightarrow> nat \<Rightarrow> tcp_segment \<Rightarrow> bool" where
  "acknowledges isn' p seg \<longleftrightarrow>
     (ack (seg_header seg) \<longrightarrow>
        (\<exists>j. 0 < j \<and> j \<le> p \<and> ackno (seg_header seg) = wrap (word_of_nat j) isn'))"

definition connects ::
  "bytes \<Rightarrow> wrapping_int32 \<Rightarrow> bytes \<Rightarrow> wrapping_int32 \<Rightarrow> bytes \<Rightarrow> tcp_connection \<Rightarrow> bool" where
  "connects S isn T isn' d tc \<longleftrightarrow>
     sends S isn (tc_sender tc) \<and> flagged (tc_sender tc) \<and>
     receives T isn' (recv_capacity (tc_cfg tc)) d (tc_receiver tc) \<and>
     (bs_is_ended (ts_stream (tc_sender tc)) \<longrightarrow> tr_have_SYN (tc_receiver tc)) \<and>
     (\<forall>seg \<in> set (tc_segments_out tc).
        carries S isn seg \<and> acknowledges isn' (ack_position (tc_receiver tc)) seg)"

lemma acknowledges_mono: "acknowledges isn' p seg \<Longrightarrow> p \<le> q \<Longrightarrow> acknowledges isn' q seg"
  by (auto simp: acknowledges_def)

lemma connects_new:
  assumes "recv_capacity cfg \<noteq> 0" "isn = (case fixed_isn cfg of Some i \<Rightarrow> i | None \<Rightarrow> WrappingInt32 r)"
  shows "connects S isn T isn' [] (TCPConnection_new cfg r)"
  using assms sends_new [OF assms(2)] receives_new [OF assms(1)]
  by (simp add: connects_def TCPConnection_new_def) (simp add: flagged_def TCPSender_new_def ByteStream_new_def)

lemma connects_flags [simp]:
  "connects S isn T isn' d (tc\<lparr>tc_is_active := a\<rparr>) = connects S isn T isn' d tc"
  "connects S isn T isn' d (tc\<lparr>tc_linger_after_streams_finish := l\<rparr>) = connects S isn T isn' d tc"
  "connects S isn T isn' d (tc\<lparr>tc_time_since_last_segment_received := t\<rparr>) = connects S isn T isn' d tc"
  by (simp_all add: connects_def)

lemma connects_sender:
  "connects S isn T isn' d tc \<Longrightarrow> sends S isn sn \<Longrightarrow> stream_kept (tc_sender tc) sn \<Longrightarrow>
   connects S isn T isn' d (tc\<lparr>tc_sender := sn\<rparr>)"
  by (simp add: connects_def stream_kept_def)

lemma connects_receiver:
  "connects S isn T isn' d tc \<Longrightarrow> receives T isn' (recv_capacity (tc_cfg tc)) d' rc \<Longrightarrow>
   (tr_have_SYN (tc_receiver tc) \<longrightarrow> tr_have_SYN rc) \<Longrightarrow>
   ack_position (tc_receiver tc) \<le> ack_position rc \<Longrightarrow>
   connects S isn T isn' d' (tc\<lparr>tc_receiver := rc\<rparr>)"
  by (auto simp: connects_def intro: acknowledges_mono)

text \<open>A segment leaves the queue of the sender with a valid acknowledgment or with none.\<close>

lemma acknowledges_stamp:
  assumes "receives T isn' c d rc" "ack (seg_header seg) \<longrightarrow> tr_have_SYN rc"
  shows "acknowledges isn' (ack_position rc) (TCPConnection_stamp rc seg)"
  using assms(2) receives_ack_position [OF assms(1)]
  by (auto simp: acknowledges_def TCPConnection_stamp_def ack_position_def)

lemma connects_move:
  assumes "connects S isn T isn' d tc"
  shows "connects S isn T isn' d (TCPConnection_move_to_segments_out tc)"
proof -
  have q: "carries S isn seg" "ack (seg_header seg) \<longrightarrow> tr_have_SYN (tc_receiver tc)"
    if "seg \<in> set (ts_segments_out (tc_sender tc))" for seg
    using that assms sendsD(9) [of S isn "tc_sender tc"] by (auto simp: connects_def flagged_def)
  have "flagged ((tc_sender tc)\<lparr>ts_segments_out := []\<rparr>)"
    using assms by (auto simp: connects_def flagged_def)
  then show ?thesis
    using assms q by (auto simp: connects_def intro: sends_segments_out acknowledges_stamp)
qed

text \<open>What every method keeps of a connection, but for the numbers acknowledged by the peer.\<close>

definition connection_frame :: "tcp_connection \<Rightarrow> tcp_connection \<Rightarrow> bool" where
  "connection_frame tc tc' \<longleftrightarrow>
     tc_cfg tc' = tc_cfg tc \<and> ack_position (tc_receiver tc) \<le> ack_position (tc_receiver tc') \<and>
     ts_next_ackno (tc_sender tc') = ts_next_ackno (tc_sender tc) \<and>
     bs_written_length (ts_stream (tc_sender tc')) = bs_written_length (ts_stream (tc_sender tc)) \<and>
     bs_is_ended (ts_stream (tc_sender tc')) = bs_is_ended (ts_stream (tc_sender tc))"

lemma connects_fill:
  assumes "connects S isn T isn' d tc" "length S + 2 ^ 33 < 2 ^ 64"
  shows "runs (TCPSender_fill_window (tc_sender tc)) (\<lambda>sn.
    let tc' = TCPConnection_move_to_segments_out (tc\<lparr>tc_sender := sn\<rparr>)
    in connects S isn T isn' d tc' \<and> connection_frame tc tc')"
proof -
  have "sends S isn (tc_sender tc)"
    using assms(1) by (simp add: connects_def)
  from fill_window_runs [OF this assms(2)] show ?thesis
  proof (rule runsE)
    fix sn assume sn: "TCPSender_fill_window (tc_sender tc) = Inr sn" and inv: "sends S isn sn \<and> ts_next_seqno sn \<noteq> 0 \<and>
      (ts_next_seqno (tc_sender tc) \<noteq> 0 \<longrightarrow> filled (tc_sender tc) sn) \<and>
      (ts_next_ackno (tc_sender tc) \<noteq> 0 \<longrightarrow> \<not> TCPSender_can_send sn)"
    then show ?thesis
      using fill_window_frame [OF sn] assms(1)
      by (auto simp: sender_frame_def stream_kept_def connection_frame_def Let_def
          intro!: connects_move connects_sender)
  qed
qed

lemma receives_carries:
  assumes rc: "receives T isn' c d rc" and seg: "carries T isn' seg" and T: "length T + 1 < 2 ^ 31"
  shows "runs (TCPReceiver_segment_received rc seg) (\<lambda>rc'. receives T isn' c d rc' \<and>
    flags_kept rc rc' \<and> ack_position rc \<le> ack_position rc')"
proof -
  have pos: "stream_position rc \<le> length T"
    using rc by (simp add: receives_def tracks_def stream_position_def)
  have "runs (TCPReceiver_segment_received rc seg) (\<lambda>rc'. receives T isn' c d rc' \<and>
      stream_position rc \<le> stream_position rc')"
  proof (cases "harmless seg")
    case True
    from receives_harmless [OF rc this] show ?thesis
      by (rule runs_mono) simp
  next
    case False
    then obtain i where i: "segment_of T isn' seg i"
      using seg by (auto simp: carries_def)
    then have "i \<le> length T"
      by (simp add: segment_of_def substring_of_def)
    then show ?thesis
      using pos T by (intro runs_mono [OF receives_segment [OF rc i]]) (auto simp: receives_more_def split: if_splits)
  qed
  then show ?thesis
    using ack_position_mono segment_received_flags by (auto simp: runs_def)
qed

lemma connects_set_errors:
  assumes "connects S isn T isn' d tc"
  shows "connects S isn T isn' d (TCPConnection_set_errors tc) \<and> connection_frame tc (TCPConnection_set_errors tc)"
proof -
  let ?rc = "TCPReceiver_set_stream_out (tc_receiver tc) (ByteStream_set_error (TCPReceiver_stream_out (tc_receiver tc)))"
  have "ack_position ?rc = ack_position (tc_receiver tc)"
    by (simp add: ack_position_def TCPReceiver_set_stream_out_def TCPReceiver_stream_out_def stream_position_def
        ByteStream_input_ended_def ByteStream_set_error_def)
  then show ?thesis
    using assms
    by (simp add: connects_def connection_frame_def TCPConnection_set_errors_def receives_set_error)
      (auto simp: flagged_def ByteStream_set_error_def TCPReceiver_set_stream_out_def)
qed

lemma connects_abort:
  assumes "connects S isn T isn' d tc"
  shows "connects S isn T isn' d (TCPConnection_abort tc) \<and> connection_frame tc (TCPConnection_abort tc)"
proof -
  let ?seg = "TCPSegment_default\<lparr>seg_header := TCPHeader_default\<lparr>rst := True\<rparr>\<rparr>"
  let ?tc = "tc\<lparr>tc_segments_out := tc_segments_out tc @ [?seg]\<rparr>"
  have "carries S isn ?seg" "acknowledges isn' p ?seg" for p
    by (simp_all add: carries_def harmless_def acknowledges_def TCPSegment_default_def TCPHeader_default_def)
  then have "connects S isn T isn' d (?tc\<lparr>tc_is_active := False\<rparr>)"
    using assms by (auto simp: connects_def)
  from connects_set_errors [OF this] show ?thesis
    by (auto simp: TCPConnection_abort_def Let_def connection_frame_def)
qed

lemma connects_check_close:
  "connects S isn T isn' d (TCPConnection_check_close tc) = connects S isn T isn' d tc"
  "connection_frame tc (TCPConnection_check_close tc)"
  by (simp_all add: TCPConnection_check_close_def Let_def connection_frame_def)

section \<open>Every method keeps the invariant\<close>

lemma connection_frame_trans:
  "connection_frame tc tc' \<Longrightarrow> connection_frame tc' tc'' \<Longrightarrow> connection_frame tc tc''"
  by (simp add: connection_frame_def)

text \<open>A segment received may also advance the acknowledged number, to what the segment says.\<close>

definition receive_frame :: "wrapping_int32 \<Rightarrow> tcp_segment \<Rightarrow> tcp_connection \<Rightarrow> tcp_connection \<Rightarrow> bool" where
  "receive_frame isn seg tc tc' \<longleftrightarrow>
     tc_cfg tc' = tc_cfg tc \<and> ack_position (tc_receiver tc) \<le> ack_position (tc_receiver tc') \<and>
     bs_written_length (ts_stream (tc_sender tc')) = bs_written_length (ts_stream (tc_sender tc)) \<and>
     bs_is_ended (ts_stream (tc_sender tc')) = bs_is_ended (ts_stream (tc_sender tc)) \<and>
     (ts_next_ackno (tc_sender tc') = ts_next_ackno (tc_sender tc) \<or>
      ack (seg_header seg) \<and> wrap (ts_next_ackno (tc_sender tc')) isn = ackno (seg_header seg))"

lemma receive_frame_trans:
  "receive_frame isn seg tc tc' \<Longrightarrow> connection_frame tc' tc'' \<Longrightarrow> receive_frame isn seg tc tc''"
  "connection_frame tc tc' \<Longrightarrow> receive_frame isn seg tc' tc'' \<Longrightarrow> receive_frame isn seg tc tc''"
  "connection_frame tc tc' \<Longrightarrow> receive_frame isn seg tc tc'"
  by (auto simp: connection_frame_def receive_frame_def)

lemma connects_connect:
  assumes "connects S isn T isn' d tc" "length S + 2 ^ 33 < 2 ^ 64"
  shows "runs (TCPConnection_connect tc) (\<lambda>tc'. connects S isn T isn' d tc' \<and> connection_frame tc tc')"
  using connects_fill [OF assms] by (simp add: TCPConnection_connect_def Let_def)

lemma connects_ack:
  assumes inv: "connects S isn T isn' d tc" and S: "length S + 2 ^ 33 < 2 ^ 64"
    and seg: "ack (seg_header seg)"
  defines "sn \<equiv> TCPSender_ack_received (tc_sender tc) (ackno (seg_header seg)) (win (seg_header seg))"
  shows "connects S isn T isn' d (tc\<lparr>tc_sender := sn\<rparr>) \<and> receive_frame isn seg tc (tc\<lparr>tc_sender := sn\<rparr>)"
proof -
  have sends: "sends S isn (tc_sender tc)"
    using inv by (simp add: connects_def)
  have kept: "stream_kept (tc_sender tc) sn" "sends S isn sn"
    using ack_received_kept sends_ack_received [OF sends S] by (simp_all add: sn_def)
  have "ts_next_ackno sn = ts_next_ackno (tc_sender tc) \<or> wrap (ts_next_ackno sn) isn = ackno (seg_header seg)"
    using ack_received_effect [OF sends S, of "ackno (seg_header seg)" "win (seg_header seg)"]
    by (auto simp: sn_def acknowledged_def ack_ignored_def split: if_splits)
  then show ?thesis
    using inv kept seg by (auto simp: receive_frame_def stream_kept_def intro: connects_sender)
qed

text \<open>\<^verbatim>\<open>segment_received\<close> in three phases: the receiver, the acknowledgment, the answer.\<close>

definition TCPConnection_after_receiver :: "tcp_connection \<Rightarrow> tcp_segment \<Rightarrow> tcp_receiver \<Rightarrow> tcp_connection" where
  "TCPConnection_after_receiver tc seg rc =
     (let tc = tc\<lparr>tc_time_since_last_segment_received := 0, tc_receiver := rc\<rparr>
      in if rst (seg_header seg) then TCPConnection_set_errors (tc\<lparr>tc_is_active := False\<rparr>) else tc)"

definition TCPConnection_process_ack :: "tcp_connection \<Rightarrow> tcp_segment \<Rightarrow> tcp_connection outcome" where
  "TCPConnection_process_ack tc seg =
     (if TCPSender_next_seqno_absolute (tc_sender tc) \<noteq> 0 \<and> ack (seg_header seg)
      then TCPConnection_connect (tc\<lparr>tc_sender :=
             TCPSender_ack_received (tc_sender tc) (ackno (seg_header seg)) (win (seg_header seg))\<rparr>)
      else Inr tc)"

definition TCPConnection_answer :: "tcp_connection \<Rightarrow> tcp_segment \<Rightarrow> tcp_connection outcome" where
  "TCPConnection_answer tc seg =
     (if TCPSegment_length_in_sequence_space seg > 0 then
        if TCPSender_next_seqno_absolute (tc_sender tc) = 0 then TCPConnection_connect tc
        else Inr (TCPConnection_check_close (TCPConnection_move_to_segments_out
               (if tc_segments_out tc = []
                then tc\<lparr>tc_sender := TCPSender_send_empty_segment (tc_sender tc)\<rparr> else tc)))
      else Inr (TCPConnection_check_close tc))"

lemma segment_received_phases:
  "TCPConnection_segment_received tc seg =
     bindE (TCPReceiver_segment_received (tc_receiver tc) seg) (\<lambda>rc.
     bindE (TCPConnection_process_ack (TCPConnection_after_receiver tc seg rc) seg) (\<lambda>tc.
       TCPConnection_answer tc seg))"
proof -
  have "TCPConnection_process_ack tc seg =
      (if TCPSender_next_seqno_absolute (tc_sender tc) \<noteq> 0 \<and> ack (seg_header seg)
       then bindE (TCPSender_fill_window
                     (TCPSender_ack_received (tc_sender tc) (ackno (seg_header seg)) (win (seg_header seg)))) (\<lambda>sn.
              Inr (TCPConnection_move_to_segments_out (tc\<lparr>tc_sender := sn\<rparr>)))
       else Inr tc)" for tc
    by (simp add: TCPConnection_process_ack_def TCPConnection_connect_def)
  then show ?thesis
    by (simp only: TCPConnection_segment_received_def TCPConnection_answer_def TCPConnection_after_receiver_def Let_def)
qed

lemma connects_process_ack:
  assumes inv: "connects S isn T isn' d tc" and S: "length S + 2 ^ 33 < 2 ^ 64"
  shows "runs (TCPConnection_process_ack tc seg) (\<lambda>tc'. connects S isn T isn' d tc' \<and> receive_frame isn seg tc tc')"
proof (cases "TCPSender_next_seqno_absolute (tc_sender tc) \<noteq> 0 \<and> ack (seg_header seg)")
  case True
  note a = connects_ack [OF inv S, of seg]
  from True a have "connects S isn T isn' d (tc\<lparr>tc_sender :=
      TCPSender_ack_received (tc_sender tc) (ackno (seg_header seg)) (win (seg_header seg))\<rparr>)"
    by simp
  from connects_connect [OF this S] show ?thesis
    using True a by (simp add: TCPConnection_process_ack_def) (auto elim!: runs_mono intro: receive_frame_trans(1))
next
  case False
  then show ?thesis
    using inv by (auto simp: TCPConnection_process_ack_def receive_frame_def)
qed

lemma connects_answer:
  assumes inv: "connects S isn T isn' d tc" and S: "length S + 2 ^ 33 < 2 ^ 64"
  shows "runs (TCPConnection_answer tc seg) (\<lambda>tc'. connects S isn T isn' d tc' \<and> connection_frame tc tc')"
proof -
  have sends: "sends S isn (tc_sender tc)"
    using inv by (simp add: connects_def)
  let ?tc = "tc\<lparr>tc_sender := TCPSender_send_empty_segment (tc_sender tc)\<rparr>"
  have "connects S isn T isn' d ?tc" "connection_frame tc ?tc"
    using connects_sender [OF inv sends_send_empty_segment [OF sends]] send_empty_segment_frame [of "tc_sender tc"]
    by (simp_all add: sender_frame_def stream_kept_def connection_frame_def)
  moreover have "connection_frame tc' (TCPConnection_move_to_segments_out tc')" for tc'
    by (simp add: connection_frame_def)
  ultimately show ?thesis
    using connects_connect [OF inv S] inv
    by (auto simp: TCPConnection_answer_def connects_check_close(1)
        intro: connection_frame_trans [OF _ connects_check_close(2)] connection_frame_trans connects_move
          connects_check_close(2))
qed

lemma connects_segment_received:
  assumes inv: "connects S isn T isn' d tc" and S: "length S + 2 ^ 33 < 2 ^ 64"
    and seg: "carries T isn' seg" and T: "length T + 1 < 2 ^ 31"
  shows "runs (TCPConnection_segment_received tc seg) (\<lambda>tc'.
    connects S isn T isn' d tc' \<and> receive_frame isn seg tc tc')"
proof -
  have "connects S isn T isn' d (TCPConnection_after_receiver tc seg rc) \<and>
      connection_frame tc (TCPConnection_after_receiver tc seg rc)"
    if "receives T isn' (recv_capacity (tc_cfg tc)) d rc" "flags_kept (tc_receiver tc) rc"
      "ack_position (tc_receiver tc) \<le> ack_position rc" for rc
  proof -
    let ?tc = "tc\<lparr>tc_time_since_last_segment_received := 0, tc_receiver := rc\<rparr>"
    have tc: "connects S isn T isn' d ?tc"
      using connects_receiver [of S isn T isn' d "tc\<lparr>tc_time_since_last_segment_received := 0\<rparr>" d rc] inv that
      by (simp add: flags_kept_def)
    then have "connects S isn T isn' d (?tc\<lparr>tc_is_active := False\<rparr>)"
      by (simp only: connects_flags)
    from connects_set_errors [OF this] show ?thesis
      using tc that(3) by (simp add: TCPConnection_after_receiver_def Let_def connection_frame_def)
  qed
  moreover have "receives T isn' (recv_capacity (tc_cfg tc)) d (tc_receiver tc)"
    using inv by (simp add: connects_def)
  ultimately show ?thesis
    unfolding segment_received_phases runs_bindE
    by (intro runs_mono [OF receives_carries [OF _ seg T]] runs_mono [OF connects_process_ack [OF _ S]]
        runs_mono [OF connects_answer [OF _ S]])
      (auto intro: receive_frame_trans)
qed

lemma flagged_stream: "flagged sn \<Longrightarrow> bs_is_ended st = bs_is_ended (ts_stream sn) \<Longrightarrow> flagged (sn\<lparr>ts_stream := st\<rparr>)"
  by (simp add: flagged_def)

text \<open>Only the bytes a write accepts matter.\<close>

lemma write_accepted:
  fixes st :: byte_stream and data :: bytes
  defines "n \<equiv> snd (ByteStream_write st data)"
  assumes "ByteStream_wf st" "fits data"
  shows "fst (ByteStream_write st (take (unat n) data)) = fst (ByteStream_write st data)"
proof -
  have form: "fst (ByteStream_write st x) = st\<lparr>bs_buffer := bs_buffer st @ take (unat (snd (ByteStream_write st x))) x,
      bs_written_length := bs_written_length st + snd (ByteStream_write st x)\<rparr>" for x
    by (simp add: ByteStream_write_def Let_def)
  have n: "unat n = min (unat (bs_capacity st) - length (bs_buffer st)) (length data)"
    unfolding n_def by (rule ByteStream_write_wf(2) [OF assms(2,3)])
  have "unat (snd (ByteStream_write st (take (unat n) data))) = unat n"
    using ByteStream_write_wf(2) [of st "take (unat n) data"] assms n by simp
  then have "snd (ByteStream_write st (take (unat n) data)) = n"
    by (simp only: word_unat_eq_iff)
  then show ?thesis
    using form [of "take (unat n) data"] form [of data] by (simp add: n_def)
qed

lemma connects_write:
  assumes inv: "connects S isn T isn' d tc" and S: "length S + 2 ^ 33 < 2 ^ 64"
    and data: "fits data" "\<not> bs_is_ended (ts_stream (tc_sender tc))"
    and accepted: "n = snd (ByteStream_write (ts_stream (tc_sender tc)) data)"
      "substring_of S (take (unat n) data) (unat (bs_written_length (ts_stream (tc_sender tc)))) False"
  shows "runs (TCPConnection_write tc data) (\<lambda>(tc', n'). n' = n \<and> connects S isn T isn' d tc' \<and>
    connection_frame (tc\<lparr>tc_sender := (tc_sender tc)\<lparr>ts_stream :=
      (ts_stream (tc_sender tc))\<lparr>bs_written_length := bs_written_length (ts_stream (tc_sender tc)) + n\<rparr>\<rparr>\<rparr>) tc')"
proof -
  let ?st = "ts_stream (tc_sender tc)"
  let ?sn = "(tc_sender tc)\<lparr>ts_stream := fst (ByteStream_write ?st data)\<rparr>"
  have sends: "sends S isn (tc_sender tc)" "flagged (tc_sender tc)"
    using inv by (simp_all add: connects_def)
  have wf: "ByteStream_wf ?st"
    by (rule sendsD(2) [OF sends(1)])
  have ended: "\<not> bs_is_ended (fst (ByteStream_write ?st data))"
    using data(2) ByteStream_write_wf(5) [OF wf data(1)] by simp
  have "sends S isn ?sn"
    using sends_write [OF sends(1) _ data(2) accepted(2)] data(1) S write_accepted [OF wf data(1)]
    by (simp add: accepted(1))
  moreover have "flagged ?sn"
    using flagged_stream [OF sends(2)] data(2) ended by simp
  ultimately have tc: "connects S isn T isn' d (tc\<lparr>tc_sender := ?sn\<rparr>)"
    using inv ended by (simp add: connects_def)
  have "bs_written_length (fst (ByteStream_write ?st data)) = bs_written_length ?st + n"
    unfolding accepted(1) by (rule ByteStream_write_wf(3) [OF wf data(1)])
  with connects_fill [OF tc S] show ?thesis
    using ended data(2) by (auto simp: TCPConnection_write_def Let_def split_def accepted(1) connection_frame_def elim!: runs_mono)
qed

lemma connects_end_input_stream:
  assumes inv: "connects S isn T isn' d tc" and S: "length S + 2 ^ 33 < 2 ^ 64"
    and all: "unat (bs_written_length (ts_stream (tc_sender tc))) = length S" and syn: "tr_have_SYN (tc_receiver tc)"
  shows "runs (TCPConnection_end_input_stream tc) (\<lambda>tc'. connects S isn T isn' d tc' \<and>
    connection_frame (tc\<lparr>tc_sender := (tc_sender tc)\<lparr>ts_stream := ByteStream_end_input (ts_stream (tc_sender tc))\<rparr>\<rparr>) tc')"
proof -
  let ?sn = "(tc_sender tc)\<lparr>ts_stream := ByteStream_end_input (ts_stream (tc_sender tc))\<rparr>"
  have "connects S isn T isn' d (tc\<lparr>tc_sender := ?sn\<rparr>)"
    using inv syn sends_end_input [OF _ all]
    by (simp add: connects_def) (simp add: flagged_def ByteStream_end_input_def)
  from connects_fill [OF this S] show ?thesis
    by (simp add: TCPConnection_end_input_stream_def Let_def)
qed

lemma connects_tick:
  assumes inv: "connects S isn T isn' d tc"
  shows "runs (TCPConnection_tick tc ms) (\<lambda>tc'. connects S isn T isn' d tc' \<and> connection_frame tc tc')"
proof -
  have sends: "sends S isn (tc_sender tc)"
    using inv by (simp add: connects_def)
  obtain sn where sn: "TCPSender_tick (tc_sender tc) ms = Inr sn" "sends S isn sn"
    using tick_runs [OF sends, of ms] by (auto elim: runsE)
  have frame: "sender_frame (tc_sender tc) sn"
    by (rule tick_frame [OF sn(1)])
  have "connects S isn T isn' d (tc\<lparr>tc_sender := sn\<rparr>)"
    using connects_sender [OF inv sn(2)] frame by (simp add: sender_frame_def)
  then have tc: "connects S isn T isn' d (tc\<lparr>tc_sender := sn, tc_time_since_last_segment_received := t\<rparr>)"
    "connects S isn T isn' d (tc\<lparr>tc_sender := sn, tc_time_since_last_segment_received := t, tc_is_active := False\<rparr>)" for t
    by simp_all
  have fr: "connection_frame tc (tc\<lparr>tc_sender := sn, tc_time_since_last_segment_received := t\<rparr>)"
    "connection_frame tc (tc\<lparr>tc_sender := sn, tc_time_since_last_segment_received := t, tc_is_active := False\<rparr>)" for t
    using frame by (simp_all add: connection_frame_def sender_frame_def stream_kept_def)
  have mv: "connection_frame tc' (TCPConnection_move_to_segments_out tc')" for tc'
    by (simp add: connection_frame_def)
  show ?thesis
    using connects_abort [OF tc(1)] connects_abort [OF tc(2)] connects_move [OF tc(1)] connects_move [OF tc(2)]
    by (auto simp: TCPConnection_tick_def sn(1) Let_def intro: connection_frame_trans [OF fr(1)]
        connection_frame_trans [OF fr(2)] mv)
qed

lemma connects_read:
  fixes n :: size_t and tc :: tcp_connection
  assumes inv: "connects S isn T isn' d tc" and T: "length T + unat (recv_capacity (tc_cfg tc)) < 2 ^ 64"
  defines "r \<equiv> ByteStream_read (TCPConnection_inbound_stream tc) n"
  shows "connects S isn T isn' (d @ snd r) (TCPConnection_set_inbound_stream tc (fst r)) \<and>
    connection_frame tc (TCPConnection_set_inbound_stream tc (fst r))"
proof -
  let ?rc = "TCPReceiver_set_stream_out (tc_receiver tc) (fst r)"
  have rc: "receives T isn' (recv_capacity (tc_cfg tc)) d (tc_receiver tc)"
    using inv by (simp add: connects_def)
  have "receives T isn' (recv_capacity (tc_cfg tc)) (d @ snd r) ?rc"
  proof (cases "n > ByteStream_buffer_size (TCPReceiver_stream_out (tc_receiver tc))")
    case True
    then show ?thesis
      using rc by (simp add: r_def ByteStream_read_def TCPConnection_inbound_stream_def receives_set_error)
  next
    case False
    have "ByteStream_wf (TCPReceiver_stream_out (tc_receiver tc))"
      using StreamReassembler_wfD receives_wf [OF rc] by (auto simp: TCPReceiver_wf_def TCPReceiver_stream_out_def)
    then show ?thesis
      using False receives_read [OF rc _ T] by (simp add: r_def TCPConnection_inbound_stream_def word_less_nat_alt)
  qed
  moreover have "ack_position ?rc = ack_position (tc_receiver tc)" "tr_have_SYN ?rc = tr_have_SYN (tc_receiver tc)"
    using read_flags [of "TCPReceiver_stream_out (tc_receiver tc)" n]
    by (simp_all add: r_def TCPConnection_inbound_stream_def ack_position_def TCPReceiver_set_stream_out_def
        TCPReceiver_stream_out_def stream_position_def ByteStream_input_ended_def)
  ultimately show ?thesis
    using connects_receiver [OF inv, of _ ?rc]
    by (simp add: TCPConnection_set_inbound_stream_def connection_frame_def)
qed

end
