(* ===== verification/Connecting.thy ===== *)
theory Connecting
  imports Tcp_Connection
begin

text \<open>
  What a connection does at the points where its state changes: how it opens, when it resets,
  when it gives up retransmitting, and when it becomes inactive.
\<close>

section \<open>Giving a connection up\<close>

text \<open>A connection given up: inactive, with both streams in error.\<close>

definition given_up :: "tcp_connection \<Rightarrow> bool" where
  "given_up tc \<longleftrightarrow> \<not> tc_is_active tc \<and> bs_error (ts_stream (tc_sender tc)) \<and>
     bs_error (TCPReceiver_stream_out (tc_receiver tc))"

lemma given_up_RESET: "given_up tc \<Longrightarrow> TCPState_eq (TCPConnection_state tc) (TCPState_of_official RESET)"
  by (simp add: given_up_def TCPState_eq_def TCPConnection_state_def TCPState_new_def TCPConnection_active_def
      TCPState_sender_summary_def TCPState_receiver_summary_def)

lemma given_up_connect: "TCPConnection_connect tc = Inr tc' \<Longrightarrow> given_up tc \<Longrightarrow> given_up tc'"
  by (auto simp: TCPConnection_connect_def bindE_Inr_iff given_up_def sender_frame_def stream_kept_def
      dest!: fill_window_frame)

lemma given_up_abort: "given_up (TCPConnection_abort tc)"
  by (simp add: given_up_def TCPConnection_abort_def TCPConnection_set_errors_def Let_def
      TCPReceiver_set_stream_out_def TCPReceiver_stream_out_def ByteStream_set_error_def)

lemma given_up_sender: "given_up tc \<Longrightarrow> stream_kept (tc_sender tc) sn \<Longrightarrow> given_up (tc\<lparr>tc_sender := sn\<rparr>)"
  by (simp add: given_up_def stream_kept_def)

lemma given_up_process_ack:
  assumes "TCPConnection_process_ack tc seg = Inr tc'" "given_up tc"
  shows "given_up tc'"
  using assms given_up_connect [OF _ given_up_sender [OF assms(2) ack_received_kept]]
  by (simp add: TCPConnection_process_ack_def split: if_split_asm)

lemma given_up_moves [simp]:
  "given_up (TCPConnection_move_to_segments_out tc) = given_up tc"
  "given_up tc \<Longrightarrow> given_up (TCPConnection_check_close tc)"
  by (simp_all add: given_up_def TCPConnection_check_close_def Let_def)

lemma given_up_answer:
  assumes "TCPConnection_answer tc seg = Inr tc'" "given_up tc"
  shows "given_up tc'"
proof -
  have "given_up (tc\<lparr>tc_sender := TCPSender_send_empty_segment (tc_sender tc)\<rparr>)"
    using given_up_sender [OF assms(2)] send_empty_segment_frame by (simp add: sender_frame_def)
  then show ?thesis
    using assms given_up_connect [OF _ assms(2)]
    by (auto simp: TCPConnection_answer_def split: if_split_asm)
qed

lemma given_up_after_receiver: "rst (seg_header seg) \<Longrightarrow> given_up (TCPConnection_after_receiver tc seg rc)"
  by (simp add: given_up_def TCPConnection_after_receiver_def TCPConnection_set_errors_def Let_def
      TCPReceiver_set_stream_out_def TCPReceiver_stream_out_def ByteStream_set_error_def)




lemma connect_fresh:
  "tc_sender tc = TCPSender_new c rt f r \<Longrightarrow>
   TCPConnection_connect tc = Inr (TCPConnection_move_to_segments_out (tc\<lparr>tc_sender := TCPSender_send_syn (tc_sender tc)\<rparr>))"
  by (simp add: TCPConnection_connect_def TCPSender_fill_window_def
      TCPSender_current_state_def TCPSender_next_seqno_absolute_def) (simp add: TCPSender_new_def)

lemmas connect_new = connect_fresh [of "TCPConnection_new cfg r" "send_capacity cfg" "rt_timeout cfg" "fixed_isn cfg" r for cfg r,
  unfolded TCPConnection_new_def, simplified, folded TCPConnection_new_def]


text \<open>The first segment that arrives at a new connection, when it occupies sequence numbers.\<close>

lemma first_segment_received:
  assumes rc: "TCPReceiver_segment_received (TCPReceiver_new (recv_capacity cfg)) seg = Inr rc"
    and seg: "0 < TCPSegment_length_in_sequence_space seg" "\<not> rst (seg_header seg)"
  shows "TCPConnection_segment_received (TCPConnection_new cfg r) seg =
    Inr (TCPConnection_move_to_segments_out ((TCPConnection_new cfg r)
      \<lparr>tc_time_since_last_segment_received := 0, tc_receiver := rc,
       tc_sender := TCPSender_send_syn (TCPSender_new (send_capacity cfg) (rt_timeout cfg) (fixed_isn cfg) r)\<rparr>))"
proof -
  let ?tc = "(TCPConnection_new cfg r)\<lparr>tc_time_since_last_segment_received := 0, tc_receiver := rc\<rparr>"
  have new: "tc_sender (TCPConnection_new cfg r) = TCPSender_new (send_capacity cfg) (rt_timeout cfg) (fixed_isn cfg) r"
    "tc_receiver (TCPConnection_new cfg r) = TCPReceiver_new (recv_capacity cfg)"
    "ts_next_seqno (tc_sender (TCPConnection_new cfg r)) = 0"
    by (simp_all add: TCPConnection_new_def TCPSender_new_def)
  have "TCPConnection_segment_received (TCPConnection_new cfg r) seg = TCPConnection_connect ?tc"
    unfolding segment_received_phases new(2) rc
    using seg new(3) by (simp add: TCPConnection_after_receiver_def TCPConnection_process_ack_def TCPConnection_answer_def
        TCPSender_next_seqno_absolute_def)
  then show ?thesis
    using connect_fresh [of ?tc] new(1) by simp
qed

lemma new_receiver_values:
  "\<not> bs_error (TCPReceiver_stream_out ((TCPReceiver_new c)\<lparr>tr_have_SYN := b, tr_icn := s\<rparr>))"
  "\<not> bs_is_ended (TCPReceiver_stream_out ((TCPReceiver_new c)\<lparr>tr_have_SYN := b, tr_icn := s\<rparr>))"
  "\<not> bs_error (TCPReceiver_stream_out (TCPReceiver_new c))"
  "TCPReceiver_ackno ((TCPReceiver_new c)\<lparr>tr_have_SYN := True, tr_icn := s\<rparr>) = Some (wrap 1 s)"
  "TCPReceiver_window_size ((TCPReceiver_new c)\<lparr>tr_have_SYN := True, tr_icn := s\<rparr>) = c"
  "TCPReceiver_ackno (TCPReceiver_new c) = None"
  by (simp_all add: TCPReceiver_ackno_def TCPReceiver_window_size_def TCPReceiver_stream_out_def TCPReceiver_new_def
      StreamReassembler_new_def byte_stream_defs)

lemma new_connection_values:
  "tc_sender (TCPConnection_new cfg r) = TCPSender_new (send_capacity cfg) (rt_timeout cfg) (fixed_isn cfg) r"
  "tc_receiver (TCPConnection_new cfg r) = TCPReceiver_new (recv_capacity cfg)"
  "tc_segments_out (TCPConnection_new cfg r) = []" "tc_is_active (TCPConnection_new cfg r)"
  "tc_linger_after_streams_finish (TCPConnection_new cfg r)"
  by (simp_all add: TCPConnection_new_def)

text \<open>The SYN without anything else.\<close>

definition syn_segment :: "wrapping_int32 \<Rightarrow> tcp_segment" where
  "syn_segment s = TCPSegment_default\<lparr>seg_header := TCPHeader_default\<lparr>seqno := s, syn := True\<rparr>\<rparr>"

lemma syn_segment_received:
  "TCPReceiver_segment_received (TCPReceiver_new c) (syn_segment s) =
     Inr ((TCPReceiver_new c)\<lparr>tr_have_SYN := True, tr_icn := s\<rparr>)"
  "0 < TCPSegment_length_in_sequence_space (syn_segment s)" "\<not> rst (seg_header (syn_segment s))"
  by (simp_all add: TCPReceiver_segment_received_def TCPReceiver_receive_payload_def Let_def syn_segment_def
      TCPSegment_default_def TCPHeader_default_def TCPReceiver_new_def Buffer_copy_def StreamReassembler_new_def
      StreamReassembler_push_substring_def StreamReassembler_eof_process_def TCPSegment_length_in_sequence_space_def)

lemmas state_eval =
  TCPConnection_state_def TCPState_eq_def TCPState_new_def TCPState_sender_summary_def
  TCPState_receiver_summary_def TCPConnection_active_def TCPConnection_stamp_def TCPSegment_default_def
  sender_eval new_connection_values new_receiver_values

text \<open>
  C21. The opening of a connection.  A new connection is in the state LISTEN; \<^verbatim>\<open>connect\<close> sends
  one SYN with the initial sequence number and goes to SYN_SENT; a SYN that arrives first is
  answered by a SYN that acknowledges it and advertises the whole capacity, modulo the width
  of the field, and the connection goes to SYN_RCVD.
\<close>

theorem connection_opens:
  fixes cfg :: tcp_config and r :: u32
  defines "isn \<equiv> (case fixed_isn cfg of Some i \<Rightarrow> i | None \<Rightarrow> WrappingInt32 r)"
  shows "TCPState_eq (TCPConnection_state (TCPConnection_new cfg r)) (TCPState_of_official LISTEN) \<and>
    runs (TCPConnection_connect (TCPConnection_new cfg r)) (\<lambda>tc'.
      TCPState_eq (TCPConnection_state tc') (TCPState_of_official SYN_SENT) \<and>
      map (\<lambda>seg. (seqno (seg_header seg), syn (seg_header seg), ack (seg_header seg))) (tc_segments_out tc') =
        [(isn, True, False)]) \<and>
    runs (TCPConnection_segment_received (TCPConnection_new cfg r) (syn_segment s)) (\<lambda>tc'.
      TCPState_eq (TCPConnection_state tc') (TCPState_of_official SYN_RCVD) \<and>
      map (\<lambda>seg. (seqno (seg_header seg), syn (seg_header seg), ack (seg_header seg), ackno (seg_header seg),
          win (seg_header seg))) (tc_segments_out tc') =
        [(isn, True, True, wrap 1 s, ucast (recv_capacity cfg))])"
  by (simp add: first_segment_received [OF syn_segment_received] connect_new) (simp add: state_eval isn_def)

text \<open>
  The advertised window is the window size modulo 65536: a connection whose receive
  capacity is 65536 answers a SYN with a window of zero, although all its capacity is free.
\<close>

theorem advertised_window_truncated:
  assumes "recv_capacity cfg = 65536"
  shows "runs (TCPConnection_segment_received (TCPConnection_new cfg r) (syn_segment s)) (\<lambda>tc'.
    TCPReceiver_window_size (tc_receiver tc') = 65536 \<and>
    map (\<lambda>seg. win (seg_header seg)) (tc_segments_out tc') = [0])"
  using assms by (simp add: first_segment_received [OF syn_segment_received]) (simp add: state_eval)

theorem advertised_window_truncated_witness:
  "runs (TCPConnection_segment_received (TCPConnection_new (TCPConfig_default\<lparr>recv_capacity := 65536\<rparr>) 0)
      (syn_segment (WrappingInt32 0))) (\<lambda>tc'. map (\<lambda>seg. win (seg_header seg)) (tc_segments_out tc') = [0])"
  by (rule runs_mono [OF advertised_window_truncated]) simp_all

text \<open>
  A connection in the state LISTEN does not wait for a SYN: any segment with a payload or
  a FIN, which the receiver ignores because it has seen no SYN, makes it send a SYN of its own
  without acknowledgment, as an active open would, and go to SYN_SENT.
\<close>

theorem listen_opens_without_syn:
  assumes "\<not> syn (seg_header seg)" "\<not> rst (seg_header seg)" "0 < TCPSegment_length_in_sequence_space seg"
  shows "runs (TCPConnection_segment_received (TCPConnection_new cfg r) seg) (\<lambda>tc'.
    tc_receiver tc' = TCPReceiver_new (recv_capacity cfg) \<and>
    map (\<lambda>seg. (syn (seg_header seg), ack (seg_header seg))) (tc_segments_out tc') = [(True, False)] \<and>
    TCPState_eq (TCPConnection_state tc') (TCPState_of_official SYN_SENT))"
proof -
  have "TCPReceiver_segment_received (TCPReceiver_new (recv_capacity cfg)) seg = Inr (TCPReceiver_new (recv_capacity cfg))"
    using assms(1) by (simp add: TCPReceiver_segment_received_def) (simp add: TCPReceiver_new_def)
  from first_segment_received [OF this assms(3,2)] show ?thesis
    by (simp add: state_eval)
qed

theorem listen_opens_without_syn_witness:
  "runs (TCPConnection_segment_received (TCPConnection_new TCPConfig_default 0)
      (TCPSegment_default\<lparr>seg_header := TCPHeader_default\<lparr>fin := True\<rparr>\<rparr>)) (\<lambda>tc'.
    TCPState_eq (TCPConnection_state tc') (TCPState_of_official SYN_SENT))"
  by (rule runs_mono [OF listen_opens_without_syn])
    (simp_all add: TCPSegment_default_def TCPHeader_default_def TCPSegment_length_in_sequence_space_def)

lemma connect_active: "TCPConnection_connect tc = Inr tc' \<Longrightarrow> tc_is_active tc' = tc_is_active tc"
  by (auto simp: TCPConnection_connect_def bindE_Inr_iff)

lemma process_ack_active: "TCPConnection_process_ack tc seg = Inr tc' \<Longrightarrow> tc_is_active tc' = tc_is_active tc"
  by (auto simp: TCPConnection_process_ack_def dest: connect_active split: if_split_asm)

lemma check_close_active:
  "tc_is_active tc \<Longrightarrow> tc_is_active (TCPConnection_check_close tc) \<or>
     \<not> tc_linger_after_streams_finish (TCPConnection_check_close tc) \<and>
     TCPConnection_is_satisfied_prereq (TCPConnection_check_close tc)"
  by (auto simp: TCPConnection_check_close_def TCPConnection_is_satisfied_prereq_def Let_def)

lemma answer_active:
  "TCPConnection_answer tc seg = Inr tc' \<Longrightarrow> tc_is_active tc \<Longrightarrow>
   tc_is_active tc' \<or> \<not> tc_linger_after_streams_finish tc' \<and> TCPConnection_is_satisfied_prereq tc'"
  using check_close_active [of tc] check_close_active [of "TCPConnection_move_to_segments_out
      (if tc_segments_out tc = [] then tc\<lparr>tc_sender := TCPSender_send_empty_segment (tc_sender tc)\<rparr> else tc)"]
  by (auto simp: TCPConnection_answer_def dest: connect_active split: if_split_asm)



end
