(* ===== verification/File_Descriptors.thy ===== *)
theory File_Descriptors
  imports Buffers
begin

text \<open>
  \<^verbatim>\<open>SystemCall\<close> of \<^verbatim>\<open>libsponge/util/util.cc\<close> and \<^verbatim>\<open>libsponge/util/file_descriptor.{hh,cc}\<close>.  A system
  call is an argument: a function from what the code passes to an error number or a result.  A
  write that is to write everything does so, whatever pieces the kernel takes.
\<close>

unbundle bit_operations_syntax

section \<open>System calls\<close>

definition SystemCall :: "string \<Rightarrow> int \<Rightarrow> int \<Rightarrow> int \<Rightarrow> int outcome" where
  "SystemCall attempt return_value errno errno_mask =
     (if return_value \<ge> 0 \<or> errno = errno_mask then Inr return_value else Inl (Tagged_error attempt errno))"

text \<open>The value a system call returns and the \<^verbatim>\<open>errno\<close> it leaves.\<close>

type_synonym 'a syscall = "int + 'a"

definition syscall_value :: "('a \<Rightarrow> nat) \<Rightarrow> 'a syscall \<Rightarrow> int" where
  "syscall_value size_of r = (case r of Inl _ \<Rightarrow> - 1 | Inr x \<Rightarrow> int (size_of x))"

definition syscall_errno :: "'a syscall \<Rightarrow> int" where
  "syscall_errno r = (case r of Inl errno \<Rightarrow> errno | Inr _ \<Rightarrow> 0)"

section \<open>FDWrapper\<close>

record fd_wrapper =
  fdw_fd :: int
  fdw_eof :: bool
  fdw_closed :: bool
  fdw_read_count :: u32
  fdw_write_count :: u32

definition FDWrapper_new :: "int \<Rightarrow> fd_wrapper outcome" where
  "FDWrapper_new fd =
     (if fd < 0 then Inl (Runtime_error (''invalid fd number:'' @ string_of_int fd))
      else Inr \<lparr>fdw_fd = fd, fdw_eof = False, fdw_closed = False, fdw_read_count = 0, fdw_write_count = 0\<rparr>)"

definition FDWrapper_close :: "(int \<Rightarrow> unit syscall) \<Rightarrow> fd_wrapper \<Rightarrow> fd_wrapper outcome" where
  "FDWrapper_close close w =
     bindE (SystemCall ''close'' (syscall_value (\<lambda>_. 0) (close (fdw_fd w))) (syscall_errno (close (fdw_fd w))) 0) (\<lambda>_.
       Inr (w\<lparr>fdw_eof := True, fdw_closed := True\<rparr>))"

text \<open>The destructor: a wrapper that is closed already is left alone; an exception is only printed.\<close>

definition FDWrapper_destroy :: "(int \<Rightarrow> unit syscall) \<Rightarrow> fd_wrapper \<Rightarrow> fd_wrapper" where
  "FDWrapper_destroy close w =
     (if fdw_closed w then w else case FDWrapper_close close w of Inl _ \<Rightarrow> w | Inr w' \<Rightarrow> w')"

section \<open>FileDescriptor\<close>

definition FileDescriptor_register_read :: "fd_wrapper \<Rightarrow> fd_wrapper" where
  "FileDescriptor_register_read w = w\<lparr>fdw_read_count := fdw_read_count w + 1\<rparr>"

definition FileDescriptor_register_write :: "fd_wrapper \<Rightarrow> fd_wrapper" where
  "FileDescriptor_register_write w = w\<lparr>fdw_write_count := fdw_write_count w + 1\<rparr>"

definition BUFFER_SIZE :: size_t where
  "BUFFER_SIZE = 1024 * 1024"

text \<open>
  \<^verbatim>\<open>read\<close> on descriptor and length gives the bytes stored in the string.  \<^verbatim>\<open>str.resize(bytes_read)\<close> of a
  negative count throws.
\<close>

definition FileDescriptor_read ::
  "(int \<Rightarrow> size_t \<Rightarrow> bytes syscall) \<Rightarrow> fd_wrapper \<Rightarrow> size_t \<Rightarrow> (fd_wrapper \<times> bytes) outcome" where
  "FileDescriptor_read read w limit =
     (let size_to_read = min BUFFER_SIZE limit; r = read (fdw_fd w) size_to_read
      in bindE (SystemCall ''read'' (syscall_value length r) (syscall_errno r) 0) (\<lambda>bytes_read.
           let w = if limit > 0 \<and> bytes_read = 0 then w\<lparr>fdw_eof := True\<rparr> else w
           in if bytes_read > int (unat size_to_read) then Inl (Runtime_error ''read() read more than requested'')
              else if bytes_read < 0 then Inl (Length_error ''basic_string::resize'')
              else Inr (FileDescriptor_register_read w, case r of Inl _ \<Rightarrow> [] | Inr str \<Rightarrow> str)))"

text \<open>
  The loop of \<^verbatim>\<open>write\<close>.  \<open>writev k\<close> is the \<open>k\<close>-th system call of this write, on the \<^verbatim>\<open>iovec\<close>s of what is
  left; \<open>written\<close> collects the bytes the kernel took.
\<close>

lemma BufferViewList_remove_prefix_shorter:
  "BufferViewList_remove_prefix vl n = Inr vl' \<Longrightarrow> 0 < n \<Longrightarrow> length (concat vl') < length (concat vl)"
proof (induction vl n rule: BufferViewList_remove_prefix.induct)
  case (2 v vl n)
  show ?case
  proof (cases "n < sz v")
    case True
    then have "vl' = drop (unat n) v # vl" "v \<noteq> []" "0 < unat n"
      using "2.prems" by (auto simp: unat_gt_0)
    then show ?thesis
      by simp
  next
    case False
    then have rec: "BufferViewList_remove_prefix vl (n - sz v) = Inr vl'"
      using "2.prems" by simp
    show ?thesis
    proof (cases "n - sz v = 0")
      case True
      then have "vl' = vl"
        using rec by (cases vl) auto
      moreover have "v \<noteq> []"
        using True "2.prems" by auto
      ultimately show ?thesis
        by simp
    next
      case False
      then have "0 < n - sz v"
        by (simp add: word_gt_0)
      then show ?thesis
        using "2.IH" \<open>\<not> n < sz v\<close> "2.prems"(2) rec by fastforce
    qed
  qed
qed simp

lemma BufferViewList_remove_prefix_0 [simp]: "BufferViewList_remove_prefix vl 0 = Inr vl"
  by (cases vl) auto

lemma SystemCall_returned:
  "SystemCall attempt (syscall_value size_of r) (syscall_errno r) 0 = Inr x \<Longrightarrow>
     (r = Inl 0 \<and> x = - 1) \<or> (\<exists>y. r = Inr y \<and> x = int (size_of y))"
  by (auto simp: SystemCall_def syscall_value_def syscall_errno_def split: sum.splits if_splits)

lemma SystemCall_cases:
  "SystemCall attempt (syscall_value size_of r) (syscall_errno r) 0 =
     (case r of Inl errno \<Rightarrow> if errno = 0 then Inr (- 1) else Inl (Tagged_error attempt errno)
      | Inr y \<Rightarrow> Inr (int (size_of y)))"
  by (auto simp: SystemCall_def syscall_value_def syscall_errno_def split: sum.splits)

function FileDescriptor_write_loop ::
  "(int \<Rightarrow> nat \<Rightarrow> (bytes \<times> size_t) list \<Rightarrow> nat syscall) \<Rightarrow> bool \<Rightarrow> nat \<Rightarrow> fd_wrapper \<Rightarrow> buffer_view_list \<Rightarrow> size_t \<Rightarrow> bytes \<Rightarrow>
   (fd_wrapper \<times> size_t \<times> bytes) outcome" where
  "FileDescriptor_write_loop writev write_all k w buffer total_bytes_written written =
     (let r = writev (fdw_fd w) k (BufferViewList_as_iovecs buffer)
      in bindE (SystemCall ''writev'' (syscall_value (\<lambda>n. n) r) (syscall_errno r) 0) (\<lambda>bytes_written.
           if bytes_written = 0 \<and> BufferViewList_size buffer \<noteq> 0
           then Inl (Runtime_error ''write returned 0 given non-empty input buffer'')
           else if bytes_written > sint (BufferViewList_size buffer)
           then Inl (Runtime_error ''write wrote more than length of input buffer'')
           else
             bindE (BufferViewList_remove_prefix buffer (word_of_int bytes_written)) (\<lambda>buffer'.
               let w = FileDescriptor_register_write w;
                   total_bytes_written = total_bytes_written + word_of_int bytes_written;
                   written = written @ take (nat bytes_written) (concat buffer)
               in if write_all \<and> BufferViewList_size buffer' \<noteq> 0
                  then FileDescriptor_write_loop writev write_all (Suc k) w buffer' total_bytes_written written
                  else Inr (w, total_bytes_written, written))))"
  by pat_completeness auto
termination
proof (relation "measure (\<lambda>(_, _, _, _, buffer, _, _). length (concat buffer))", goal_cases)
  case (2 writev write_all k w buffer total written r x buffer' w' total' written')
  have "x < 2 ^ 63" "x = - 1 \<or> 0 \<le> x"
    using 2(2,4) SystemCall_returned sint_lt [of "BufferViewList_size buffer"] by fastforce+
  moreover have "x \<noteq> 0"
    using 2(3,5,9) by auto
  ultimately have "(word_of_int x :: size_t) \<noteq> 0"
    by (auto simp: word_of_int_eq_0_iff dest: zdvd_imp_le)
  then show ?case
    using 2(5) BufferViewList_remove_prefix_shorter by (simp add: word_gt_0)
qed simp

declare FileDescriptor_write_loop.simps [simp del]

definition FileDescriptor_write ::
  "(int \<Rightarrow> nat \<Rightarrow> (bytes \<times> size_t) list \<Rightarrow> nat syscall) \<Rightarrow> fd_wrapper \<Rightarrow> buffer_view_list \<Rightarrow> bool \<Rightarrow>
   (fd_wrapper \<times> size_t \<times> bytes) outcome" where
  "FileDescriptor_write writev w buffer write_all = FileDescriptor_write_loop writev write_all 0 w buffer 0 []"

definition O_NONBLOCK :: "32 word" where
  "O_NONBLOCK = 0x800"

text \<open>\<^verbatim>\<open>set_blocking\<close>: the flags \<^verbatim>\<open>F_GETFL\<close> returned, and the flags passed to \<^verbatim>\<open>F_SETFL\<close>.\<close>

definition FileDescriptor_set_blocking ::
  "(int \<Rightarrow> nat syscall) \<Rightarrow> (int \<Rightarrow> 32 word \<Rightarrow> unit syscall) \<Rightarrow> fd_wrapper \<Rightarrow> bool \<Rightarrow> 32 word outcome" where
  "FileDescriptor_set_blocking getfl setfl w blocking_state =
     bindE (SystemCall ''fcntl'' (syscall_value (\<lambda>n. n) (getfl (fdw_fd w))) (syscall_errno (getfl (fdw_fd w))) 0) (\<lambda>ret.
       let flags = word_of_int ret;
           flags = if blocking_state then flags XOR (flags AND O_NONBLOCK) else flags OR O_NONBLOCK;
           r = setfl (fdw_fd w) flags
       in bindE (SystemCall ''fcntl'' (syscall_value (\<lambda>_. 0) r) (syscall_errno r) 0) (\<lambda>_. Inr flags))"

section \<open>What the descriptor operations return\<close>

lemma FileDescriptor_read_result:
  assumes "FileDescriptor_read rd w limit = Inr (w', data)"
  shows "rd (fdw_fd w) (min BUFFER_SIZE limit) = Inr data" "length data \<le> unat limit" "fits data"
    "fdw_closed w' = fdw_closed w" "fdw_eof w' \<longleftrightarrow> fdw_eof w \<or> limit > 0 \<and> data = []"
    "fdw_read_count w' = fdw_read_count w + 1"
proof -
  show r: "rd (fdw_fd w) (min BUFFER_SIZE limit) = Inr data"
    and "fdw_closed w' = fdw_closed w" "fdw_eof w' \<longleftrightarrow> fdw_eof w \<or> limit > 0 \<and> data = []"
    and "fdw_read_count w' = fdw_read_count w + 1"
    using assms by (auto simp: FileDescriptor_read_def Let_def bindE_Inr_iff SystemCall_cases
        FileDescriptor_register_read_def split: sum.splits if_splits)
  define size_to_read where "size_to_read = min BUFFER_SIZE limit"
  have "\<not> int (unat size_to_read) < int (length data)"
    using assms r unfolding FileDescriptor_read_def size_to_read_def [symmetric]
    by (auto simp only: Let_def bindE_Inr_iff SystemCall_cases sum.case split: if_splits)
  then have "length data \<le> unat (min BUFFER_SIZE limit)"
    by (simp only: of_nat_less_iff not_less size_to_read_def)
  moreover have "unat (min BUFFER_SIZE limit) \<le> unat limit"
    by (metis min.cobounded2 word_le_nat_alt)
  ultimately show "length data \<le> unat limit"
    by linarith
  then show "fits data"
    using unat_lt64 [of limit] by (simp add: fits_def)
qed

lemma FileDescriptor_write_once:
  assumes "FileDescriptor_write wv w [buf] False = Inr (w', n, written)" "length buf < 2 ^ 63"
  shows "unat n \<le> length buf" "written = take (unat n) buf" "fdw_closed w' = fdw_closed w" "fdw_eof w' = fdw_eof w"
    "w' = FileDescriptor_register_write w"
proof -
  obtain m where m: "SystemCall ''writev'' (syscall_value (\<lambda>n. n) (wv (fdw_fd w) 0 (BufferViewList_as_iovecs [buf])))
      (syscall_errno (wv (fdw_fd w) 0 (BufferViewList_as_iovecs [buf]))) 0 = Inr m"
    and b: "\<not> m > sint (BufferViewList_size [buf])"
    and rest: "bindE (BufferViewList_remove_prefix [buf] (word_of_int m)) (\<lambda>_.
      Inr (FileDescriptor_register_write w, word_of_int m, take (nat m) buf)) = Inr (w', n, written)"
    using assms(1) unfolding FileDescriptor_write_def
    by (subst (asm) FileDescriptor_write_loop.simps) (auto simp: Let_def bindE_Inr_iff split: if_splits)
  then have n: "n = word_of_int m" "written = take (nat m) buf" "w' = FileDescriptor_register_write w"
    "\<exists>vl'. BufferViewList_remove_prefix [buf] n = Inr vl'"
    by (auto simp: bindE_Inr_iff)
  show le: "unat n \<le> length buf"
    using BufferViewList_remove_prefix_fail [of "[buf]" n] n(4) assms(2) by (fastforce simp: fits_def)
  have "m < 2 ^ 63"
    using b sint_lt [of "BufferViewList_size [buf]"] by simp
  from m consider "m = - 1" | k where "m = int k"
    by (auto dest: SystemCall_returned)
  then have "nat m = unat n"
  proof cases
    case 1
    then have "unat n = 2 ^ 64 - 1"
      using n(1) by (simp add: unsigned_minus_1_eq_mask mask_eq_exp_minus_1)
    then show ?thesis
      using le assms(2) by simp
  next
    case 2
    then show ?thesis
      using n(1) \<open>m < 2 ^ 63\<close> by (simp add: unat_of_nat_eq del: unsigned_of_nat)
  qed
  then show "written = take (unat n) buf" "fdw_closed w' = fdw_closed w" "fdw_eof w' = fdw_eof w"
    "w' = FileDescriptor_register_write w"
    using n(2,3) by (simp_all add: FileDescriptor_register_write_def)
qed

section \<open>What a write does\<close>

text \<open>
  What \<^verbatim>\<open>writev(2)\<close> on a blocking descriptor is documented to do: without an error it takes a prefix
  of the bytes, at least one unless there are none.
\<close>

definition takes_some :: "(int \<Rightarrow> nat \<Rightarrow> (bytes \<times> size_t) list \<Rightarrow> nat syscall) \<Rightarrow> bool" where
  "takes_some writev \<longleftrightarrow> (\<forall>fd k iovecs. \<exists>n. writev fd k iovecs = Inr n \<and> n \<le> length (concat (map fst iovecs)) \<and>
     (concat (map fst iovecs) \<noteq> [] \<longrightarrow> 0 < n))"

lemma concat_iovecs [simp]: "concat (map fst (BufferViewList_as_iovecs vl)) = concat vl"
  by (simp add: BufferViewList_as_iovecs_def comp_def)

lemma sint_small:
  assumes "unat (a :: size_t) < 2 ^ 63"
  shows "sint a = int (unat a)"
proof -
  have "int (unat a) < int (2 ^ 63)"
    using assms by (simp only: of_nat_less_iff)
  then have "uint a < 2 ^ 63"
    by simp
  moreover have "- (2 ^ 63) \<le> uint a"
    using uint_ge_0 [of a] by (rule order_trans [rotated]) simp
  ultimately have "signed_take_bit 63 (uint a) = uint a"
    by (simp only: signed_take_bit_int_eq_self)
  then show ?thesis
    by (simp add: sint_uint)
qed

lemma write_loop_runs:
  assumes "takes_some writev" "\<forall>v \<in> set buffer. fits v" "length (concat buffer) < 2 ^ 63"
  shows "runs (FileDescriptor_write_loop writev write_all k w buffer sofar written) (\<lambda>(w', sofar', written').
    \<exists>n \<le> length (concat buffer). written' = written @ take n (concat buffer) \<and> sofar' = sofar + word_of_nat n \<and>
      (concat buffer \<noteq> [] \<longrightarrow> 0 < n) \<and> (write_all \<longrightarrow> n = length (concat buffer)) \<and>
      fdw_fd w' = fdw_fd w \<and> fdw_eof w' = fdw_eof w \<and> fdw_closed w' = fdw_closed w)"
  using assms
proof (induction "length (concat buffer)" arbitrary: buffer k w sofar written rule: less_induct)
  case less
  define s where "s = concat buffer"
  note small = less.prems(3) [folded s_def]
  obtain n where n: "writev (fdw_fd w) k (BufferViewList_as_iovecs buffer) = Inr n" "n \<le> length s" "s \<noteq> [] \<longrightarrow> 0 < n"
    using less.prems(1) unfolding takes_some_def by (metis concat_iovecs s_def)
  have size: "unat (BufferViewList_size buffer) = length s" "sint (BufferViewList_size buffer) = int (length s)"
    using small sint_small [of "BufferViewList_size buffer"]
    by (simp_all add: BufferViewList_size_eq fits_def flip: s_def)
  have un: "unat (word_of_nat n :: size_t) = n"
    using n(2) small by (intro unat_of_nat_eq) simp
  obtain buffer' where b': "BufferViewList_remove_prefix buffer (word_of_nat n) = Inr buffer'" "\<forall>v \<in> set buffer'. fits v"
    "concat buffer' = drop n s"
    using BufferViewList_remove_prefix_ok [OF less.prems(2), of "word_of_nat n", folded s_def, unfolded un] n(2) by blast
  have c: "\<not> (n = 0 \<and> BufferViewList_size buffer \<noteq> 0)" "\<not> sint (BufferViewList_size buffer) < int n"
    using n(2,3) size(2) by (auto simp: BufferViewList_size_eq simp flip: s_def)
  have step: "FileDescriptor_write_loop writev write_all k w buffer sofar written =
    (if write_all \<and> BufferViewList_size buffer' \<noteq> 0
     then FileDescriptor_write_loop writev write_all (Suc k) (FileDescriptor_register_write w) buffer'
       (sofar + word_of_nat n) (written @ take n s)
     else Inr (FileDescriptor_register_write w, sofar + word_of_nat n, written @ take n s))"
    unfolding FileDescriptor_write_loop.simps [of writev write_all k w buffer sofar written] Let_def n(1)
      SystemCall_cases sum.case bindE.simps s_def [symmetric]
    using b'(1) c by auto
  show ?case
  proof (cases "write_all \<and> BufferViewList_size buffer' \<noteq> 0")
    case False
    then have "write_all \<Longrightarrow> n = length s"
      using b'(3) small n(2) by (simp add: BufferViewList_size_eq sz_eq_0_iff fits_def)
    then show ?thesis
      unfolding step s_def [symmetric] using False n(2,3) by (auto simp: FileDescriptor_register_write_def)
  next
    case True
    then have "s \<noteq> []"
      using b'(3) by (simp add: BufferViewList_size_eq) (metis drop_Nil sz_Nil)
    then have "length (concat buffer') < length (concat buffer)" "0 < n"
      unfolding b'(3) s_def [symmetric] using n by simp_all
    moreover have "length (concat buffer') < 2 ^ 63"
      unfolding b'(3) using small by simp
    moreover note less.hyps [OF _ less.prems(1) b'(2), of "Suc k" "FileDescriptor_register_write w" "sofar + word_of_nat n"
        "written @ take n s"]
    ultimately have "runs (FileDescriptor_write_loop writev write_all k w buffer sofar written) (\<lambda>(w', sofar', written').
        \<exists>m \<le> length (drop n s). written' = (written @ take n s) @ take m (drop n s) \<and>
          sofar' = sofar + word_of_nat n + word_of_nat m \<and> m = length (drop n s) \<and>
          fdw_fd w' = fdw_fd w \<and> fdw_eof w' = fdw_eof w \<and> fdw_closed w' = fdw_closed w)"
      unfolding step b'(3) using True
      by (auto simp: FileDescriptor_register_write_def elim!: runs_mono)
    then show ?thesis
      unfolding s_def [symmetric] by (rule runs_mono) (use n(2) \<open>0 < n\<close> in \<open>auto simp: of_nat_diff\<close>)
  qed
qed

text \<open>A read returns at most what was asked for, and reports the end exactly when a read of some length gave nothing.\<close>

lemma FileDescriptor_read_runs:
  assumes "\<exists>data. read (fdw_fd w) (min BUFFER_SIZE limit) = Inr data \<and> length data \<le> unat (min BUFFER_SIZE limit)"
  shows "runs (FileDescriptor_read read w limit) (\<lambda>(w', data). length data \<le> unat limit \<and>
    read (fdw_fd w) (min BUFFER_SIZE limit) = Inr data \<and> (fdw_eof w' \<longleftrightarrow> fdw_eof w \<or> 0 < limit \<and> data = []) \<and>
    fdw_read_count w' = fdw_read_count w + 1)"
proof -
  define n where "n = min BUFFER_SIZE limit"
  obtain data where data: "read (fdw_fd w) n = Inr data" "length data \<le> unat n"
    using assms by (auto simp only: n_def)
  moreover have "unat n \<le> unat limit"
    by (simp add: n_def)
  moreover have "\<not> int (unat n) < int (length data)"
    using data(2) by (simp only: of_nat_less_iff not_less)
  ultimately show ?thesis
    unfolding FileDescriptor_read_def Let_def n_def [symmetric] SystemCall_cases
    by (auto simp: FileDescriptor_register_read_def simp del: of_nat_unat)
qed

text \<open>What \<^verbatim>\<open>read(2)\<close> on a descriptor that is ready is documented to do.\<close>

definition reads_some :: "(int \<Rightarrow> size_t \<Rightarrow> bytes syscall) \<Rightarrow> bool" where
  "reads_some rd \<longleftrightarrow> (\<forall>fd n. \<exists>data. rd fd n = Inr data \<and> length data \<le> unat n)"

lemma FileDescriptor_read_returns:
  assumes "reads_some rd"
  shows "\<exists>w' data. FileDescriptor_read rd w limit = Inr (w', data)"
  using FileDescriptor_read_runs [of rd w limit] assms unfolding reads_some_def runs_def by fast

lemma FileDescriptor_write_returns:
  assumes "takes_some wr" "length buf < 2 ^ 63"
  shows "\<exists>w' n written. FileDescriptor_write wr w [buf] False = Inr (w', n, written) \<and> (buf \<noteq> [] \<longrightarrow> 0 < unat n)"
proof -
  have "runs (FileDescriptor_write wr w [buf] False) (\<lambda>(w', n, written).
      \<exists>m \<le> length buf. n = word_of_nat m \<and> (buf \<noteq> [] \<longrightarrow> 0 < m))"
    unfolding FileDescriptor_write_def
    by (rule runs_mono [OF write_loop_runs [OF assms(1)]]) (use assms(2) in \<open>auto simp: fits_def\<close>)
  then obtain w' written m where "FileDescriptor_write wr w [buf] False = Inr (w', word_of_nat m, written)" "m \<le> length buf"
    "buf \<noteq> [] \<longrightarrow> 0 < m"
    by (auto simp: runs_def split: sum.splits)
  moreover have "unat (word_of_nat m :: size_t) = m"
    using calculation(2) assms(2) by (intro unat_of_nat_eq) simp
  ultimately show ?thesis
    by metis
qed

lemma FileDescriptor_set_blocking_returns:
  assumes "getfl (fdw_fd w) = Inr flags" "\<And>flags. setfl (fdw_fd w) flags = Inr ()"
  shows "\<exists>flags. FileDescriptor_set_blocking getfl setfl w b = Inr flags"
  using assms by (simp add: FileDescriptor_set_blocking_def SystemCall_cases Let_def)

section \<open>Properties\<close>



end
