(* ===== verification/Event_Loop.thy ===== *)
theory Event_Loop
  imports File_Descriptors "HOL-Library.Sublist"
begin

text \<open>
  \<^verbatim>\<open>libsponge/util/eventloop.{hh,cc}\<close>.  The callbacks of a rule work on the state of the program,
  which holds the shared \<^verbatim>\<open>FDWrapper\<close>s; \<^verbatim>\<open>poll\<close> is an argument.  A rule is called only when its
  descriptor is ready for what it asked, defunct rules are cancelled and leave the list, and a
  callback that neither serves its descriptor nor loses interest is reported.
\<close>

unbundle bit_operations_syntax

section \<open>State\<close>

text \<open>
  A \<^verbatim>\<open>FileDescriptor\<close> is a handle on a shared wrapper: duplicates have the same handle.  The rest of
  the state of the program is arbitrary.
\<close>

record 'a program_state =
  ps_fds :: "nat \<Rightarrow> fd_wrapper"
  ps_user :: 'a

datatype direction = In | Out

definition POLLIN :: u16 where
  "POLLIN = 0x001"

definition POLLOUT :: u16 where
  "POLLOUT = 0x004"

definition POLLERR :: u16 where
  "POLLERR = 0x008"

definition POLLHUP :: u16 where
  "POLLHUP = 0x010"

definition POLLNVAL :: u16 where
  "POLLNVAL = 0x020"

definition EINTR :: int where
  "EINTR = 4"

fun direction_events :: "direction \<Rightarrow> u16" where
  "direction_events In = POLLIN"
| "direction_events Out = POLLOUT"

record 'a rule =
  rule_fd :: nat
  rule_direction :: direction
  rule_callback :: "'a program_state \<Rightarrow> 'a program_state outcome"
  rule_interest :: "'a program_state \<Rightarrow> bool"
  rule_cancel :: "'a program_state \<Rightarrow> 'a program_state outcome"

datatype loop_result = Success | Timeout | Exit

definition EventLoop_service_count :: "'a rule \<Rightarrow> 'a program_state \<Rightarrow> u32" where
  "EventLoop_service_count r s =
     (if rule_direction r = In then fdw_read_count (ps_fds s (rule_fd r)) else fdw_write_count (ps_fds s (rule_fd r)))"

definition EventLoop_add_rule :: "'a rule list \<Rightarrow> nat \<Rightarrow> direction \<Rightarrow> ('a program_state \<Rightarrow> 'a program_state outcome) \<Rightarrow>
   ('a program_state \<Rightarrow> bool) \<Rightarrow> ('a program_state \<Rightarrow> 'a program_state outcome) \<Rightarrow> 'a rule list" where
  "EventLoop_add_rule rules fd direction callback interest cancel =
     rules @ [\<lparr>rule_fd = fd, rule_direction = direction, rule_callback = callback, rule_interest = interest,
               rule_cancel = cancel\<rparr>]"

section \<open>wait\_next\_event\<close>

text \<open>A \<^verbatim>\<open>pollfd\<close>: descriptor number and requested events.\<close>

record pollfd =
  pfd_fd :: int
  pfd_events :: u16

text \<open>The first loop: rules that can never fire again are cancelled, the others give a \<^verbatim>\<open>pollfd\<close> each.\<close>

fun EventLoop_setup ::
  "'a rule list \<Rightarrow> 'a program_state \<Rightarrow> ('a rule list \<times> pollfd list \<times> bool \<times> 'a program_state) outcome" where
  "EventLoop_setup [] s = Inr ([], [], False, s)"
| "EventLoop_setup (this_rule # rules) s =
     (let fd = ps_fds s (rule_fd this_rule)
      in if rule_direction this_rule = In \<and> fdw_eof fd then
           bindE (rule_cancel this_rule s) (\<lambda>s. EventLoop_setup rules s)
         else if fdw_closed fd then
           bindE (rule_cancel this_rule s) (\<lambda>s. EventLoop_setup rules s)
         else
           let interested = rule_interest this_rule s;
               this_pollfd = \<lparr>pfd_fd = fdw_fd fd,
                 pfd_events = if interested then direction_events (rule_direction this_rule) else 0\<rparr>
           in bindE (EventLoop_setup rules s) (\<lambda>(kept, pollfds, something_to_poll, s).
                Inr (this_rule # kept, this_pollfd # pollfds, interested \<or> something_to_poll, s)))"

text \<open>The last loop, over the rules and the answers of \<^verbatim>\<open>poll\<close>.\<close>

fun EventLoop_dispatch ::
  "'a rule list \<Rightarrow> (pollfd \<times> u16) list \<Rightarrow> 'a program_state \<Rightarrow> ('a rule list \<times> 'a program_state) outcome" where
  "EventLoop_dispatch (this_rule # rules) ((this_pollfd, revents) # answers) s =
     (let poll_error = revents AND (POLLERR OR POLLNVAL) \<noteq> 0;
          poll_ready = revents AND pfd_events this_pollfd \<noteq> 0;
          poll_hup = revents AND POLLHUP \<noteq> 0
      in if poll_error then Inl (Runtime_error ''EventLoop: error on polled file descriptor'')
         else if poll_hup \<and> pfd_events this_pollfd \<noteq> 0 \<and> \<not> poll_ready then
           bindE (rule_cancel this_rule s) (\<lambda>s. EventLoop_dispatch rules answers s)
         else
           bindE (if poll_ready then
                    let count_before = EventLoop_service_count this_rule s
                    in bindE (rule_callback this_rule s) (\<lambda>s.
                         if count_before = EventLoop_service_count this_rule s \<and> rule_interest this_rule s
                         then Inl (Runtime_error
                           ''EventLoop: busy wait detected: callback did not read/write fd and is still interested'')
                         else Inr s)
                  else Inr s)
             (\<lambda>s. bindE (EventLoop_dispatch rules answers s) (\<lambda>(kept, s). Inr (this_rule # kept, s))))"
| "EventLoop_dispatch _ _ s = Inr ([], s)"

text \<open>
  \<open>poll\<close> gives an error number or the \<^verbatim>\<open>revents\<close> of every entry; it returns the number of entries
  that are not zero.  The exception of \<^verbatim>\<open>SystemCall\<close> is caught: \<^verbatim>\<open>EINTR\<close> ends the call, any other
  error leaves \<^verbatim>\<open>revents\<close> zero and goes on.
\<close>

type_synonym poll_call = "pollfd list \<Rightarrow> int \<Rightarrow> u16 list syscall"

definition EventLoop_wait_next_event ::
  "poll_call \<Rightarrow> 'a rule list \<Rightarrow> 'a program_state \<Rightarrow> int \<Rightarrow> (loop_result \<times> 'a rule list \<times> 'a program_state) outcome" where
  "EventLoop_wait_next_event poll rules s timeout_ms =
     bindE (EventLoop_setup rules s) (\<lambda>(rules, pollfds, something_to_poll, s).
       if \<not> something_to_poll then Inr (Exit, rules, s)
       else
         let r = poll pollfds timeout_ms
         in case SystemCall ''poll'' (syscall_value (\<lambda>revents. length (filter (\<lambda>x. x \<noteq> 0) revents)) r) (syscall_errno r) 0 of
              Inr n \<Rightarrow>
                if n = 0 then Inr (Timeout, rules, s)
                else bindE (EventLoop_dispatch rules (zip pollfds (case r of Inl _ \<Rightarrow> replicate (length pollfds) 0 | Inr revents \<Rightarrow> revents)) s)
                  (\<lambda>(rules, s). Inr (Success, rules, s))
            | Inl e \<Rightarrow>
                if syscall_errno r = EINTR then Inr (Exit, rules, s)
                else bindE (EventLoop_dispatch rules (zip pollfds (replicate (length pollfds) 0)) s)
                  (\<lambda>(rules, s). Inr (Success, rules, s)))"

section \<open>Facts\<close>

lemma setup_lengths:
  "EventLoop_setup rules s = Inr (kept, pollfds, b, s') \<Longrightarrow> length pollfds = length kept"
  by (induction rules s arbitrary: kept pollfds b s' rule: EventLoop_setup.induct)
    (auto simp: bindE_Inr_iff Let_def split: if_splits)

lemma dispatch_idle:
  "length answers = length rules \<Longrightarrow> list_all (\<lambda>(p, ev). ev AND (POLLERR OR POLLNVAL OR POLLHUP OR pfd_events p) = 0) answers \<Longrightarrow>
   EventLoop_dispatch rules answers s = Inr (rules, s)"
proof (induction rules arbitrary: answers)
  case Nil
  then show ?case
    by simp
next
  case (Cons r rules)
  then obtain p ev as where a: "answers = (p, ev) # as"
    by (cases answers) auto
  have "ev AND (POLLERR OR POLLNVAL OR POLLHUP OR pfd_events p) = 0"
    using Cons.prems a by simp
  then have "ev AND (POLLERR OR POLLNVAL) = 0" "ev AND POLLHUP = 0" "ev AND pfd_events p = 0"
    by (metis (no_types) bit.conj_disj_distrib or_eq_0_iff)+
  then show ?case
    using Cons a by simp
qed

lemma setup_subset:
  "EventLoop_setup rules s = Inr (kept, pollfds, b, s') \<Longrightarrow> set kept \<subseteq> set rules \<and> length kept \<le> length rules"
  by (induction rules s arbitrary: kept pollfds b s' rule: EventLoop_setup.induct)
    (fastforce simp: bindE_Inr_iff Let_def split: if_splits)+

text \<open>
  What \<^verbatim>\<open>poll\<close> is documented to report of an entry: the events asked for and the conditions that are
  always reported.  \<open>steady\<close> excludes a hangup on an entry that asked for nothing.
\<close>

definition poll_answer :: "pollfd \<Rightarrow> u16 \<Rightarrow> bool" where
  "poll_answer p ev \<longleftrightarrow> ev AND (POLLERR OR POLLNVAL OR POLLHUP OR pfd_events p) = ev"

definition steady :: "pollfd \<Rightarrow> u16 \<Rightarrow> bool" where
  "steady p ev \<longleftrightarrow> poll_answer p ev \<and> (pfd_events p = 0 \<longrightarrow> ev AND POLLHUP = 0)"

text \<open>A callback that did something: it served the descriptor, or there is no interest any more.\<close>

definition rule_served :: "'a rule \<Rightarrow> bool" where
  "rule_served r \<longleftrightarrow> (\<exists>s s'. rule_callback r s = Inr s' \<and>
     (EventLoop_service_count r s \<noteq> EventLoop_service_count r s' \<or> \<not> rule_interest r s'))"

lemma answer_bits:
  assumes "poll_answer p ev" "ev \<noteq> 0" "ev AND (POLLERR OR POLLNVAL) = 0"
  shows "ev AND pfd_events p \<noteq> 0 \<or> ev AND POLLHUP \<noteq> 0"
  using assms unfolding poll_answer_def by (metis (no_types, opaque_lifting) bit.conj_disj_distrib or.assoc or.left_neutral)

lemma dispatch_length:
  "EventLoop_dispatch rules answers s = Inr (kept, s') \<Longrightarrow> length kept \<le> length rules"
  by (induction rules answers s arbitrary: kept s' rule: EventLoop_dispatch.induct)
    (fastforce simp: bindE_Inr_iff Let_def split: if_splits)+

lemma dispatch_progress:
  assumes "EventLoop_dispatch rules answers s = Inr (kept, s')" "length answers = length rules"
    and "list_all (\<lambda>(p, ev). steady p ev) answers" "\<exists>(p, ev) \<in> set answers. ev \<noteq> 0"
  shows "length kept < length rules \<or> (\<exists>r \<in> set rules. rule_served r)"
  using assms
proof (induction rules answers s arbitrary: kept s' rule: EventLoop_dispatch.induct)
  case (1 r rules p ev answers s)
  show ?case
  proof (cases "ev = 0")
    case True
    then obtain kept' where "EventLoop_dispatch rules answers s = Inr (kept', s')" "kept = r # kept'"
      using "1.prems"(1) by (auto simp: bindE_Inr_iff)
    moreover have "length kept' < length rules \<or> (\<exists>r \<in> set rules. rule_served r)"
      using "1.IH"(2) [of False False False s kept' s'] True "1.prems" calculation by simp
    ultimately show ?thesis
      by auto
  next
    case False
    have ok: "ev AND (POLLERR OR POLLNVAL) = 0" and st: "steady p ev"
      using "1.prems"(1,3) by (simp_all add: Let_def split: if_split_asm)
    show ?thesis
    proof (cases "ev AND pfd_events p = 0")
      case True
      then have "ev AND POLLHUP \<noteq> 0" "pfd_events p \<noteq> 0"
        using answer_bits [of p ev] st ok False by (auto simp: steady_def)
      then show ?thesis
        using "1.prems"(1) ok True by (auto simp: bindE_Inr_iff Let_def dest!: dispatch_length)
    next
      case False
      then have "rule_served r"
        using "1.prems"(1) ok by (auto simp: bindE_Inr_iff rule_served_def Let_def split: if_splits)
      then show ?thesis
        by simp
    qed
  qed
qed auto

text \<open>
  Two ways to return \<^verbatim>\<open>Success\<close> although no rule was triggered.  A hangup on a descriptor that no rule
  is interested in makes \<^verbatim>\<open>poll\<close> return at once, and nothing happens; so does an error of \<^verbatim>\<open>poll\<close> other
  than \<^verbatim>\<open>EINTR\<close>, which is caught and forgotten.
\<close>

lemma hangup_without_interest:
  assumes "EventLoop_setup rules s = Inr (rules, pollfds, True, s)" "poll pollfds t = Inr revents"
    and "length revents = length pollfds" "\<exists>ev \<in> set revents. ev \<noteq> 0"
    and "list_all (\<lambda>(p, ev). ev = 0 \<or> ev = POLLHUP \<and> pfd_events p = 0) (zip pollfds revents)"
  shows "EventLoop_wait_next_event poll rules s t = Inr (Success, rules, s)"
proof -
  have "EventLoop_dispatch rules answers s = Inr (rules, s)"
    if "length answers = length rules" "list_all (\<lambda>(p, ev). ev = 0 \<or> ev = POLLHUP \<and> pfd_events p = 0) answers" for answers
    using that
  proof (induction rules arbitrary: answers)
    case (Cons r rules)
    have "POLLHUP AND (POLLERR OR POLLNVAL) = 0"
      by (simp add: POLLHUP_def POLLERR_def POLLNVAL_def)
    then show ?case
      using Cons by (cases answers) (auto simp: Let_def)
  qed simp
  then have "EventLoop_dispatch rules (zip pollfds revents) s = Inr (rules, s)"
    using assms(3,5) setup_lengths [OF assms(1)] by simp
  moreover have "filter (\<lambda>x. x \<noteq> 0) revents \<noteq> []"
    using assms(4) by (simp add: filter_empty_conv)
  ultimately show ?thesis
    using assms(1,2) by (simp add: EventLoop_wait_next_event_def SystemCall_cases)
qed

lemma poll_error_forgotten:
  assumes "EventLoop_setup rules s = Inr (kept, pollfds, True, s')" "poll pollfds t = Inl errno" "errno \<noteq> 0" "errno \<noteq> EINTR"
  shows "EventLoop_wait_next_event poll rules s t = Inr (Success, kept, s')"
proof -
  have "EventLoop_dispatch kept (zip pollfds (replicate (length pollfds) 0)) s' = Inr (kept, s')"
    using setup_lengths [OF assms(1)]
    by (intro dispatch_idle) (auto simp: list_all_iff set_zip)
  then show ?thesis
    using assms
    by (simp add: EventLoop_wait_next_event_def SystemCall_def syscall_value_def syscall_errno_def Let_def)
qed

section \<open>Properties\<close>

text \<open>
  \<^verbatim>\<open>Success\<close> means progress: when \<^verbatim>\<open>wait_next_event\<close> returns \<^verbatim>\<open>Success\<close> and \<^verbatim>\<open>poll\<close> reported what it is
  documented to report, without a hangup on an entry that asked for nothing, a rule was cancelled,
  or the callback of some rule served its descriptor or ended its interest.
\<close>

theorem eventloop_progress:
  assumes "EventLoop_wait_next_event poll rules s t = Inr (Success, rules', s')"
    and "\<forall>pollfds. \<exists>revents. poll pollfds t = Inr revents \<and> length revents = length pollfds \<and>
      list_all (\<lambda>(p, ev). steady p ev) (zip pollfds revents)"
  shows "length rules' < length rules \<or> (\<exists>r \<in> set rules. \<exists>s1 s2. rule_callback r s1 = Inr s2 \<and>
    (EventLoop_service_count r s1 \<noteq> EventLoop_service_count r s2 \<or> \<not> rule_interest r s2))"
proof -
  obtain kept pollfds b s0 where su: "EventLoop_setup rules s = Inr (kept, pollfds, b, s0)"
    using assms(1) by (auto simp: EventLoop_wait_next_event_def bindE_Inr_iff)
  obtain revents where poll: "poll pollfds t = Inr revents" "length revents = length pollfds"
    "list_all (\<lambda>(p, ev). steady p ev) (zip pollfds revents)"
    using assms(2) by blast
  have *: "EventLoop_dispatch kept (zip pollfds revents) s0 = Inr (rules', s')" "filter (\<lambda>x. x \<noteq> 0) revents \<noteq> []"
    using assms(1) su poll(1) by (auto simp: EventLoop_wait_next_event_def bindE_Inr_iff SystemCall_cases split: if_splits)
  then obtain ev where "ev \<in> set revents" "ev \<noteq> 0"
    by (auto simp: filter_empty_conv)
  then have "\<exists>(p, ev) \<in> set (zip pollfds revents). ev \<noteq> 0"
    using poll(2) by (metis (mono_tags, lifting) case_prodI in_set_impl_in_set_zip2)
  from dispatch_progress [OF *(1) _ poll(3) this] setup_lengths [OF su] poll(2)
  have "length rules' < length kept \<or> (\<exists>r \<in> set kept. rule_served r)"
    by simp
  then show ?thesis
    using setup_subset [OF su] unfolding rule_served_def by fastforce
qed

definition example_rule :: "unit rule" where
  "example_rule = \<lparr>rule_fd = 0, rule_direction = In,
     rule_callback = (\<lambda>s. Inr (s\<lparr>ps_fds := (ps_fds s)(0 := FileDescriptor_register_read (ps_fds s 0))\<rparr>)),
     rule_interest = (\<lambda>s. True), rule_cancel = (\<lambda>s. Inr s)\<rparr>"

definition example_state :: "unit program_state" where
  "example_state = \<lparr>ps_fds = (\<lambda>_. \<lparr>fdw_fd = 3, fdw_eof = False, fdw_closed = False, fdw_read_count = 0,
     fdw_write_count = 0\<rparr>), ps_user = ()\<rparr>"

theorem eventloop_progress_witness:
  "\<exists>rules' s'. EventLoop_wait_next_event (\<lambda>pollfds t. Inr (map pfd_events pollfds)) [example_rule] example_state 10 =
      Inr (Success, rules', s') \<and>
    (length rules' < length [example_rule] \<or> (\<exists>r \<in> set [example_rule]. \<exists>s1 s2. rule_callback r s1 = Inr s2 \<and>
      (EventLoop_service_count r s1 \<noteq> EventLoop_service_count r s2 \<or> \<not> rule_interest r s2)))"
proof -
  let ?poll = "\<lambda>pollfds (t :: int). Inr (map pfd_events pollfds) :: u16 list syscall"
  obtain rules' s' where w: "EventLoop_wait_next_event ?poll [example_rule] example_state 10 = Inr (Success, rules', s')"
    by (simp add: EventLoop_wait_next_event_def example_rule_def example_state_def SystemCall_cases POLLIN_def
        POLLERR_def POLLNVAL_def POLLHUP_def FileDescriptor_register_read_def EventLoop_service_count_def)
  have "list_all (\<lambda>(p, ev). steady p ev) (zip pollfds (map pfd_events pollfds))" for pollfds
    by (auto simp: list_all_iff zip_map2 set_zip steady_def poll_answer_def bit_eq_iff bit_simps)
  then show ?thesis
    using eventloop_progress [OF w] w by (intro exI [of _ rules'] exI [of _ s']) simp
qed

section \<open>What a set of rules keeps\<close>

text \<open>
  The contract between the loop and the rules of its client: \<open>inv\<close> is an invariant, \<open>steps\<close> what the
  client allows to happen, \<open>ready r\<close> what holds since rule \<open>r\<close> said it was interested.  Callbacks and
  cancellations take allowed steps, keep the invariant and leave the other rules ready; \<open>hup\<close> tells
  whether a descriptor may hang up.  Then so does every call of \<^verbatim>\<open>wait_next_event\<close>.
\<close>

definition rule_key :: "'a rule \<Rightarrow> nat \<times> direction" where
  "rule_key r = (rule_fd r, rule_direction r)"

definition expired :: "'a rule \<Rightarrow> 'a program_state \<Rightarrow> bool" where
  "expired r s \<longleftrightarrow> rule_direction r = In \<and> fdw_eof (ps_fds s (rule_fd r)) \<or> fdw_closed (ps_fds s (rule_fd r))"

lemma subseq_set: "subseq xs ys \<Longrightarrow> set xs \<subseteq> set ys"
  by (induction rule: list_emb.induct) auto

lemma subseq_distinct: "subseq xs ys \<Longrightarrow> distinct ys \<Longrightarrow> distinct xs"
  by (induction rule: list_emb.induct) (auto dest: list_emb_set)

locale event_driven =
  fixes rules :: "'a rule list" and inv :: "'a program_state \<Rightarrow> bool"
    and steps :: "'a program_state \<Rightarrow> 'a program_state \<Rightarrow> bool"
    and ready :: "'a rule \<Rightarrow> 'a program_state \<Rightarrow> bool" and hup :: bool
  assumes steps_refl: "steps s s"
    and steps_trans: "steps s s' \<Longrightarrow> steps s' s'' \<Longrightarrow> steps s s''"
    and interest_ready: "r \<in> set rules \<Longrightarrow> inv s \<Longrightarrow> \<not> expired r s \<Longrightarrow> rule_interest r s \<Longrightarrow> ready r s"
    and callback_steps: "r \<in> set rules \<Longrightarrow> inv s \<Longrightarrow> ready r s \<Longrightarrow> rule_callback r s = Inr s' \<Longrightarrow> inv s' \<and> steps s s'"
    and callback_ready: "r \<in> set rules \<Longrightarrow> r' \<in> set rules \<Longrightarrow> inv s \<Longrightarrow> ready r s \<Longrightarrow> rule_callback r s = Inr s' \<Longrightarrow>
      rule_key r' \<noteq> rule_key r \<Longrightarrow> ready r' s \<Longrightarrow> ready r' s'"
    and cancel_steps: "r \<in> set rules \<Longrightarrow> inv s \<Longrightarrow> hup \<or> expired r s \<Longrightarrow> rule_cancel r s = Inr s' \<Longrightarrow> inv s' \<and> steps s s'"
    and cancel_ready: "r \<in> set rules \<Longrightarrow> r' \<in> set rules \<Longrightarrow> inv s \<Longrightarrow> rule_cancel r s = Inr s' \<Longrightarrow>
      rule_key r' \<noteq> rule_key r \<Longrightarrow> ready r' s \<Longrightarrow> ready r' s'"
begin

lemma setup_steps:
  assumes "EventLoop_setup rs s = Inr (kept, pollfds, b, s')" "inv s" "set rs \<subseteq> set rules" "distinct (map rule_key rs)"
  shows "inv s' \<and> steps s s' \<and> subseq kept rs \<and>
    (\<forall>r \<in> set rules. rule_key r \<notin> rule_key ` set rs \<longrightarrow> ready r s \<longrightarrow> ready r s') \<and>
    list_all2 (\<lambda>r p. pfd_events p \<noteq> 0 \<longrightarrow> ready r s') kept pollfds"
  using assms
proof (induction rs arbitrary: s kept pollfds b)
  case Nil
  then show ?case
    using steps_refl by auto
next
  case (Cons r rs)
  show ?case
  proof (cases "expired r s")
    case True
    then obtain t where t: "rule_cancel r s = Inr t" "EventLoop_setup rs t = Inr (kept, pollfds, b, s')"
      using Cons.prems(1) by (auto simp: expired_def Let_def bindE_Inr_iff split: if_splits)
    then show ?thesis
      using Cons.IH [OF t(2)] Cons.prems cancel_steps [of r s t] cancel_ready [of r _ s t] True
      by (auto simp: image_iff intro: steps_trans list_emb_Cons)
  next
    case False
    then obtain kept' pollfds' b' where t: "EventLoop_setup rs s = Inr (kept', pollfds', b', s')" "kept = r # kept'"
      "pollfds = \<lparr>pfd_fd = fdw_fd (ps_fds s (rule_fd r)),
         pfd_events = if rule_interest r s then direction_events (rule_direction r) else 0\<rparr> # pollfds'"
      using Cons.prems(1) by (auto simp: expired_def Let_def bindE_Inr_iff split: if_splits)
    then show ?thesis
      using Cons.IH [OF t(1)] Cons.prems False interest_ready [of r s]
      by (auto simp: image_iff)
  qed
qed

lemma dispatch_steps:
  assumes "EventLoop_dispatch rs (zip pollfds revents) s = Inr (kept, s')" "inv s" "set rs \<subseteq> set rules" "distinct (map rule_key rs)"
    and "length revents = length pollfds" "list_all2 (\<lambda>r p. pfd_events p \<noteq> 0 \<longrightarrow> ready r s) rs pollfds"
    and "hup \<or> list_all (\<lambda>ev. ev AND POLLHUP = 0) revents"
  shows "inv s' \<and> steps s s' \<and> subseq kept rs"
  using assms
proof (induction rs arbitrary: s kept pollfds revents)
  case Nil
  then show ?case
    using steps_refl by auto
next
  case (Cons r rs)
  obtain p ps ev evs where l: "pollfds = p # ps" "revents = ev # evs"
    using Cons.prems(5,6) by (cases pollfds; cases revents) auto
  have r: "r \<in> set rules" and rest: "set rs \<subseteq> set rules" "distinct (map rule_key rs)" "length evs = length ps"
    and evs: "hup \<or> list_all (\<lambda>ev. ev AND POLLHUP = 0) evs"
    using Cons.prems(3-5,7) l by auto
  note IH = Cons.IH [where pollfds = ps and revents = evs, OF _ _ _ _ _ _ evs]
  have others: "list_all2 (\<lambda>r p. pfd_events p \<noteq> 0 \<longrightarrow> ready r t) rs ps"
    if "\<And>r'. r' \<in> set rules \<Longrightarrow> rule_key r' \<noteq> rule_key r \<Longrightarrow> ready r' s \<Longrightarrow> ready r' t" for t
  proof (rule list.rel_mono_strong)
    show "list_all2 (\<lambda>r p. pfd_events p \<noteq> 0 \<longrightarrow> ready r s) rs ps"
      using Cons.prems(6) l by simp
  next
    fix r' p' assume "r' \<in> set rs" "pfd_events p' \<noteq> 0 \<longrightarrow> ready r' s"
    moreover have "r' \<in> set rules" "rule_key r' \<noteq> rule_key r"
      using Cons.prems(3,4) \<open>r' \<in> set rs\<close> by (auto simp: image_iff)
    ultimately show "pfd_events p' \<noteq> 0 \<longrightarrow> ready r' t"
      using that [of r'] by simp
  qed
  consider
      (cancelled) t where "rule_cancel r s = Inr t" "EventLoop_dispatch rs (zip ps evs) t = Inr (kept, s')" "ev AND POLLHUP \<noteq> 0"
    | (called) t k where "rule_callback r s = Inr t" "EventLoop_dispatch rs (zip ps evs) t = Inr (k, s')" "kept = r # k"
        "pfd_events p \<noteq> 0"
    | (idle) k where "EventLoop_dispatch rs (zip ps evs) s = Inr (k, s')" "kept = r # k"
  proof (cases "ev AND POLLHUP \<noteq> 0 \<and> pfd_events p \<noteq> 0 \<and> ev AND pfd_events p = 0")
    case True
    then show thesis
      using Cons.prems(1) l that(1) by (simp add: Let_def bindE_Inr_iff split: if_splits) blast
  next
    case no_hup: False
    show thesis
    proof (cases "ev AND pfd_events p = 0")
      case True
      then show thesis
        using Cons.prems(1) l that(3) no_hup by (auto simp: Let_def bindE_Inr_iff split: if_splits)
    next
      case False
      then have "pfd_events p \<noteq> 0"
        by auto
      then show thesis
        using Cons.prems(1) l that(2) False by (auto simp: Let_def bindE_Inr_iff split: if_splits)
    qed
  qed
  then show ?case
  proof cases
    case cancelled
    have "hup"
      using cancelled(3) Cons.prems(7) l by auto
    note t = cancel_steps [OF r Cons.prems(2) disjI1 [OF this] cancelled(1)]
      others [OF cancel_ready [OF r _ Cons.prems(2) cancelled(1)]]
    show ?thesis
      using IH [OF cancelled(2) _ rest t(2)] t(1) by (auto intro: steps_trans list_emb_Cons)
  next
    case called
    have ready: "ready r s"
      using Cons.prems(6) l called(4) by simp
    note t = callback_steps [OF r Cons.prems(2) ready called(1)]
      others [OF callback_ready [OF r _ Cons.prems(2) ready called(1)]]
    show ?thesis
      using IH [OF called(2) _ rest t(2)] t(1) called(3) by (auto intro: steps_trans)
  next
    case idle
    show ?thesis
      using IH [OF idle(1) Cons.prems(2) rest others] idle(2) by auto
  qed
qed

lemma wait_next_event_steps:
  assumes "EventLoop_wait_next_event poll rs s t = Inr (result, kept, s')" "inv s" "subseq rs rules" "distinct (map rule_key rules)"
    and poll: "\<And>pollfds revents. poll pollfds t = Inr revents \<Longrightarrow>
      length revents = length pollfds \<and> (hup \<or> list_all (\<lambda>ev. ev AND POLLHUP = 0) revents)"
  shows "inv s' \<and> steps s s' \<and> subseq kept rules"
proof -
  note sub = subseq_set subseq_distinct [OF subseq_map]
  have rs: "set rs \<subseteq> set rules" "distinct (map rule_key rs)"
    using sub [OF assms(3)] assms(4) by auto
  obtain k pollfds b s1 where su: "EventLoop_setup rs s = Inr (k, pollfds, b, s1)"
    using assms(1) by (auto simp: EventLoop_wait_next_event_def bindE_Inr_iff)
  note s1 = setup_steps [OF su assms(2) rs]
  have k: "subseq k rules"
    using s1 assms(3) subseq_order.trans by blast
  have d: "inv s' \<and> steps s s' \<and> subseq kept rules"
    if "EventLoop_dispatch k (zip pollfds revents) s1 = Inr (kept, s')" "length revents = length pollfds"
      "hup \<or> list_all (\<lambda>ev. ev AND POLLHUP = 0) revents" for revents
    using dispatch_steps [OF that(1) _ sub [OF k] that(2) _ that(3)] s1 assms(4) k steps_trans subseq_order.trans
    by blast
  have r0: "hup \<or> list_all (\<lambda>ev. ev AND POLLHUP = 0) (replicate (length pollfds) (0 :: u16))"
    by (simp add: list_all_iff)
  show ?thesis
  proof (cases "poll pollfds t")
    case (Inl e)
    then have "kept = k \<and> s' = s1 \<or> EventLoop_dispatch k (zip pollfds (replicate (length pollfds) 0)) s1 = Inr (kept, s')"
      using assms(1) su
      by (auto simp: EventLoop_wait_next_event_def SystemCall_cases bindE_Inr_iff Let_def split: if_splits)
    then show ?thesis
      using d [OF _ length_replicate r0] s1 k by blast
  next
    case (Inr revents)
    then have "kept = k \<and> s' = s1 \<or> EventLoop_dispatch k (zip pollfds revents) s1 = Inr (kept, s')"
      using assms(1) su
      by (auto simp: EventLoop_wait_next_event_def SystemCall_cases bindE_Inr_iff Let_def split: if_splits)
    then show ?thesis
      using d [of revents] poll [OF Inr] s1 k by blast
  qed
qed

end

section \<open>Rules that always make progress\<close>

text \<open>What an entry of the array passed to \<^verbatim>\<open>poll\<close> asks for.\<close>

definition pollfd_of :: "'a program_state \<Rightarrow> 'a rule \<Rightarrow> pollfd" where
  "pollfd_of s r = \<lparr>pfd_fd = fdw_fd (ps_fds s (rule_fd r)),
     pfd_events = if rule_interest r s then direction_events (rule_direction r) else 0\<rparr>"

lemma setup_unchanged:
  "\<forall>r \<in> set rs. expired r s \<longrightarrow> rule_cancel r s = Inr s \<Longrightarrow>
   EventLoop_setup rs s = (let kept = filter (\<lambda>r. \<not> expired r s) rs
     in Inr (kept, map (pollfd_of s) kept, \<exists>r \<in> set kept. rule_interest r s, s))"
  by (induction rs) (auto simp: expired_def pollfd_of_def Let_def)

text \<open>
  A \<^verbatim>\<open>poll\<close> that waits for what it is asked: it returns without an error, reports only events that were
  asked for, and reports at least one if reading or writing was asked for.
\<close>

definition poll_waits :: "(pollfd list \<Rightarrow> u16 list syscall) \<Rightarrow> bool" where
  "poll_waits poll \<longleftrightarrow> (\<forall>pollfds. \<exists>revents. poll pollfds = Inr revents \<and>
     list_all2 (\<lambda>p ev. ev AND pfd_events p = ev \<and> ev AND (POLLERR OR POLLNVAL) = 0 \<and> ev AND POLLHUP = 0) pollfds revents \<and>
     ((\<exists>p \<in> set pollfds. pfd_events p AND (POLLIN OR POLLOUT) \<noteq> 0) \<longrightarrow> (\<exists>ev \<in> set revents. ev \<noteq> 0)))"

text \<open>
  The contract of rules that cannot get stuck: a callback that is ready returns, serves its descriptor
  and makes progress, and a rule that has expired has nothing left to cancel.
\<close>

locale served_rules = event_driven rules inv steps ready False
  for rules :: "'a rule list" and inv steps ready +
  fixes progress :: "'a program_state \<Rightarrow> 'a program_state \<Rightarrow> bool"
  assumes callback_returns: "r \<in> set rules \<Longrightarrow> inv s \<Longrightarrow> ready r s \<Longrightarrow>
      \<exists>s'. rule_callback r s = Inr s' \<and> progress s s' \<and> EventLoop_service_count r s \<noteq> EventLoop_service_count r s'"
    and progress_steps: "progress s s' \<Longrightarrow> steps s' s'' \<Longrightarrow> progress s s''"
    and steps_progress: "steps s s' \<Longrightarrow> progress s' s'' \<Longrightarrow> progress s s''"
    and expired_cancel: "r \<in> set rules \<Longrightarrow> inv s \<Longrightarrow> expired r s \<Longrightarrow> rule_cancel r s = Inr s"
    and steps_expired: "steps s s' \<Longrightarrow> expired r s \<Longrightarrow> expired r s'"
begin

lemma dispatch_returns:
  assumes "inv s" "set rs \<subseteq> set rules" "distinct (map rule_key rs)"
    and "list_all2 (\<lambda>r p. pfd_events p \<noteq> 0 \<longrightarrow> ready r s) rs pollfds"
    and "list_all2 (\<lambda>p ev. ev AND pfd_events p = ev \<and> ev AND (POLLERR OR POLLNVAL) = 0 \<and> ev AND POLLHUP = 0) pollfds revents"
  shows "\<exists>s'. EventLoop_dispatch rs (zip pollfds revents) s = Inr (rs, s') \<and> inv s' \<and> steps s s' \<and>
    ((\<exists>ev \<in> set revents. ev \<noteq> 0) \<longrightarrow> progress s s')"
  using assms
proof (induction rs arbitrary: s pollfds revents)
  case Nil
  then show ?case
    using steps_refl by auto
next
  case (Cons r rs)
  obtain p ps ev evs where l: "pollfds = p # ps" "revents = ev # evs"
    using Cons.prems(4,5) by (cases pollfds; cases revents) auto
  have r: "r \<in> set rules" and rest: "set rs \<subseteq> set rules" "distinct (map rule_key rs)"
    and ev: "ev AND pfd_events p = ev" "ev AND (POLLERR OR POLLNVAL) = 0" "ev AND POLLHUP = 0"
    and evs: "list_all2 (\<lambda>p ev. ev AND pfd_events p = ev \<and> ev AND (POLLERR OR POLLNVAL) = 0 \<and> ev AND POLLHUP = 0) ps evs"
    and ps: "list_all2 (\<lambda>r p. pfd_events p \<noteq> 0 \<longrightarrow> ready r s) rs ps"
    using Cons.prems(2-5) l by auto
  show ?case
  proof (cases "ev = 0")
    case True
    then show ?thesis
      using Cons.IH [OF Cons.prems(1) rest ps evs] l by auto
  next
    case False
    then have ready: "ready r s"
      using Cons.prems(4) l ev(1) by auto
    obtain t where t: "rule_callback r s = Inr t" "progress s t" "EventLoop_service_count r s \<noteq> EventLoop_service_count r t"
      using callback_returns [OF r Cons.prems(1) ready] by blast
    have t': "inv t" "steps s t"
      using callback_steps [OF r Cons.prems(1) ready t(1)] by simp_all
    have "list_all2 (\<lambda>r p. pfd_events p \<noteq> 0 \<longrightarrow> ready r t) rs ps"
      using ps
    proof (rule list.rel_mono_strong)
      fix r' p' assume "r' \<in> set rs" "pfd_events p' \<noteq> 0 \<longrightarrow> ready r' s"
      moreover have "r' \<in> set rules" "rule_key r' \<noteq> rule_key r"
        using Cons.prems(2,3) \<open>r' \<in> set rs\<close> by (auto simp: image_iff)
      ultimately show "pfd_events p' \<noteq> 0 \<longrightarrow> ready r' t"
        using callback_ready [OF r _ Cons.prems(1) ready t(1), of r'] by simp
    qed
    from Cons.IH [OF t'(1) rest this evs] obtain s' where s': "EventLoop_dispatch rs (zip ps evs) t = Inr (rs, s')"
      "inv s'" "steps t s'"
      by blast
    then show ?thesis
      using l ev False t t'(2) steps_trans [OF t'(2) s'(3)] progress_steps [OF t(2) s'(3)] by (auto simp: Let_def)
  qed
qed

lemma wait_returns:
  assumes "inv s" "subseq rs rules" "distinct (map rule_key rules)" "poll_waits (\<lambda>pollfds. poll pollfds t)"
  defines "kept \<equiv> filter (\<lambda>r. \<not> expired r s) rs"
  shows "\<forall>r \<in> set kept. \<not> rule_interest r s \<Longrightarrow> EventLoop_wait_next_event poll rs s t = Inr (Exit, kept, s)"
    and "r \<in> set kept \<Longrightarrow> rule_interest r s \<Longrightarrow>
      \<exists>s'. EventLoop_wait_next_event poll rs s t = Inr (Success, kept, s') \<and> inv s' \<and> steps s s' \<and> progress s s'"
proof -
  have k: "subseq kept rules"
    using assms(2) unfolding kept_def by (rule subseq_order.trans [OF subseq_filter_left])
  note set = subseq_set [OF assms(2)] subseq_set [OF k] and dist = subseq_distinct [OF subseq_map [OF k] assms(3)]
  have su: "EventLoop_setup rs s = Inr (kept, map (pollfd_of s) kept, \<exists>r \<in> set kept. rule_interest r s, s)"
    using setup_unchanged [of rs s] expired_cancel [OF _ assms(1)] set(1) by (auto simp: kept_def Let_def)
  show "EventLoop_wait_next_event poll rs s t = Inr (Exit, kept, s)" if "\<forall>r \<in> set kept. \<not> rule_interest r s"
    using su that by (simp add: EventLoop_wait_next_event_def)
  assume r: "r \<in> set kept" "rule_interest r s"
  obtain revents where poll: "poll (map (pollfd_of s) kept) t = Inr revents"
    "list_all2 (\<lambda>p ev. ev AND pfd_events p = ev \<and> ev AND (POLLERR OR POLLNVAL) = 0 \<and> ev AND POLLHUP = 0) (map (pollfd_of s) kept) revents"
    "(\<exists>p \<in> set (map (pollfd_of s) kept). pfd_events p AND (POLLIN OR POLLOUT) \<noteq> 0) \<longrightarrow> (\<exists>ev \<in> set revents. ev \<noteq> 0)"
    using assms(4) unfolding poll_waits_def by blast
  have asked: "pfd_events (pollfd_of s r) AND (POLLIN OR POLLOUT) \<noteq> 0"
    using r(2) by (cases "rule_direction r") (auto simp: pollfd_of_def POLLIN_def POLLOUT_def)
  then have some: "\<exists>ev \<in> set revents. ev \<noteq> 0"
    using poll(3) r(1) by (metis image_eqI list.set_map)
  have "list_all2 (\<lambda>r p. pfd_events p \<noteq> 0 \<longrightarrow> ready r s) kept (map (pollfd_of s) kept)"
    using interest_ready [OF _ assms(1)] set(2)
    by (auto simp: list_all2_map2 list_all2_same pollfd_of_def kept_def)
  from dispatch_returns [OF assms(1) set(2) dist this poll(2)] some obtain s' where
    "EventLoop_dispatch kept (zip (map (pollfd_of s) kept) revents) s = Inr (kept, s')" "inv s'" "steps s s'" "progress s s'"
    by blast
  moreover have "filter (\<lambda>x. x \<noteq> 0) revents \<noteq> []"
    using some by (simp add: filter_empty_conv)
  ultimately show "\<exists>s'. EventLoop_wait_next_event poll rs s t = Inr (Success, kept, s') \<and> inv s' \<and> steps s s' \<and> progress s s'"
    using su r poll(1) by (auto simp: EventLoop_wait_next_event_def SystemCall_cases)
qed

end

end
