(* ===== verification/Addresses.thy ===== *)
theory Addresses
  imports Net_Parser
begin

text \<open>
  \<^verbatim>\<open>libsponge/util/address.{hh,cc}\<close>: socket addresses as the bytes of a \<^verbatim>\<open>sockaddr_storage\<close> in the
  layout of Linux on a little-endian machine: 128 bytes, of which a \<^verbatim>\<open>sockaddr_in\<close> takes 16, the
  family in host order, port and address in network order.  The resolver functions of the C
  library are arguments.
\<close>

record address =
  ad_size :: u32
  ad_storage :: bytes

definition sizeof_sockaddr_storage :: nat where
  "sizeof_sockaddr_storage = 128"

definition sizeof_sockaddr_in :: nat where
  "sizeof_sockaddr_in = 16"

definition AF_INET :: u16 where
  "AF_INET = 2"

text \<open>\<^verbatim>\<open>ss_family\<close>, in host byte order.\<close>

definition ss_family :: "bytes \<Rightarrow> u16" where
  "ss_family storage = ucast (storage ! 0) + 256 * ucast (storage ! 1)"

definition Address_of_sockaddr :: "bytes \<Rightarrow> size_t \<Rightarrow> address outcome" where
  "Address_of_sockaddr addr n =
     (if unat n > sizeof_sockaddr_storage then Inl (Runtime_error ''invalid sockaddr size'')
      else Inr \<lparr>ad_size = ucast n,
                ad_storage = take (unat n) addr @ replicate (sizeof_sockaddr_storage - unat n) 0\<rparr>)"

text \<open>The flags and the family of the hints; the other fields are zero.\<close>

record addrinfo_hints =
  ai_flags :: u32
  ai_family :: u16

definition make_hints :: "u32 \<Rightarrow> u16 \<Rightarrow> addrinfo_hints" where
  "make_hints flags family = \<lparr>ai_flags = flags, ai_family = family\<rparr>"

definition AI_NUMERICHOST :: u32 where
  "AI_NUMERICHOST = 0x0004"

definition AI_ALL :: u32 where
  "AI_ALL = 0x0010"

definition AI_NUMERICSERV :: u32 where
  "AI_NUMERICSERV = 0x0400"

text \<open>\<open>getaddrinfo\<close> returns an error code or the socket addresses found.\<close>

type_synonym resolver = "string \<Rightarrow> string \<Rightarrow> addrinfo_hints \<Rightarrow> int + bytes list"

definition Address_resolve :: "resolver \<Rightarrow> string \<Rightarrow> string \<Rightarrow> addrinfo_hints \<Rightarrow> address outcome" where
  "Address_resolve getaddrinfo node service hints =
     (case getaddrinfo node service hints of
        Inl gai_ret \<Rightarrow> Inl (Tagged_error (''getaddrinfo('' @ node @ '', '' @ service @ '')'') gai_ret)
      | Inr [] \<Rightarrow> Inl (Runtime_error ''getaddrinfo returned successfully but with no results'')
      | Inr (resolved_address # _) \<Rightarrow> Address_of_sockaddr resolved_address (sz resolved_address))"

definition Address_of_names :: "resolver \<Rightarrow> string \<Rightarrow> string \<Rightarrow> address outcome" where
  "Address_of_names getaddrinfo hostname service =
     Address_resolve getaddrinfo hostname service (make_hints AI_ALL AF_INET)"

definition Address_of_ip :: "resolver \<Rightarrow> string \<Rightarrow> u16 \<Rightarrow> address outcome" where
  "Address_of_ip getaddrinfo ip port =
     Address_resolve getaddrinfo ip (decimal (unat port)) (make_hints (AI_NUMERICHOST OR AI_NUMERICSERV) AF_INET)"

text \<open>
  \<open>getnameinfo\<close>, asked for numbers, returns an error code or the texts of the IP address and the
  port.  \<^verbatim>\<open>stoi\<close> reads the leading digits.
\<close>

type_synonym name_lookup = "bytes \<Rightarrow> int + string \<times> string"

fun stoi_digits :: "nat \<Rightarrow> string \<Rightarrow> nat" where
  "stoi_digits acc [] = acc"
| "stoi_digits acc (c # cs) =
     (if 48 \<le> (of_char c :: nat) \<and> (of_char c :: nat) \<le> 57 then stoi_digits (10 * acc + (of_char c - 48)) cs else acc)"

definition Address_ip_port :: "name_lookup \<Rightarrow> address \<Rightarrow> (string \<times> u16) outcome" where
  "Address_ip_port getnameinfo a =
     (case getnameinfo (take (unat (ad_size a)) (ad_storage a)) of
        Inl gni_ret \<Rightarrow> Inl (Tagged_error ''getnameinfo'' gni_ret)
      | Inr (ip, port) \<Rightarrow> Inr (ip, word_of_nat (stoi_digits 0 port)))"

definition Address_ip :: "name_lookup \<Rightarrow> address \<Rightarrow> string outcome" where
  "Address_ip getnameinfo a = bindE (Address_ip_port getnameinfo a) (\<lambda>r. Inr (fst r))"

definition Address_port :: "name_lookup \<Rightarrow> address \<Rightarrow> u16 outcome" where
  "Address_port getnameinfo a = bindE (Address_ip_port getnameinfo a) (\<lambda>r. Inr (snd r))"

definition Address_to_string :: "name_lookup \<Rightarrow> address \<Rightarrow> string outcome" where
  "Address_to_string getnameinfo a =
     bindE (Address_ip_port getnameinfo a) (\<lambda>(ip, port). Inr (ip @ '':'' @ decimal (unat port)))"

definition Address_ipv4_numeric :: "address \<Rightarrow> u32 outcome" where
  "Address_ipv4_numeric a =
     (if ss_family (ad_storage a) \<noteq> AF_INET \<or> unat (ad_size a) \<noteq> sizeof_sockaddr_in
      then Inl (Runtime_error ''ipv4_numeric called on non-IPV4 address'')
      else let ipv4_addr = take (unat (ad_size a)) (ad_storage a)
           in Inr (be_value (take 4 (drop 4 ipv4_addr))))"

definition Address_from_ipv4_numeric :: "u32 \<Rightarrow> address outcome" where
  "Address_from_ipv4_numeric ip_address =
     (let ipv4_addr = [ucast AF_INET, 0] @ [0, 0] @ be_bytes ip_address @ replicate 8 0
      in Address_of_sockaddr ipv4_addr (word_of_nat sizeof_sockaddr_in))"

definition Address_eq :: "address \<Rightarrow> address \<Rightarrow> bool" where
  "Address_eq a other \<longleftrightarrow>
     ad_size a = ad_size other \<and>
     take (unat (ad_size a)) (ad_storage a) = take (unat (ad_size a)) (ad_storage other)"

section \<open>Numeric addresses\<close>

definition ipv4_address :: "u32 \<Rightarrow> address" where
  "ipv4_address ip = \<lparr>ad_size = 16, ad_storage = [2, 0, 0, 0] @ be_bytes ip @ replicate 120 0\<rparr>"

lemma Address_from_ipv4_numeric_eq: "Address_from_ipv4_numeric ip = Inr (ipv4_address ip)"
  by (simp add: Address_from_ipv4_numeric_def Address_of_sockaddr_def ipv4_address_def Let_def
      sizeof_sockaddr_in_def sizeof_sockaddr_storage_def AF_INET_def replicate_add [symmetric])

lemma Address_ipv4_numeric_eq [simp]: "Address_ipv4_numeric (ipv4_address ip) = Inr ip"
  by (simp add: Address_ipv4_numeric_def ipv4_address_def ss_family_def AF_INET_def sizeof_sockaddr_in_def)

text \<open>
  Every address that came from \<^verbatim>\<open>from_ipv4_numeric\<close> gives back its number, and two such addresses
  are equal exactly when the numbers are.
\<close>

lemma Address_numeric_roundtrip:
  "runs (Address_from_ipv4_numeric ip) (\<lambda>a. Address_ipv4_numeric a = Inr ip \<and>
     runs (Address_from_ipv4_numeric ip') (\<lambda>a'. Address_eq a a' \<longleftrightarrow> ip = ip'))"
proof -
  have "be_value (be_bytes x) = x" for x :: u32
    by simp
  then have "be_bytes ip = be_bytes ip' \<longleftrightarrow> ip = ip'"
    by metis
  then show ?thesis
    by (simp add: Address_from_ipv4_numeric_eq Address_eq_def) (simp add: ipv4_address_def)
qed

end
