(* ===== verification/Sockets.thy ===== *)
theory Sockets
  imports File_Descriptors Addresses
begin

text \<open>
  \<^verbatim>\<open>libsponge/util/socket.{hh,cc}\<close>: the wrappers of the socket calls.  Every call is an argument, as in
  \<^verbatim>\<open>File_Descriptors\<close>; what a call fills in is part of its result.
\<close>

section \<open>Socket\<close>

text \<open>\<^verbatim>\<open>socket(2)\<close> and \<^verbatim>\<open>accept(2)\<close> return a descriptor number.\<close>

definition Socket_new :: "(int \<Rightarrow> int \<Rightarrow> nat syscall) \<Rightarrow> int \<Rightarrow> int \<Rightarrow> fd_wrapper outcome" where
  "Socket_new socket domain type' =
     (let r = socket domain type'
      in bindE (SystemCall ''socket'' (syscall_value (\<lambda>fd. fd) r) (syscall_errno r) 0) FDWrapper_new)"

text \<open>
  The constructor from a descriptor asks \<^verbatim>\<open>getsockopt\<close> for domain and type: a length and a value for
  each option.
\<close>

datatype socket_option = SO_DOMAIN | SO_TYPE

definition Socket_of_FileDescriptor ::
  "(int \<Rightarrow> socket_option \<Rightarrow> (nat \<times> int) syscall) \<Rightarrow> fd_wrapper \<Rightarrow> int \<Rightarrow> int \<Rightarrow> fd_wrapper outcome" where
  "Socket_of_FileDescriptor getsockopt w domain type' =
     (let check = (\<lambda>option expected what.
        let r = getsockopt (fdw_fd w) option
        in bindE (SystemCall ''getsockopt'' (syscall_value (\<lambda>_. 0) r) (syscall_errno r) 0) (\<lambda>_.
             case r of
               Inl _ \<Rightarrow> Inl (Undefined ''uninitialised result'')
             | Inr (len, actual_value) \<Rightarrow>
                 if len \<noteq> 4 \<or> actual_value \<noteq> expected then Inl (Runtime_error what) else Inr ()))
      in bindE (check SO_DOMAIN domain ''socket domain mismatch'') (\<lambda>_.
         bindE (check SO_TYPE type' ''socket type mismatch'') (\<lambda>_. Inr w)))"

text \<open>\<^verbatim>\<open>getsockname\<close> and \<^verbatim>\<open>getpeername\<close> fill in an address and its size.\<close>

definition Socket_get_address :: "string \<Rightarrow> (int \<Rightarrow> bytes syscall) \<Rightarrow> fd_wrapper \<Rightarrow> address outcome" where
  "Socket_get_address name_of_function f w =
     (let r = f (fdw_fd w)
      in bindE (SystemCall name_of_function (syscall_value (\<lambda>_. 0) r) (syscall_errno r) 0) (\<lambda>_.
           case r of Inl _ \<Rightarrow> Inl (Undefined ''uninitialised result'') | Inr addr \<Rightarrow> Address_of_sockaddr addr (sz addr)))"

definition Socket_local_address :: "(int \<Rightarrow> bytes syscall) \<Rightarrow> fd_wrapper \<Rightarrow> address outcome" where
  "Socket_local_address getsockname = Socket_get_address ''getsockname'' getsockname"

definition Socket_peer_address :: "(int \<Rightarrow> bytes syscall) \<Rightarrow> fd_wrapper \<Rightarrow> address outcome" where
  "Socket_peer_address getpeername = Socket_get_address ''getpeername'' getpeername"

definition Socket_bind :: "(int \<Rightarrow> bytes \<Rightarrow> unit syscall) \<Rightarrow> fd_wrapper \<Rightarrow> address \<Rightarrow> unit outcome" where
  "Socket_bind bind w a =
     (let r = bind (fdw_fd w) (take (unat (ad_size a)) (ad_storage a))
      in bindE (SystemCall ''bind'' (syscall_value (\<lambda>_. 0) r) (syscall_errno r) 0) (\<lambda>_. Inr ()))"

definition Socket_connect :: "(int \<Rightarrow> bytes \<Rightarrow> unit syscall) \<Rightarrow> fd_wrapper \<Rightarrow> address \<Rightarrow> unit outcome" where
  "Socket_connect connect w a =
     (let r = connect (fdw_fd w) (take (unat (ad_size a)) (ad_storage a))
      in bindE (SystemCall ''connect'' (syscall_value (\<lambda>_. 0) r) (syscall_errno r) 0) (\<lambda>_. Inr ()))"

definition SHUT_RD :: int where
  "SHUT_RD = 0"

definition SHUT_WR :: int where
  "SHUT_WR = 1"

definition SHUT_RDWR :: int where
  "SHUT_RDWR = 2"

definition Socket_shutdown :: "(int \<Rightarrow> int \<Rightarrow> unit syscall) \<Rightarrow> fd_wrapper \<Rightarrow> int \<Rightarrow> fd_wrapper outcome" where
  "Socket_shutdown shutdown w how =
     (let r = shutdown (fdw_fd w) how
      in bindE (SystemCall ''shutdown'' (syscall_value (\<lambda>_. 0) r) (syscall_errno r) 0) (\<lambda>_.
           if how = SHUT_RD then Inr (FileDescriptor_register_read w)
           else if how = SHUT_WR then Inr (FileDescriptor_register_write w)
           else if how = SHUT_RDWR then Inr (FileDescriptor_register_write (FileDescriptor_register_read w))
           else Inl (Runtime_error ''Socket::shutdown() called with invalid `how`'')))"

section \<open>UDPSocket\<close>

text \<open>
  \<^verbatim>\<open>recvfrom\<close> with \<^verbatim>\<open>MSG_TRUNC\<close> gives the source address, the true length of the datagram and the bytes
  that fit.
\<close>

definition UDPSocket_recv ::
  "(int \<Rightarrow> size_t \<Rightarrow> (bytes \<times> nat \<times> bytes) syscall) \<Rightarrow> fd_wrapper \<Rightarrow> size_t \<Rightarrow> (fd_wrapper \<times> address \<times> bytes) outcome" where
  "UDPSocket_recv recvfrom w mtu =
     (let r = recvfrom (fdw_fd w) mtu
      in bindE (SystemCall ''recvfrom'' (syscall_value (\<lambda>(_, n, _). n) r) (syscall_errno r) 0) (\<lambda>recv_len.
           if recv_len > sint mtu then Inl (Runtime_error ''recvfrom (oversized datagram)'')
           else case r of
             Inl _ \<Rightarrow> Inl (Length_error ''basic_string::resize'')
           | Inr (addr, _, payload) \<Rightarrow>
               bindE (Address_of_sockaddr addr (sz addr)) (\<lambda>source_address.
                 Inr (FileDescriptor_register_read w, source_address, take (nat recv_len) (payload @ replicate (unat mtu - length payload) 0)))))"

definition sendmsg_helper ::
  "(int \<Rightarrow> bytes option \<Rightarrow> (bytes \<times> size_t) list \<Rightarrow> nat syscall) \<Rightarrow> int \<Rightarrow> bytes option \<Rightarrow> buffer_view_list \<Rightarrow> unit outcome" where
  "sendmsg_helper sendmsg fd_num destination payload =
     (let r = sendmsg fd_num destination (BufferViewList_as_iovecs payload)
      in bindE (SystemCall ''sendmsg'' (syscall_value (\<lambda>n. n) r) (syscall_errno r) 0) (\<lambda>bytes_sent.
           if word_of_int bytes_sent \<noteq> BufferViewList_size payload
           then Inl (Runtime_error ''datagram payload too big for sendmsg()'') else Inr ()))"

definition UDPSocket_sendto ::
  "(int \<Rightarrow> bytes option \<Rightarrow> (bytes \<times> size_t) list \<Rightarrow> nat syscall) \<Rightarrow> fd_wrapper \<Rightarrow> address \<Rightarrow> buffer_view_list \<Rightarrow> fd_wrapper outcome" where
  "UDPSocket_sendto sendmsg w destination payload =
     bindE (sendmsg_helper sendmsg (fdw_fd w) (Some (take (unat (ad_size destination)) (ad_storage destination))) payload) (\<lambda>_.
       Inr (FileDescriptor_register_write w))"

definition UDPSocket_send ::
  "(int \<Rightarrow> bytes option \<Rightarrow> (bytes \<times> size_t) list \<Rightarrow> nat syscall) \<Rightarrow> fd_wrapper \<Rightarrow> buffer_view_list \<Rightarrow> fd_wrapper outcome" where
  "UDPSocket_send sendmsg w payload =
     bindE (sendmsg_helper sendmsg (fdw_fd w) None payload) (\<lambda>_. Inr (FileDescriptor_register_write w))"

section \<open>TCPSocket\<close>

definition TCPSocket_listen :: "(int \<Rightarrow> int \<Rightarrow> unit syscall) \<Rightarrow> fd_wrapper \<Rightarrow> int \<Rightarrow> unit outcome" where
  "TCPSocket_listen listen w backlog =
     (let r = listen (fdw_fd w) backlog
      in bindE (SystemCall ''listen'' (syscall_value (\<lambda>_. 0) r) (syscall_errno r) 0) (\<lambda>_. Inr ()))"

definition AF_INET_int :: int where
  "AF_INET_int = 2"

definition SOCK_STREAM :: int where
  "SOCK_STREAM = 1"

definition TCPSocket_accept ::
  "(int \<Rightarrow> nat syscall) \<Rightarrow> (int \<Rightarrow> socket_option \<Rightarrow> (nat \<times> int) syscall) \<Rightarrow> fd_wrapper \<Rightarrow> (fd_wrapper \<times> fd_wrapper) outcome" where
  "TCPSocket_accept accept getsockopt w =
     (let w = FileDescriptor_register_read w; r = accept (fdw_fd w)
      in bindE (SystemCall ''accept'' (syscall_value (\<lambda>fd. fd) r) (syscall_errno r) 0) (\<lambda>fd.
         bindE (FDWrapper_new fd) (\<lambda>accepted.
         bindE (Socket_of_FileDescriptor getsockopt accepted AF_INET_int SOCK_STREAM) (\<lambda>accepted. Inr (w, accepted)))))"

definition Socket_setsockopt :: "(int \<Rightarrow> int \<Rightarrow> int \<Rightarrow> int \<Rightarrow> unit syscall) \<Rightarrow> fd_wrapper \<Rightarrow> int \<Rightarrow> int \<Rightarrow> int \<Rightarrow> unit outcome" where
  "Socket_setsockopt setsockopt w level option option_value =
     (let r = setsockopt (fdw_fd w) level option option_value
      in bindE (SystemCall ''setsockopt'' (syscall_value (\<lambda>_. 0) r) (syscall_errno r) 0) (\<lambda>_. Inr ()))"

definition Socket_set_reuseaddr :: "(int \<Rightarrow> int \<Rightarrow> int \<Rightarrow> int \<Rightarrow> unit syscall) \<Rightarrow> fd_wrapper \<Rightarrow> unit outcome" where
  "Socket_set_reuseaddr setsockopt w = Socket_setsockopt setsockopt w 1 2 1"

section \<open>A datagram is sent whole or the call throws\<close>

lemma UDPSocket_sendto_whole:
  assumes "UDPSocket_sendto sendmsg w destination payload = Inr w'" "length (concat payload) < 2 ^ 63"
    and "\<And>fd dst iovecs n. sendmsg fd dst iovecs = Inr n \<Longrightarrow> n < 2 ^ 63" "\<And>fd dst iovecs. sendmsg fd dst iovecs \<noteq> Inl 0"
  shows "sendmsg (fdw_fd w) (Some (take (unat (ad_size destination)) (ad_storage destination))) (BufferViewList_as_iovecs payload) =
      Inr (length (concat payload)) \<and> fdw_write_count w' = fdw_write_count w + 1"
proof -
  let ?r = "sendmsg (fdw_fd w) (Some (take (unat (ad_size destination)) (ad_storage destination))) (BufferViewList_as_iovecs payload)"
  obtain n where n: "?r = Inr n" "(word_of_nat n :: size_t) = BufferViewList_size payload"
    and w': "w' = FileDescriptor_register_write w"
    using assms(1,4)
    by (auto simp: UDPSocket_sendto_def sendmsg_helper_def bindE_Inr_iff SystemCall_cases Let_def split: sum.splits if_splits)
  have "unat (word_of_nat n :: size_t) = n"
    using assms(3) [OF n(1)] by (intro unat_of_nat_eq) simp
  moreover have "unat (BufferViewList_size payload) = length (concat payload)"
    using assms(2) by (simp add: BufferViewList_size_eq fits_def del: length_concat)
  ultimately show ?thesis
    using n w' by (simp add: FileDescriptor_register_write_def del: length_concat)
qed

end
