(* ===== verification/Ipv4.thy ===== *)
theory Ipv4
  imports Tcp_Segment
begin

text \<open>
  \<^verbatim>\<open>libsponge/tcp_helpers/ipv4_header.{hh,cc}\<close> and \<^verbatim>\<open>ipv4_datagram.{hh,cc}\<close>: the IPv4 header and
  datagram, their parsers and serializers.  The verdict of the header parser is described
  exactly, parsing undoes serializing, and the datagram parser is shown to ignore that verdict.
\<close>

section \<open>IPv4Header\<close>

record ipv4_header =
  ip_ver :: u8
  ip_hlen :: u8
  ip_tos :: u8
  ip_len :: u16
  ip_id :: u16
  ip_df :: bool
  ip_mf :: bool
  ip_offset :: u16
  ip_ttl :: u8
  ip_proto :: u8
  ip_cksum :: u16
  ip_src :: u32
  ip_dst :: u32

definition IPv4Header_LENGTH :: size_t where
  "IPv4Header_LENGTH = 20"

definition IPv4Header_DEFAULT_TTL :: u8 where
  "IPv4Header_DEFAULT_TTL = 128"

definition IPv4Header_PROTO_TCP :: u8 where
  "IPv4Header_PROTO_TCP = 6"

definition IPv4Header_default :: ipv4_header where
  "IPv4Header_default =
     \<lparr>ip_ver = 4, ip_hlen = ucast (IPv4Header_LENGTH div 4), ip_tos = 0, ip_len = 0, ip_id = 0,
      ip_df = True, ip_mf = False, ip_offset = 0, ip_ttl = IPv4Header_DEFAULT_TTL,
      ip_proto = IPv4Header_PROTO_TCP, ip_cksum = 0, ip_src = 0, ip_dst = 0\<rparr>"

text \<open>The checks of \<^verbatim>\<open>parse\<close> once all fields are read.\<close>

definition IPv4Header_check ::
  "buffer \<Rightarrow> size_t \<Rightarrow> ipv4_header \<Rightarrow> net_parser \<Rightarrow> (parse_result \<times> ipv4_header \<times> net_parser) outcome" where
  "IPv4Header_check original_serialized_version data_size h p =
     (if data_size < 4 * ucast (ip_hlen h) then Inr (PacketTooShort, h, p)
      else if ip_ver h \<noteq> 4 then Inr (WrongIPVersion, h, p)
      else if ip_hlen h < 5 then Inr (HeaderTooShort, h, p)
      else if data_size \<noteq> ucast (ip_len h) then Inr (TruncatedPacket, h, p)
      else bindE (NetParser_remove_prefix p (ucast (ip_hlen h) * 4 - IPv4Header_LENGTH)) (\<lambda>p.
        if NetParser_error p then Inr (NetParser_get_error p, h, p)
        else let check = InternetChecksum_add (InternetChecksum_new 0)
                   (take (4 * unat (ip_hlen h)) (Buffer_str original_serialized_version))
             in if InternetChecksum_value check \<noteq> 0 then Inr (BadChecksum, h, p)
                else Inr (NoError, h, p)))"

definition IPv4Header_parse ::
  "ipv4_header \<Rightarrow> net_parser \<Rightarrow> (parse_result \<times> ipv4_header \<times> net_parser) outcome" where
  "IPv4Header_parse h0 p0 =
     (let original_serialized_version = np_buffer p0; data_size = Buffer_size (np_buffer p0)
      in if data_size < IPv4Header_LENGTH then Inr (PacketTooShort, h0, p0)
         else
           bindE (NetParser_u8 p0) (\<lambda>(first_byte, p).
           bindE (NetParser_u8 p) (\<lambda>(tos', p).
           bindE (NetParser_u16 p) (\<lambda>(len', p).
           bindE (NetParser_u16 p) (\<lambda>(id', p).
           bindE (NetParser_u16 p) (\<lambda>(fo_val, p).
           bindE (NetParser_u8 p) (\<lambda>(ttl', p).
           bindE (NetParser_u8 p) (\<lambda>(proto', p).
           bindE (NetParser_u16 p) (\<lambda>(cksum', p).
           bindE (NetParser_u32 p) (\<lambda>(src', p).
           bindE (NetParser_u32 p) (\<lambda>(dst', p).
             let h = \<lparr>ip_ver = drop_bit 4 first_byte, ip_hlen = first_byte AND 0x0f, ip_tos = tos',
                      ip_len = len', ip_id = id', ip_df = fo_val AND 0x4000 \<noteq> 0,
                      ip_mf = fo_val AND 0x2000 \<noteq> 0, ip_offset = fo_val AND 0x1fff, ip_ttl = ttl',
                      ip_proto = proto', ip_cksum = cksum', ip_src = src', ip_dst = dst'\<rparr>
             in IPv4Header_check original_serialized_version data_size h p)))))))))))"

definition IPv4Header_serialize :: "ipv4_header \<Rightarrow> bytes outcome" where
  "IPv4Header_serialize h =
     (if ip_ver h \<noteq> 4 then Inl (Runtime_error ''wrong IP version'')
      else if 4 * unat (ip_hlen h) < unat IPv4Header_LENGTH then Inl (Runtime_error ''IP header too short'')
      else
        let first_byte = push_bit 4 (ip_ver h) OR (ip_hlen h AND 0xf);
            ret = NetUnparser_u8 [] first_byte;
            ret = NetUnparser_u8 ret (ip_tos h);
            ret = NetUnparser_u16 ret (ip_len h);
            ret = NetUnparser_u16 ret (ip_id h);
            fo_val = (if ip_df h then 0x4000 else 0) OR (if ip_mf h then 0x2000 else 0) OR
                     (ip_offset h AND 0x1fff);
            ret = NetUnparser_u16 ret fo_val;
            ret = NetUnparser_u8 ret (ip_ttl h);
            ret = NetUnparser_u8 ret (ip_proto h);
            ret = NetUnparser_u16 ret (ip_cksum h);
            ret = NetUnparser_u32 ret (ip_src h);
            ret = NetUnparser_u32 ret (ip_dst h)
        in Inr (string_resize ret (4 * unat (ip_hlen h))))"

definition IPv4Header_payload_length :: "ipv4_header \<Rightarrow> u16" where
  "IPv4Header_payload_length h = ip_len h - 4 * ucast (ip_hlen h)"

definition IPv4Header_pseudo_cksum :: "ipv4_header \<Rightarrow> u32" where
  "IPv4Header_pseudo_cksum h =
     (let pcksum = drop_bit 16 (ip_src h) + (ip_src h AND 0xffff);
          pcksum = pcksum + (drop_bit 16 (ip_dst h) + (ip_dst h AND 0xffff));
          pcksum = pcksum + ucast (ip_proto h)
      in pcksum + ucast (IPv4Header_payload_length h))"

section \<open>IPv4Datagram\<close>

record ipv4_datagram =
  dg_header :: ipv4_header
  dg_payload :: buffer_list

definition IPv4Datagram_default :: ipv4_datagram where
  "IPv4Datagram_default = \<lparr>dg_header = IPv4Header_default, dg_payload = []\<rparr>"

definition IPv4Datagram_parse :: "ipv4_datagram \<Rightarrow> buffer \<Rightarrow> (parse_result \<times> ipv4_datagram) outcome" where
  "IPv4Datagram_parse d b =
     bindE (IPv4Header_parse (dg_header d) (NetParser_new b)) (\<lambda>(_, h, p).
       let d = \<lparr>dg_header = h, dg_payload = [np_buffer p]\<rparr>
       in if BufferList_size (dg_payload d) \<noteq> ucast (IPv4Header_payload_length h)
          then Inr (PacketTooShort, d) else Inr (NetParser_get_error p, d))"

definition IPv4Datagram_serialize :: "ipv4_datagram \<Rightarrow> buffer_list outcome" where
  "IPv4Datagram_serialize d =
     (if BufferList_size (dg_payload d) \<noteq> ucast (IPv4Header_payload_length (dg_header d))
      then Inl (Runtime_error ''IPv4Datagram::serialize: payload is wrong size'')
      else let header_out = (dg_header d)\<lparr>ip_cksum := 0\<rparr>
           in bindE (IPv4Header_serialize header_out) (\<lambda>header_zero_checksum.
             let check = InternetChecksum_add (InternetChecksum_new 0) header_zero_checksum;
                 header_out = header_out\<lparr>ip_cksum := InternetChecksum_value check\<rparr>
             in bindE (IPv4Header_serialize header_out) (\<lambda>s.
                  Inr (BufferList_append (BufferList_append [] (BufferList_of_string s)) (dg_payload d)))))"

section \<open>What the parsers accept\<close>

definition ipv4_header_of :: "bytes \<Rightarrow> ipv4_header" where
  "ipv4_header_of bs =
     \<lparr>ip_ver = drop_bit 4 (bs ! 0), ip_hlen = bs ! 0 AND 0x0f, ip_tos = bs ! 1, ip_len = slice 2 2 bs,
      ip_id = slice 4 2 bs, ip_df = (slice 6 2 bs :: u16) AND 0x4000 \<noteq> 0,
      ip_mf = (slice 6 2 bs :: u16) AND 0x2000 \<noteq> 0, ip_offset = slice 6 2 bs AND 0x1fff,
      ip_ttl = bs ! 8, ip_proto = bs ! 9, ip_cksum = slice 10 2 bs, ip_src = slice 12 4 bs,
      ip_dst = slice 16 4 bs\<rparr>"

text \<open>The header is complete and its length fields fit the bytes.\<close>

definition ipv4_shape :: "bytes \<Rightarrow> bool" where
  "ipv4_shape bs \<longleftrightarrow>
     (let h = ipv4_header_of bs
      in 20 \<le> length bs \<and> ip_ver h = 4 \<and> 5 \<le> unat (ip_hlen h) \<and> 4 * unat (ip_hlen h) \<le> length bs \<and>
         length bs = unat (ip_len h))"

definition ipv4_verdict :: "bytes \<Rightarrow> parse_result" where
  "ipv4_verdict bs =
     (let h = ipv4_header_of bs
      in if length bs < 20 \<or> length bs < 4 * unat (ip_hlen h) then PacketTooShort
         else if ip_ver h \<noteq> 4 then WrongIPVersion
         else if unat (ip_hlen h) < 5 then HeaderTooShort
         else if length bs \<noteq> unat (ip_len h) then TruncatedPacket
         else if InternetChecksum_value (InternetChecksum_add (InternetChecksum_new 0)
                   (take (4 * unat (ip_hlen h)) bs)) \<noteq> 0 then BadChecksum
         else NoError)"

lemma unat_hlen_bytes:
  assumes "\<not> (d :: u8) < 5"
  shows "unat (ucast d * 4 - IPv4Header_LENGTH) = 4 * unat d - 20"
  using unat_doff_bytes [OF assms] by (simp add: TCPHeader_LENGTH_def IPv4Header_LENGTH_def)

lemma unat_hlen: "unat (4 * ucast (d :: u8) :: size_t) = 4 * unat d"
proof -
  have "unat d < 256"
    using unsigned_less [of d, where ?'a = nat] by simp
  then show ?thesis
    by (simp add: unat_word_ariths unsigned_ucast_eq take_bit_nat_eq_self)
qed

lemma sz_eq_ucast_16: "fits bs \<Longrightarrow> sz bs = ucast (n :: u16) \<longleftrightarrow> length bs = unat n"
  using unsigned_less [of n, where ?'a = nat]
  by (simp add: word_eq_unat unsigned_ucast_eq take_bit_nat_eq_self)

lemma IPv4Header_check_runs:
  assumes p: "progress p bs 20" and h: "h = ipv4_header_of bs"
    and bs: "20 \<le> length bs" "Buffer_wf b" "Buffer_str b = bs"
  shows "runs (IPv4Header_check b (Buffer_size b) h p) (\<lambda>(res, h', p').
    res = ipv4_verdict bs \<and> h' = ipv4_header_of bs \<and>
    progress p' bs (if ipv4_shape bs then 4 * unat (ip_hlen (ipv4_header_of bs)) else 20))"
proof -
  let ?h = "ipv4_header_of bs"
  have "fits bs"
    using Buffer_wf_fits [OF bs(2)] bs(3) by simp
  then have size: "Buffer_size b < 4 * ucast (ip_hlen ?h) \<longleftrightarrow> length bs < 4 * unat (ip_hlen ?h)"
    "Buffer_size b = ucast (ip_len ?h) \<longleftrightarrow> length bs = unat (ip_len ?h)"
    using bs by (simp_all add: word_less_nat_alt unat_hlen sz_eq_ucast_16 Buffer_size_def)
  have five: "ip_hlen ?h < 5 \<longleftrightarrow> unat (ip_hlen ?h) < 5"
    by (simp add: word_less_nat_alt)
  have "runs (IPv4Header_check b (Buffer_size b) ?h p) (\<lambda>(res, h', p').
    res = ipv4_verdict bs \<and> h' = ?h \<and>
    progress p' bs (if ipv4_shape bs then 4 * unat (ip_hlen ?h) else 20))"
  proof (cases "ipv4_shape bs")
    case False
    then show ?thesis
      using p bs(1) by (auto simp: IPv4Header_check_def ipv4_verdict_def ipv4_shape_def Let_def size five)
  next
    case True
    then have h: "ip_ver ?h = 4" "\<not> ip_hlen ?h < 5" "5 \<le> unat (ip_hlen ?h)" "4 * unat (ip_hlen ?h) \<le> length bs"
      "length bs = unat (ip_len ?h)"
      by (simp_all add: ipv4_shape_def Let_def word_less_nat_alt)
    have n: "20 + unat (ucast (ip_hlen ?h) * 4 - IPv4Header_LENGTH) = 4 * unat (ip_hlen ?h)"
      using h by (simp add: unat_hlen_bytes)
    have "runs (NetParser_remove_prefix p (ucast (ip_hlen ?h) * 4 - IPv4Header_LENGTH))
        (\<lambda>p'. progress p' bs (4 * unat (ip_hlen ?h)))"
      by (rule progress_remove_prefix [OF p]) (simp only: n)
    then show ?thesis
      using True h bs
      by (auto simp: IPv4Header_check_def size ipv4_verdict_def Let_def progress_error elim!: runs_mono)
  qed
  then show ?thesis
    by (simp only: h)
qed

lemma IPv4Header_parse_runs:
  assumes p: "progress p bs 0"
  shows "runs (IPv4Header_parse h0 p) (\<lambda>(res, h', p'). res = ipv4_verdict bs \<and>
    (if length bs < 20 then h' = h0 \<and> p' = p
     else h' = ipv4_header_of bs \<and>
       progress p' bs (if ipv4_shape bs then 4 * unat (ip_hlen (ipv4_header_of bs)) else 20)))"
proof (cases "length bs < 20")
  case True
  then show ?thesis
    using progress_buffer [OF p]
    by (simp add: IPv4Header_parse_def Let_def IPv4Header_LENGTH_def word_less_nat_alt ipv4_verdict_def)
next
  case False
  note b = progress_buffer [OF p]
  have "\<not> Buffer_size (np_buffer p) < IPv4Header_LENGTH"
    using False b by (simp add: IPv4Header_LENGTH_def word_less_nat_alt)
  then show ?thesis
    unfolding IPv4Header_parse_def Let_def runs_bindE
    apply (simp only: if_False runs_bindE)
    apply (rule progress_u8 [OF p], simp only: prod.case runs_bindE)
    apply ((erule progress_u16 progress_u32 progress_u8, simp only: prod.case runs_bindE)+)
    apply (rule runs_mono [OF IPv4Header_check_runs [of _ bs]])
         apply (simp del: add_2_eq_Suc add_2_eq_Suc')
        apply (use False in \<open>simp add: ipv4_header_of_def del: One_nat_def add_2_eq_Suc add_2_eq_Suc'\<close>)
       apply (use False b in auto)
    done
qed

section \<open>Parsing what was serialized\<close>

definition IPv4Header_wf :: "ipv4_header \<Rightarrow> bool" where
  "IPv4Header_wf h \<longleftrightarrow>
     ip_ver h = 4 \<and> 5 \<le> unat (ip_hlen h) \<and> unat (ip_hlen h) \<le> 15 \<and> unat (ip_offset h) < 2 ^ 13"

definition ip_fragment_word :: "ipv4_header \<Rightarrow> u16" where
  "ip_fragment_word h =
     (if ip_df h then 0x4000 else 0) OR (if ip_mf h then 0x2000 else 0) OR (ip_offset h AND 0x1fff)"

definition ip_header_bytes :: "ipv4_header \<Rightarrow> bytes" where
  "ip_header_bytes h =
     [push_bit 4 (ip_ver h) OR (ip_hlen h AND 0xf), ip_tos h] @ be_bytes (ip_len h) @ be_bytes (ip_id h) @
     be_bytes (ip_fragment_word h) @ [ip_ttl h, ip_proto h]"

definition ip_header_tail :: "ipv4_header \<Rightarrow> bytes" where
  "ip_header_tail h = be_bytes (ip_src h) @ be_bytes (ip_dst h) @ replicate (4 * unat (ip_hlen h) - 20) 0"

lemma length_ip_header_bytes [simp]: "length (ip_header_bytes h) = 10"
  by (simp add: ip_header_bytes_def)

lemma length_ip_header_tail [simp]: "IPv4Header_wf h \<Longrightarrow> length (ip_header_tail h) = 4 * unat (ip_hlen h) - 12"
  by (auto simp: ip_header_tail_def IPv4Header_wf_def)

lemma ip_header_parts_cksum [simp]:
  "ip_header_bytes (h\<lparr>ip_cksum := c\<rparr>) = ip_header_bytes h" "ip_header_tail (h\<lparr>ip_cksum := c\<rparr>) = ip_header_tail h"
  "IPv4Header_wf (h\<lparr>ip_cksum := c\<rparr>) = IPv4Header_wf h"
  by (simp_all add: ip_header_bytes_def ip_header_tail_def ip_fragment_word_def IPv4Header_wf_def)

lemma IPv4Header_serialize_eq:
  assumes "IPv4Header_wf h"
  shows "IPv4Header_serialize h = Inr (ip_header_bytes h @ be_bytes (ip_cksum h) @ ip_header_tail h)"
  using assms
  by (simp add: IPv4Header_serialize_def unparse_simps Let_def string_resize_def ip_header_bytes_def
      IPv4Header_wf_def IPv4Header_LENGTH_def ip_header_tail_def ip_fragment_word_def del: take_append)

lemma ip_first_byte:
  assumes "unat (n :: u8) \<le> 15"
  shows "drop_bit 4 (push_bit 4 4 OR (n AND 0xf)) = (4 :: u8)" "(push_bit 4 4 OR (n AND 0xf)) AND 0xf = n"
proof -
  have "n AND 0xf = take_bit 4 n"
    by (simp add: take_bit_eq_mask mask_eq_exp_minus_1)
  also have "\<dots> = n"
    using assms by (simp add: word_eq_unat unsigned_take_bit_eq take_bit_nat_eq_self)
  finally have n: "n AND 0xf = n" .
  have "drop_bit 4 n = 0"
    using assms by (simp add: word_eq_unat drop_bit_eq_div unat_div_distrib)
  then show "drop_bit 4 (push_bit 4 4 OR (n AND 0xf)) = (4 :: u8)"
    by (simp add: n)
  show "(push_bit 4 4 OR (n AND 0xf)) AND 0xf = n"
    by (simp add: n bit.conj_disj_distrib2)
qed

lemma ip_fragment_bits:
  "ip_fragment_word h AND 0x4000 \<noteq> 0 \<longleftrightarrow> ip_df h" "ip_fragment_word h AND 0x2000 \<noteq> 0 \<longleftrightarrow> ip_mf h"
  "unat (ip_offset h) < 2 ^ 13 \<Longrightarrow> ip_fragment_word h AND 0x1fff = ip_offset h"
proof -
  have "ip_offset h AND 0x1fff = take_bit 13 (ip_offset h)"
    by (simp add: take_bit_eq_mask mask_eq_exp_minus_1)
  then have o: "unat (ip_offset h) < 2 ^ 13 \<Longrightarrow> ip_offset h AND 0x1fff = ip_offset h"
    by (simp add: word_eq_unat unsigned_take_bit_eq take_bit_nat_eq_self)
  show "ip_fragment_word h AND 0x4000 \<noteq> 0 \<longleftrightarrow> ip_df h" "ip_fragment_word h AND 0x2000 \<noteq> 0 \<longleftrightarrow> ip_mf h"
    by (cases "ip_df h"; cases "ip_mf h"; simp add: ip_fragment_word_def bit.conj_disj_distrib2 and.assoc)+
  assume "unat (ip_offset h) < 2 ^ 13"
  then show "ip_fragment_word h AND 0x1fff = ip_offset h"
    by (cases "ip_df h"; cases "ip_mf h"; simp add: ip_fragment_word_def bit.conj_disj_distrib2 o)
qed

lemma ipv4_header_of_serialized:
  assumes "IPv4Header_wf h"
  shows "ipv4_header_of (ip_header_bytes h @ be_bytes (ip_cksum h) @ ip_header_tail h @ rest) = h"
proof -
  note simps = ip_header_bytes_def ip_header_tail_def slice_def nth_append
  let ?s = "ip_header_bytes h @ be_bytes (ip_cksum h) @ ip_header_tail h @ rest"
  have words: "slice 2 2 ?s = ip_len h" "slice 4 2 ?s = ip_id h" "slice 6 2 ?s = ip_fragment_word h"
      "slice 10 2 ?s = ip_cksum h" "slice 12 4 ?s = ip_src h" "slice 16 4 ?s = ip_dst h"
    and octets: "?s ! 1 = ip_tos h" "?s ! 8 = ip_ttl h" "?s ! 9 = ip_proto h"
    and first: "?s ! 0 = push_bit 4 (ip_ver h) OR (ip_hlen h AND 0xf)"
    by (simp_all add: simps)
  have "drop_bit 4 (?s ! 0) = ip_ver h" "?s ! 0 AND 0xf = ip_hlen h"
    unfolding first using assms ip_first_byte [of "ip_hlen h"] by (simp_all add: IPv4Header_wf_def)
  then show ?thesis
    unfolding ipv4_header_of_def words octets ip_fragment_bits
    using assms ip_fragment_bits(3) [of h] by (simp add: IPv4Header_wf_def)
qed

lemma unat_payload_length:
  assumes "4 * unat (ip_hlen h) \<le> unat (ip_len h)"
  shows "unat (IPv4Header_payload_length h) = unat (ip_len h) - 4 * unat (ip_hlen h)"
proof -
  have "unat (ip_hlen h) < 256"
    using unsigned_less [of "ip_hlen h", where ?'a = nat] by simp
  then have "unat (4 * ucast (ip_hlen h) :: u16) = 4 * unat (ip_hlen h)"
    by (simp add: unat_word_ariths unsigned_ucast_eq take_bit_nat_eq_self)
  then show ?thesis
    using assms by (simp add: IPv4Header_payload_length_def unat_sub_nowrap)
qed

text \<open>The verdict of the datagram parser: the length of the payload, and nothing else.\<close>

lemma IPv4Datagram_parse_runs:
  assumes b: "Buffer_wf b" and bs: "bs = Buffer_str b" "20 \<le> length bs"
  defines "n \<equiv> if ipv4_shape bs then 4 * unat (ip_hlen (ipv4_header_of bs)) else 20"
  shows "runs (IPv4Datagram_parse d b) (\<lambda>(res, d').
    dg_header d' = ipv4_header_of bs \<and> BufferList_concatenate (dg_payload d') = drop n bs \<and>
    list_all Buffer_wf (dg_payload d') \<and>
    res = (if length bs - n = unat (IPv4Header_payload_length (ipv4_header_of bs)) then NoError else PacketTooShort))"
proof -
  have p: "progress (NetParser_new b) bs 0"
    using b by (simp add: bs)
  have n: "n \<le> length bs"
    using bs(2) by (auto simp: n_def ipv4_shape_def Let_def)
  have size: "BufferList_size [np_buffer p'] = ucast (m :: u16) \<longleftrightarrow> length bs - n = unat m"
    if "progress p' bs n" for p' m
    using progress_buffer [OF that] n Buffer_wf_fits [of "np_buffer p'"] sz_eq_ucast_16 [of "drop n bs" m]
    by (simp add: BufferList_size_eq)
  have "runs (IPv4Header_parse (dg_header d) (NetParser_new b)) (\<lambda>(_, h', p'). h' = ipv4_header_of bs \<and> progress p' bs n)"
    by (rule runs_mono [OF IPv4Header_parse_runs [OF p]]) (use bs(2) in \<open>simp add: n_def split_def\<close>)
  then show ?thesis
    unfolding IPv4Datagram_parse_def runs_bindE
    by (rule runs_mono) (use n in \<open>auto simp: size progress_error progress_buffer Let_def\<close>)
qed

lemma IPv4Datagram_serialize_eq:
  fixes d :: ipv4_datagram
  defines "h \<equiv> dg_header d" and "pl \<equiv> BufferList_concatenate (dg_payload d)"
  defines "c \<equiv> InternetChecksum_value (InternetChecksum_add (InternetChecksum_new 0)
    (ip_header_bytes h @ [0, 0] @ ip_header_tail h))"
  assumes "IPv4Header_wf h" "length pl = unat (IPv4Header_payload_length h)"
  shows "IPv4Datagram_serialize d =
    Inr (Buffer_new (ip_header_bytes h @ be_bytes c @ ip_header_tail h) # dg_payload d)"
proof -
  have "unat (IPv4Header_payload_length h) < 2 ^ 16"
    using unsigned_less [of "IPv4Header_payload_length h", where ?'a = nat] by simp
  then have "BufferList_size (dg_payload d) = ucast (IPv4Header_payload_length h)"
    using assms(5) by (simp add: BufferList_size_eq sz_eq_ucast_16 fits_def pl_def)
  then show ?thesis
    using assms(4)
    by (simp add: IPv4Datagram_serialize_def IPv4Header_serialize_eq c_def h_def Let_def
        BufferList_of_string_def be_bytes_16)
qed

text \<open>Parsing what was serialized, from any buffer that holds its bytes.\<close>

definition IPv4Datagram_wf :: "ipv4_datagram \<Rightarrow> bool" where
  "IPv4Datagram_wf d \<longleftrightarrow> IPv4Header_wf (dg_header d) \<and>
     unat (ip_len (dg_header d)) = 4 * unat (ip_hlen (dg_header d)) + length (BufferList_concatenate (dg_payload d))"

definition same_datagram :: "ipv4_datagram \<Rightarrow> ipv4_datagram \<Rightarrow> bool" where
  "same_datagram d d' \<longleftrightarrow>
     (dg_header d')\<lparr>ip_cksum := ip_cksum (dg_header d)\<rparr> = dg_header d \<and>
     BufferList_concatenate (dg_payload d') = BufferList_concatenate (dg_payload d)"

lemma IPv4Datagram_serialized:
  assumes d: "IPv4Datagram_wf d"
  obtains bl where "IPv4Datagram_serialize d = Inr bl" "fits (BufferList_concatenate bl)"
    "ipv4_verdict (BufferList_concatenate bl) = NoError"
    "\<forall>d0 b. Buffer_wf b \<longrightarrow> Buffer_str b = BufferList_concatenate bl \<longrightarrow>
       runs (IPv4Datagram_parse d0 b) (\<lambda>(res, d'). res = NoError \<and> same_datagram d d')"
proof -
  let ?h = "dg_header d" and ?pl = "BufferList_concatenate (dg_payload d)"
  have wf: "IPv4Header_wf ?h" and total: "unat (ip_len ?h) = 4 * unat (ip_hlen ?h) + length ?pl"
    using d by (simp_all add: IPv4Datagram_wf_def)
  have len: "unat (IPv4Header_payload_length ?h) = length ?pl"
    using total by (simp add: unat_payload_length)
  define c where "c = InternetChecksum_value (InternetChecksum_add (InternetChecksum_new 0)
    (ip_header_bytes ?h @ [0, 0] @ ip_header_tail ?h))"
  let ?h' = "?h\<lparr>ip_cksum := c\<rparr>"
  let ?hb = "ip_header_bytes ?h @ be_bytes c @ ip_header_tail ?h"
  define bs where "bs = ?hb @ ?pl"
  have of: "ipv4_header_of bs = ?h'"
    using ipv4_header_of_serialized [of ?h' ?pl] wf by (simp add: bs_def)
  have n: "length ?hb = 4 * unat (ip_hlen ?h)" "length bs = unat (ip_len ?h)"
    using wf total by (auto simp: bs_def IPv4Header_wf_def)
  have shape: "ipv4_shape bs" "fits bs" "20 \<le> length bs"
    using n total wf of unsigned_less [of "ip_len ?h", where ?'a = nat]
    by (auto simp: ipv4_shape_def fits_def Let_def IPv4Header_wf_def)
  have "InternetChecksum_value (InternetChecksum_add (InternetChecksum_new 0) ?hb) = 0"
    using wf by (intro InternetChecksum_insert) (auto simp: c_def summable_def IPv4Header_wf_def)
  moreover have "take (4 * unat (ip_hlen ?h)) bs = ?hb"
    unfolding bs_def n(1) [symmetric] by simp
  ultimately have "ipv4_verdict bs = NoError"
    using shape wf of by (simp add: ipv4_verdict_def ipv4_shape_def Let_def IPv4Header_wf_def)
  moreover have "drop (4 * unat (ip_hlen ?h)) bs = ?pl"
    using n(1) by (simp add: bs_def)
  then have "runs (IPv4Datagram_parse d0 b) (\<lambda>(res, d'). res = NoError \<and> same_datagram d d')"
    if "Buffer_wf b" "Buffer_str b = bs" for d0 b
    using shape of n len total that
    by (intro runs_mono [OF IPv4Datagram_parse_runs]) (auto simp: IPv4Header_payload_length_def same_datagram_def)
  ultimately show thesis
    using that [of "Buffer_new ?hb # dg_payload d"] shape(2)
    by (simp add: IPv4Datagram_serialize_eq [OF wf len [symmetric]] bs_def c_def)
qed

interpretation ip_wire: wire_format IPv4Datagram_serialize "IPv4Datagram_parse d0" IPv4Datagram_wf same_datagram
  for d0
proof unfold_locales
  fix d
  assume "IPv4Datagram_wf d"
  then show "runs (IPv4Datagram_serialize d) (\<lambda>bl. fits (BufferList_concatenate bl) \<and>
      (\<forall>b. Buffer_wf b \<longrightarrow> Buffer_str b = BufferList_concatenate bl \<longrightarrow>
        runs (IPv4Datagram_parse d0 b) (\<lambda>(res, d'). res = NoError \<and> same_datagram d d')))"
    by (rule IPv4Datagram_serialized) simp
qed

text \<open>The pseudo-header sum is the sum of the 16-bit words of the pseudo-header of RFC 793.\<close>

lemma be_bytes_32: "be_bytes (x :: u32) = [ucast (drop_bit 24 x), ucast (drop_bit 16 x), ucast (drop_bit 8 x), ucast x]"
proof -
  have "LENGTH(32) div 8 = Suc (Suc (Suc (Suc 0)))"
    by simp
  then show ?thesis
    by (simp only: be_bytes_digits be_digits.simps) simp
qed

lemma split_halves:
  assumes "n < (2 :: nat) ^ 32"
  shows "n div 65536 + n mod 65536 =
    256 * (n div 16777216 mod 256) + n div 65536 mod 256 + (256 * (n div 256 mod 256) + n mod 256)"
proof -
  have "n div 65536 = 256 * (n div 65536 div 256) + n div 65536 mod 256"
    by (rule mult_div_mod_eq [symmetric])
  moreover have "n div 65536 div 256 = n div 16777216 mod 256"
    using assms by (simp add: less_mult_imp_div_less)
  moreover have "n mod 65536 = 256 * (n div 256 mod 256) + n mod 256"
    using mod_mult2_eq [of n 256 256] by simp
  ultimately show ?thesis
    by linarith
qed

lemma unat_halves:
  fixes x :: u32
  shows "unat (drop_bit 16 x) + unat (x AND 0xffff) = word_sum False (be_bytes x)" "unat (drop_bit 16 x) < 65536"
    "unat (x AND 0xffff) < 65536"
proof -
  have m: "x AND 0xffff = take_bit 16 x"
    by (simp add: take_bit_eq_mask mask_eq_exp_minus_1)
  have x: "unat x < 2 ^ 32"
    using unsigned_less [of x, where ?'a = nat] by simp
  have u: "unat (drop_bit 16 x) = unat x div 65536" "unat (take_bit 16 x) = unat x mod 65536"
    by (simp_all add: drop_bit_eq_div unat_div_distrib take_bit_eq_mod unat_mod_distrib)
  show "unat (drop_bit 16 x) < 65536" "unat (x AND 0xffff) < 65536"
    using x u m by simp_all
  have b: "unat (ucast (drop_bit k x) :: u8) = unat x div 2 ^ k mod 256" for k
  proof -
    have "unat (drop_bit k x) = drop_bit k (unat x)"
      using x by (simp add: unsigned_drop_bit_eq take_bit_nat_eq_self)
    then show ?thesis
      by (simp only: unsigned_ucast_eq take_bit_eq_mod drop_bit_eq_div [of k "unat x"]) simp
  qed
  have "word_sum False (be_bytes x) = 256 * (unat x div 2 ^ 24 mod 256) + unat x div 2 ^ 16 mod 256 +
      (256 * (unat x div 2 ^ 8 mod 256) + unat x mod 256)"
    using b [of 24] b [of 16] b [of 8] b [of 0] by (simp add: be_bytes_32)
  then show "unat (drop_bit 16 x) + unat (x AND 0xffff) = word_sum False (be_bytes x)"
    using u m split_halves [OF x] by simp
qed

lemma unat_pseudo_cksum:
  "unat (IPv4Header_pseudo_cksum h) =
     word_sum False (be_bytes (ip_src h) @ be_bytes (ip_dst h) @ [0, ip_proto h] @
       be_bytes (IPv4Header_payload_length h))"
proof -
  note s = unat_halves [of "ip_src h"] and d = unat_halves [of "ip_dst h"]
  let ?n = "IPv4Header_payload_length h"
  have p: "unat (ucast (ip_proto h) :: u32) = unat (ip_proto h)" "unat (ip_proto h) < 256"
    and n: "unat (ucast ?n :: u32) = unat ?n" "unat ?n < 65536"
    using unsigned_less [of "ip_proto h", where ?'a = nat] unsigned_less [of ?n, where ?'a = nat]
    by (simp_all add: unsigned_ucast_eq take_bit_nat_eq_self)
  have ws: "word_sum False (be_bytes x @ xs) = word_sum False (be_bytes (x :: u32)) + word_sum False xs" for x xs
    by (simp add: word_sum_append)
  have "unat (IPv4Header_pseudo_cksum h) = unat (drop_bit 16 (ip_src h)) + unat (ip_src h AND 0xffff) +
      (unat (drop_bit 16 (ip_dst h)) + unat (ip_dst h AND 0xffff)) + unat (ip_proto h) + unat ?n"
    unfolding IPv4Header_pseudo_cksum_def Let_def
    by (subst unat_add_nowrap | use s(2,3) d(2,3) p n in simp)+
  then show ?thesis
    by (simp add: s(1) d(1) ws word_sum_be_bytes)
qed

section \<open>Properties\<close>

text \<open>
  C33. The IPv4 header parser never throws, whatever the bytes and whatever header and parser it
  is called with, and its verdict is known exactly: which check fails first, the checksum over
  the header included; and with at least 20 bytes the fields are read from their places.
\<close>

theorem IPv4Header_parse_accepts:
  assumes "Buffer_wf b"
  shows "runs (IPv4Header_parse h0 (NetParser_new b)) (\<lambda>(res, h', p').
    res = ipv4_verdict (Buffer_str b) \<and>
    h' = (if length (Buffer_str b) < 20 then h0 else ipv4_header_of (Buffer_str b)))"
  by (rule runs_mono [OF IPv4Header_parse_runs [OF progress_new [OF assms]]]) auto

theorem IPv4Header_parse_accepts_witness:
  "runs (IPv4Header_parse IPv4Header_default (NetParser_new (Buffer_new (replicate 20 0)))) (\<lambda>(res, _).
     res = WrongIPVersion)"
proof -
  have "ipv4_verdict (replicate 20 0) = WrongIPVersion"
    by code_simp
  then show ?thesis
    using IPv4Header_parse_accepts [of "Buffer_new (replicate 20 0)" IPv4Header_default]
    by (auto simp: fits_def elim!: runs_mono)
qed

text \<open>
  C32. Parsing undoes serializing: a datagram with a well-formed header, whose length field
  matches its payload, is serialized without an exception; the header parser accepts the
  result, checksum included, and the datagram parser gives back the same header, up to the
  computed checksum, and the same payload.
\<close>

theorem IPv4Datagram_roundtrip:
  assumes "ip_ver (dg_header d) = 4" "5 \<le> unat (ip_hlen (dg_header d))" "unat (ip_hlen (dg_header d)) \<le> 15"
    and "unat (ip_offset (dg_header d)) < 2 ^ 13"
    and "unat (ip_len (dg_header d)) =
      4 * unat (ip_hlen (dg_header d)) + length (BufferList_concatenate (dg_payload d))"
  shows "runs (IPv4Datagram_serialize d) (\<lambda>bl.
    runs (IPv4Header_parse h0 (NetParser_new (Buffer_new (BufferList_concatenate bl)))) (\<lambda>(res, _). res = NoError) \<and>
    runs (IPv4Datagram_parse d0 (Buffer_new (BufferList_concatenate bl))) (\<lambda>(res, d').
      res = NoError \<and> (dg_header d')\<lparr>ip_cksum := ip_cksum (dg_header d)\<rparr> = dg_header d \<and>
      BufferList_concatenate (dg_payload d') = BufferList_concatenate (dg_payload d)))"
proof -
  have "IPv4Datagram_wf d"
    using assms by (simp add: IPv4Datagram_wf_def IPv4Header_wf_def)
  then have wire: "runs (IPv4Datagram_serialize d) (\<lambda>bl. runs (IPv4Datagram_parse d0 (Buffer_new (BufferList_concatenate bl)))
      (\<lambda>(res, d'). res = NoError \<and> same_datagram d d'))"
    by (rule ip_wire.on_the_wire)
  obtain bl where bl: "IPv4Datagram_serialize d = Inr bl" "fits (BufferList_concatenate bl)"
    "ipv4_verdict (BufferList_concatenate bl) = NoError"
    using \<open>IPv4Datagram_wf d\<close> by (rule IPv4Datagram_serialized)
  have "runs (IPv4Header_parse h0 (NetParser_new (Buffer_new (BufferList_concatenate bl)))) (\<lambda>(res, _). res = NoError)"
    using bl by (intro runs_mono [OF IPv4Header_parse_runs [OF progress_new]]) auto
  then show ?thesis
    using wire bl(1) by (simp add: same_datagram_def)
qed

theorem IPv4Datagram_roundtrip_witness:
  "runs (IPv4Datagram_serialize
      \<lparr>dg_header = IPv4Header_default\<lparr>ip_len := 23, ip_src := 0x0a000001\<rparr>, dg_payload = [Buffer_new [1, 2, 3]]\<rparr>) (\<lambda>bl.
    runs (IPv4Datagram_parse IPv4Datagram_default (Buffer_new (BufferList_concatenate bl))) (\<lambda>(res, d').
      res = NoError \<and> BufferList_concatenate (dg_payload d') = [1, 2, 3]))"
  by (rule runs_mono [OF IPv4Datagram_roundtrip [where ?h0.0 = IPv4Header_default]])
    (auto simp: IPv4Header_default_def IPv4Header_LENGTH_def elim!: runs_mono)

text \<open>
  \<^verbatim>\<open>IPv4Datagram::parse\<close> ignores the result of \<^verbatim>\<open>IPv4Header::parse\<close> and returns the error of the
  parser, which a failed check does not set: a datagram whose header checksum is wrong, for
  which the header parser answers \<^verbatim>\<open>BadChecksum\<close>, is accepted with \<^verbatim>\<open>NoError\<close>.
\<close>

theorem IPv4Datagram_accepts_bad_checksum:
  assumes "Buffer_wf b" "ipv4_verdict (Buffer_str b) = BadChecksum"
  shows "runs (IPv4Header_parse (dg_header d) (NetParser_new b)) (\<lambda>(res, _). res = BadChecksum) \<and>
    runs (IPv4Datagram_parse d b) (\<lambda>(res, _). res = NoError)"
proof
  let ?bs = "Buffer_str b" and ?h = "ipv4_header_of (Buffer_str b)"
  have shape: "ipv4_shape ?bs"
    using assms(2) by (auto simp: ipv4_verdict_def ipv4_shape_def Let_def split: if_split_asm)
  then have "unat (IPv4Header_payload_length ?h) = length ?bs - 4 * unat (ip_hlen ?h)" "20 \<le> length ?bs"
    by (auto simp: ipv4_shape_def Let_def unat_payload_length)
  then show "runs (IPv4Datagram_parse d b) (\<lambda>(res, _). res = NoError)"
    using shape by (intro runs_mono [OF IPv4Datagram_parse_runs [OF assms(1)]]) auto
  show "runs (IPv4Header_parse (dg_header d) (NetParser_new b)) (\<lambda>(res, _). res = BadChecksum)"
    using assms by (intro runs_mono [OF IPv4Header_parse_runs [OF progress_new]]) auto
qed

theorem IPv4Datagram_accepts_bad_checksum_witness:
  "runs (IPv4Datagram_parse IPv4Datagram_default
     (Buffer_new ([0x45, 0, 0, 20] @ replicate 16 0))) (\<lambda>(res, _). res = NoError)"
proof -
  have "ipv4_verdict ([0x45, 0, 0, 20] @ replicate 16 0) = BadChecksum"
    by code_simp
  then show ?thesis
    using IPv4Datagram_accepts_bad_checksum [of "Buffer_new ([0x45, 0, 0, 20] @ replicate 16 0)"]
    by (simp add: fits_def)
qed

end
