(* ===== verification/Ethernet.thy ===== *)
theory Ethernet
  imports Ipv4
begin

text \<open>
  \<^verbatim>\<open>libsponge/tcp_helpers/ethernet_header.{hh,cc}\<close>, \<^verbatim>\<open>ethernet_frame.{hh,cc}\<close> and
  \<^verbatim>\<open>arp_message.{hh,cc}\<close>: Ethernet frames and ARP messages, their parsers and serializers.
  Parsing undoes serializing; the frame parser is shown to accept frames without a header.
\<close>

section \<open>EthernetHeader\<close>

text \<open>A \<^verbatim>\<open>std::array\<close> of six bytes is a list of length six.\<close>

type_synonym ethernet_address = bytes

definition ETHERNET_BROADCAST :: ethernet_address where
  "ETHERNET_BROADCAST = [0xff, 0xff, 0xff, 0xff, 0xff, 0xff]"

record ethernet_header =
  eth_dst :: ethernet_address
  eth_src :: ethernet_address
  eth_type :: u16

definition EthernetHeader_LENGTH :: size_t where
  "EthernetHeader_LENGTH = 14"

definition EthernetHeader_TYPE_IPv4 :: u16 where
  "EthernetHeader_TYPE_IPv4 = 0x800"

definition EthernetHeader_TYPE_ARP :: u16 where
  "EthernetHeader_TYPE_ARP = 0x806"

definition EthernetHeader_default :: ethernet_header where
  "EthernetHeader_default = \<lparr>eth_dst = replicate 6 0, eth_src = replicate 6 0, eth_type = 0\<rparr>"

text \<open>The loops \<^verbatim>\<open>for (auto &byte : address)\<close> that read and write an address.\<close>

fun read_address :: "ethernet_address \<Rightarrow> net_parser \<Rightarrow> (ethernet_address \<times> net_parser) outcome" where
  "read_address [] p = Inr ([], p)"
| "read_address (_ # address) p =
     bindE (NetParser_u8 p) (\<lambda>(x, p). bindE (read_address address p) (\<lambda>(xs, p). Inr (x # xs, p)))"

definition write_address :: "bytes \<Rightarrow> ethernet_address \<Rightarrow> bytes" where
  "write_address ret address = foldl NetUnparser_u8 ret address"

definition EthernetHeader_parse ::
  "ethernet_header \<Rightarrow> net_parser \<Rightarrow> (parse_result \<times> ethernet_header \<times> net_parser) outcome" where
  "EthernetHeader_parse h p =
     (if Buffer_size (np_buffer p) < EthernetHeader_LENGTH then Inr (PacketTooShort, h, p)
      else bindE (read_address (eth_dst h) p) (\<lambda>(dst', p).
           bindE (read_address (eth_src h) p) (\<lambda>(src', p).
           bindE (NetParser_u16 p) (\<lambda>(type', p).
             Inr (NetParser_get_error p, \<lparr>eth_dst = dst', eth_src = src', eth_type = type'\<rparr>, p)))))"

definition EthernetHeader_serialize :: "ethernet_header \<Rightarrow> bytes" where
  "EthernetHeader_serialize h =
     NetUnparser_u16 (write_address (write_address [] (eth_dst h)) (eth_src h)) (eth_type h)"

section \<open>EthernetFrame\<close>

record ethernet_frame =
  ef_header :: ethernet_header
  ef_payload :: buffer_list

definition EthernetFrame_default :: ethernet_frame where
  "EthernetFrame_default = \<lparr>ef_header = EthernetHeader_default, ef_payload = []\<rparr>"

definition EthernetFrame_parse :: "ethernet_frame \<Rightarrow> buffer \<Rightarrow> (parse_result \<times> ethernet_frame) outcome" where
  "EthernetFrame_parse f b =
     bindE (EthernetHeader_parse (ef_header f) (NetParser_new b)) (\<lambda>(_, h, p).
       Inr (NetParser_get_error p, \<lparr>ef_header = h, ef_payload = [np_buffer p]\<rparr>))"

definition EthernetFrame_serialize :: "ethernet_frame \<Rightarrow> buffer_list" where
  "EthernetFrame_serialize f =
     BufferList_append (BufferList_append [] (BufferList_of_string (EthernetHeader_serialize (ef_header f))))
       (ef_payload f)"

section \<open>ARPMessage\<close>

record arp_message =
  hardware_type :: u16
  protocol_type :: u16
  hardware_address_size :: u8
  protocol_address_size :: u8
  opcode :: u16
  sender_ethernet_address :: ethernet_address
  sender_ip_address :: u32
  target_ethernet_address :: ethernet_address
  target_ip_address :: u32

definition ARPMessage_LENGTH :: size_t where
  "ARPMessage_LENGTH = 28"

definition ARPMessage_TYPE_ETHERNET :: u16 where
  "ARPMessage_TYPE_ETHERNET = 1"

definition ARPMessage_OPCODE_REQUEST :: u16 where
  "ARPMessage_OPCODE_REQUEST = 1"

definition ARPMessage_OPCODE_REPLY :: u16 where
  "ARPMessage_OPCODE_REPLY = 2"

definition ARPMessage_default :: arp_message where
  "ARPMessage_default =
     \<lparr>hardware_type = ARPMessage_TYPE_ETHERNET, protocol_type = EthernetHeader_TYPE_IPv4,
      hardware_address_size = 6, protocol_address_size = 4, opcode = 0,
      sender_ethernet_address = replicate 6 0, sender_ip_address = 0,
      target_ethernet_address = replicate 6 0, target_ip_address = 0\<rparr>"

definition ARPMessage_supported :: "arp_message \<Rightarrow> bool" where
  "ARPMessage_supported m \<longleftrightarrow>
     hardware_type m = ARPMessage_TYPE_ETHERNET \<and> protocol_type m = EthernetHeader_TYPE_IPv4 \<and>
     hardware_address_size m = 6 \<and> protocol_address_size m = 4 \<and>
     (opcode m = ARPMessage_OPCODE_REQUEST \<or> opcode m = ARPMessage_OPCODE_REPLY)"

definition ARPMessage_parse :: "arp_message \<Rightarrow> buffer \<Rightarrow> (parse_result \<times> arp_message) outcome" where
  "ARPMessage_parse m0 b =
     (let p = NetParser_new b
      in if Buffer_size (np_buffer p) < ARPMessage_LENGTH then Inr (PacketTooShort, m0)
         else
           bindE (NetParser_u16 p) (\<lambda>(hardware_type', p).
           bindE (NetParser_u16 p) (\<lambda>(protocol_type', p).
           bindE (NetParser_u8 p) (\<lambda>(hardware_address_size', p).
           bindE (NetParser_u8 p) (\<lambda>(protocol_address_size', p).
           bindE (NetParser_u16 p) (\<lambda>(opcode', p).
             let m = m0\<lparr>hardware_type := hardware_type', protocol_type := protocol_type',
                        hardware_address_size := hardware_address_size',
                        protocol_address_size := protocol_address_size', opcode := opcode'\<rparr>
             in if \<not> ARPMessage_supported m then Inr (Unsupported, m)
                else
                  bindE (read_address (sender_ethernet_address m) p) (\<lambda>(sender_eth, p).
                  bindE (NetParser_u32 p) (\<lambda>(sender_ip, p).
                  bindE (read_address (target_ethernet_address m) p) (\<lambda>(target_eth, p).
                  bindE (NetParser_u32 p) (\<lambda>(target_ip, p).
                    Inr (NetParser_get_error p,
                      m\<lparr>sender_ethernet_address := sender_eth, sender_ip_address := sender_ip,
                        target_ethernet_address := target_eth, target_ip_address := target_ip\<rparr>)))))))))))"

definition ARPMessage_serialize :: "arp_message \<Rightarrow> bytes outcome" where
  "ARPMessage_serialize m =
     (if \<not> ARPMessage_supported m
      then Inl (Runtime_error ''ARPMessage::serialize(): unsupported field combination (must be Ethernet/IP, and request or reply)'')
      else
        let ret = NetUnparser_u16 [] (hardware_type m);
            ret = NetUnparser_u16 ret (protocol_type m);
            ret = NetUnparser_u8 ret (hardware_address_size m);
            ret = NetUnparser_u8 ret (protocol_address_size m);
            ret = NetUnparser_u16 ret (opcode m);
            ret = write_address ret (sender_ethernet_address m);
            ret = NetUnparser_u32 ret (sender_ip_address m);
            ret = write_address ret (target_ethernet_address m);
            ret = NetUnparser_u32 ret (target_ip_address m)
        in Inr ret)"

section \<open>The loops over addresses\<close>

lemma write_address_eq [simp]: "write_address ret address = ret @ address"
proof -
  have "foldl NetUnparser_u8 ret address = ret @ address"
    by (induction address arbitrary: ret) (simp_all add: unparse_simps)
  then show ?thesis
    by (simp add: write_address_def)
qed

lemma progress_read_address:
  assumes "progress p bs n"
    and "\<And>x p'. progress p' bs (n + length a) \<Longrightarrow>
      (n + length a \<le> length bs \<Longrightarrow> x = take (length a) (drop n bs)) \<Longrightarrow> Q (x, p')"
  shows "runs (read_address a p) Q"
  using assms
proof (induction a arbitrary: p n Q)
  case Nil
  then show ?case by simp
next
  case (Cons y a)
  show ?case
    unfolding read_address.simps runs_bindE
  proof (rule progress_u8 [OF Cons.prems(1)], simp only: prod.case runs_bindE, rule Cons.IH)
    fix v p' x p''
    assume "progress p' bs (n + 1)"
    then show "progress p' bs (Suc n)"
      by simp
    assume v: "n + 1 \<le> length bs \<Longrightarrow> v = bs ! n" and p'': "progress p'' bs (Suc n + length a)"
      and x: "Suc n + length a \<le> length bs \<Longrightarrow> x = take (length a) (drop (Suc n) bs)"
    have "v # x = take (length (y # a)) (drop n bs)" if "n + length (y # a) \<le> length bs"
    proof -
      have "drop n bs = bs ! n # drop (Suc n) bs"
        using that by (simp add: Cons_nth_drop_Suc)
      then show ?thesis
        using that v x by simp
    qed
    then show "runs (case (x, p'') of (xs, p) \<Rightarrow> Inr (v # xs, p)) Q"
      using Cons.prems(2) [of p'' "v # x"] p'' by simp
  qed
qed

section \<open>What the parsers accept\<close>

definition EthernetHeader_wf :: "ethernet_header \<Rightarrow> bool" where
  "EthernetHeader_wf h \<longleftrightarrow> length (eth_dst h) = 6 \<and> length (eth_src h) = 6"

definition ethernet_header_of :: "bytes \<Rightarrow> ethernet_header" where
  "ethernet_header_of bs = \<lparr>eth_dst = take 6 bs, eth_src = take 6 (drop 6 bs), eth_type = slice 12 2 bs\<rparr>"

lemma NetParser_new_simps [simp]: "NetParser_get_error (NetParser_new b) = NoError" "np_buffer (NetParser_new b) = b"
  by (simp_all add: NetParser_new_def NetParser_get_error_def)

lemma progressD:
  assumes "progress p bs n" "n \<le> length bs"
  shows "NetParser_get_error p = NoError \<and> Buffer_wf (np_buffer p) \<and> Buffer_str (np_buffer p) = drop n bs"
  using assms progress_error(2) progress_buffer by fastforce

lemma runs_if: "(c \<Longrightarrow> runs a Q) \<Longrightarrow> (\<not> c \<Longrightarrow> runs b Q) \<Longrightarrow> runs (if c then a else b) Q"
  by simp

lemma EthernetHeader_parse_runs:
  assumes p: "progress p bs 0" and h: "EthernetHeader_wf h"
  shows "runs (EthernetHeader_parse h p) (\<lambda>(res, h', p').
    if length bs < 14 then res = PacketTooShort \<and> h' = h \<and> p' = p
    else res = NoError \<and> h' = ethernet_header_of bs \<and> progress p' bs 14)"
proof (cases "length bs < 14")
  case True
  then show ?thesis
    using progress_buffer [OF p] by (simp add: EthernetHeader_parse_def EthernetHeader_LENGTH_def word_less_nat_alt)
next
  case False
  then have "\<not> Buffer_size (np_buffer p) < EthernetHeader_LENGTH"
    using progress_buffer [OF p] by (simp add: EthernetHeader_LENGTH_def word_less_nat_alt)
  then show ?thesis
    unfolding EthernetHeader_parse_def
    apply (simp only: if_False runs_bindE)
    apply (rule progress_read_address [OF p], simp only: prod.case runs_bindE)
    apply (erule progress_read_address, simp only: prod.case runs_bindE)
    apply (erule progress_u16)
    using False h by (simp add: EthernetHeader_wf_def ethernet_header_of_def progress_error(2))
qed

lemma EthernetFrame_parse_runs:
  assumes b: "Buffer_wf b" and f: "EthernetHeader_wf (ef_header f)"
  shows "runs (EthernetFrame_parse f b) (\<lambda>(res, f'). res = NoError \<and> list_all Buffer_wf (ef_payload f') \<and>
    length (ef_payload f') = 1 \<and> EthernetHeader_wf (ef_header f') \<and>
    (if length (Buffer_str b) < 14
     then ef_header f' = ef_header f \<and> BufferList_concatenate (ef_payload f') = Buffer_str b
     else ef_header f' = ethernet_header_of (Buffer_str b) \<and>
       BufferList_concatenate (ef_payload f') = drop 14 (Buffer_str b)))"
  unfolding EthernetFrame_parse_def runs_bindE
  by (rule runs_mono [OF EthernetHeader_parse_runs [OF progress_new [OF b] f]])
    (use b f in \<open>auto simp: EthernetHeader_wf_def ethernet_header_of_def split: if_splits dest!: progressD\<close>)

definition ARPMessage_wf :: "arp_message \<Rightarrow> bool" where
  "ARPMessage_wf m \<longleftrightarrow> length (sender_ethernet_address m) = 6 \<and> length (target_ethernet_address m) = 6"

definition arp_message_of :: "bytes \<Rightarrow> arp_message" where
  "arp_message_of bs =
     \<lparr>hardware_type = slice 0 2 bs, protocol_type = slice 2 2 bs, hardware_address_size = bs ! 4,
      protocol_address_size = bs ! 5, opcode = slice 6 2 bs, sender_ethernet_address = take 6 (drop 8 bs),
      sender_ip_address = slice 14 4 bs, target_ethernet_address = take 6 (drop 18 bs),
      target_ip_address = slice 24 4 bs\<rparr>"

lemma ARPMessage_parse_runs:
  assumes b: "Buffer_wf b" and m: "ARPMessage_wf m" and bs: "bs = Buffer_str b"
  shows "runs (ARPMessage_parse m b) (\<lambda>(res, m').
    if length bs < 28 then res = PacketTooShort \<and> m' = m
    else if \<not> ARPMessage_supported (arp_message_of bs) then res = Unsupported
    else res = NoError \<and> m' = arp_message_of bs)"
proof (cases "length bs < 28")
  case True
  then show ?thesis
    using b bs by (simp add: ARPMessage_parse_def ARPMessage_LENGTH_def NetParser_new_def Let_def word_less_nat_alt)
next
  case False
  have p: "progress (NetParser_new b) bs 0"
    using b bs by simp
  have "\<not> Buffer_size (np_buffer (NetParser_new b)) < ARPMessage_LENGTH"
    using False b bs by (simp add: ARPMessage_LENGTH_def NetParser_new_def word_less_nat_alt)
  then show ?thesis
    unfolding ARPMessage_parse_def Let_def
    apply (simp only: if_False runs_bindE)
    apply (rule progress_u16 [OF p], simp only: prod.case runs_bindE)
    apply ((erule progress_u16 progress_u8, simp only: prod.case runs_bindE)+)
    apply (rule runs_if)
     apply (use False m in \<open>simp add: arp_message_of_def ARPMessage_wf_def ARPMessage_supported_def
        del: One_nat_def add_2_eq_Suc add_2_eq_Suc'\<close>)
    apply (simp only: runs_bindE)
    apply ((erule progress_read_address progress_u32, simp only: prod.case runs_bindE)+)
    apply (use False m in \<open>simp add: arp_message_of_def ARPMessage_wf_def ARPMessage_supported_def progress_error(2)
        del: One_nat_def add_2_eq_Suc add_2_eq_Suc'\<close>)
    done
qed

lemma EthernetHeader_serialize_eq:
  "EthernetHeader_serialize h = eth_dst h @ eth_src h @ be_bytes (eth_type h)"
  by (simp add: EthernetHeader_serialize_def unparse_simps)

lemma ethernet_header_of_serialized:
  "EthernetHeader_wf h \<Longrightarrow> ethernet_header_of (EthernetHeader_serialize h @ rest) = h"
  by (simp add: ethernet_header_of_def EthernetHeader_serialize_eq EthernetHeader_wf_def slice_def)

lemma EthernetFrame_serialize_eq:
  "BufferList_concatenate (EthernetFrame_serialize f) =
     EthernetHeader_serialize (ef_header f) @ BufferList_concatenate (ef_payload f)"
  by (simp add: EthernetFrame_serialize_def)

lemma length_EthernetHeader_serialize [simp]:
  "EthernetHeader_wf h \<Longrightarrow> length (EthernetHeader_serialize h) = 14"
  by (simp add: EthernetHeader_serialize_eq EthernetHeader_wf_def)

definition arp_bytes :: "arp_message \<Rightarrow> bytes" where
  "arp_bytes m =
     be_bytes (hardware_type m) @ be_bytes (protocol_type m) @
     [hardware_address_size m, protocol_address_size m] @ be_bytes (opcode m) @
     sender_ethernet_address m @ be_bytes (sender_ip_address m) @
     target_ethernet_address m @ be_bytes (target_ip_address m)"

lemma ARPMessage_serialize_eq:
  "ARPMessage_supported m \<Longrightarrow> ARPMessage_serialize m = Inr (arp_bytes m)"
  by (simp add: ARPMessage_serialize_def arp_bytes_def unparse_simps Let_def)

lemma length_arp_bytes [simp]: "ARPMessage_wf m \<Longrightarrow> length (arp_bytes m) = 28"
  by (simp add: arp_bytes_def ARPMessage_wf_def)

lemma arp_message_of_bytes: "ARPMessage_wf m \<Longrightarrow> arp_message_of (arp_bytes m @ rest) = m"
  by (simp add: arp_message_of_def arp_bytes_def ARPMessage_wf_def slice_def nth_append)

lemma ARPMessage_roundtrip_runs:
  assumes "ARPMessage_wf m" "ARPMessage_wf m0" "ARPMessage_supported m"
    and "Buffer_wf b" "Buffer_str b = arp_bytes m @ rest"
  shows "runs (ARPMessage_parse m0 b) (\<lambda>(res, m'). res = NoError \<and> m' = m)"
  using assms by (intro runs_mono [OF ARPMessage_parse_runs]) (auto simp: arp_message_of_bytes)

text \<open>Frames and messages as wire formats.\<close>

definition same_frame :: "ethernet_frame \<Rightarrow> ethernet_frame \<Rightarrow> bool" where
  "same_frame f f' \<longleftrightarrow> ef_header f' = ef_header f \<and> length (ef_payload f') = 1 \<and> list_all Buffer_wf (ef_payload f') \<and>
     BufferList_concatenate (ef_payload f') = BufferList_concatenate (ef_payload f)"

definition EthernetFrame_wf :: "ethernet_frame \<Rightarrow> bool" where
  "EthernetFrame_wf f \<longleftrightarrow> EthernetHeader_wf (ef_header f) \<and> 14 + length (BufferList_concatenate (ef_payload f)) < 2 ^ 64"

interpretation eth_wire: wire_format "\<lambda>f. Inr (EthernetFrame_serialize f)" "EthernetFrame_parse EthernetFrame_default"
  EthernetFrame_wf same_frame
proof unfold_locales
  fix f
  assume "EthernetFrame_wf f"
  moreover have "EthernetHeader_wf (ef_header EthernetFrame_default)"
    by (simp add: EthernetHeader_wf_def EthernetFrame_default_def EthernetHeader_default_def)
  ultimately show "runs (Inr (EthernetFrame_serialize f)) (\<lambda>bl. fits (BufferList_concatenate bl) \<and>
      (\<forall>b. Buffer_wf b \<longrightarrow> Buffer_str b = BufferList_concatenate bl \<longrightarrow>
        runs (EthernetFrame_parse EthernetFrame_default b) (\<lambda>(res, f'). res = NoError \<and> same_frame f f')))"
    by (auto simp: EthernetFrame_serialize_eq ethernet_header_of_serialized fits_def EthernetFrame_wf_def same_frame_def
        intro!: runs_mono [OF EthernetFrame_parse_runs])
qed

definition ARPMessage_to_BufferList :: "arp_message \<Rightarrow> buffer_list outcome" where
  "ARPMessage_to_BufferList m = bindE (ARPMessage_serialize m) (\<lambda>s. Inr (BufferList_of_string s))"

interpretation arp_wire: wire_format ARPMessage_to_BufferList "ARPMessage_parse ARPMessage_default"
  "\<lambda>m. ARPMessage_wf m \<and> ARPMessage_supported m" "(=)"
proof unfold_locales
  fix m
  assume m: "ARPMessage_wf m \<and> ARPMessage_supported m"
  moreover have "ARPMessage_wf ARPMessage_default"
    by (simp add: ARPMessage_wf_def ARPMessage_default_def)
  ultimately show "runs (ARPMessage_to_BufferList m) (\<lambda>bl. fits (BufferList_concatenate bl) \<and>
      (\<forall>b. Buffer_wf b \<longrightarrow> Buffer_str b = BufferList_concatenate bl \<longrightarrow>
        runs (ARPMessage_parse ARPMessage_default b) (\<lambda>(res, m'). res = NoError \<and> m = m')))"
    by (auto simp: ARPMessage_to_BufferList_def ARPMessage_serialize_eq BufferList_of_string_def fits_def
        intro!: runs_mono [OF ARPMessage_roundtrip_runs [where rest = "[]" and m = m]])
qed

section \<open>Properties\<close>

text \<open>
  Parsing an Ethernet frame undoes serializing it: same header, same payload, no error.
\<close>

theorem EthernetFrame_roundtrip:
  assumes "length (eth_dst (ef_header f)) = 6" "length (eth_src (ef_header f)) = 6"
    and "14 + length (BufferList_concatenate (ef_payload f)) < 2 ^ 64"
  shows "runs (EthernetFrame_parse EthernetFrame_default
      (Buffer_new (BufferList_concatenate (EthernetFrame_serialize f)))) (\<lambda>(res, f').
    res = NoError \<and> ef_header f' = ef_header f \<and>
    BufferList_concatenate (ef_payload f') = BufferList_concatenate (ef_payload f))"
  using eth_wire.on_the_wire [of f] assms
  by (auto simp: EthernetFrame_wf_def EthernetHeader_wf_def same_frame_def elim!: runs_mono)

theorem EthernetFrame_roundtrip_witness:
  "runs (EthernetFrame_parse EthernetFrame_default (Buffer_new (BufferList_concatenate (EthernetFrame_serialize
      \<lparr>ef_header = \<lparr>eth_dst = ETHERNET_BROADCAST, eth_src = [1, 2, 3, 4, 5, 6], eth_type = 0x806\<rparr>,
       ef_payload = [Buffer_new [7], Buffer_new [8]]\<rparr>)))) (\<lambda>(res, f').
    res = NoError \<and> eth_type (ef_header f') = 0x806 \<and> BufferList_concatenate (ef_payload f') = [7, 8])"
  by (rule runs_mono [OF EthernetFrame_roundtrip]) (auto simp: ETHERNET_BROADCAST_def)

text \<open>
  Parsing an ARP message undoes serializing it, also when the frame pads it; and messages
  other than requests and replies between Ethernet and IPv4 addresses are refused on both
  sides, with an exception by the serializer and with \<^verbatim>\<open>Unsupported\<close> by the parser.
\<close>

theorem ARPMessage_roundtrip:
  assumes "length (sender_ethernet_address m) = 6" "length (target_ethernet_address m) = 6"
    and "length padding < 2 ^ 32"
  shows "(if ARPMessage_supported m
     then runs (ARPMessage_serialize m) (\<lambda>s.
       runs (ARPMessage_parse ARPMessage_default (Buffer_new (s @ padding))) (\<lambda>(res, m'). res = NoError \<and> m' = m))
     else \<not> returns (ARPMessage_serialize m) \<and>
       runs (ARPMessage_parse ARPMessage_default (Buffer_new (arp_bytes m @ padding))) (\<lambda>(res, m'). res = Unsupported))"
proof -
  have wf: "ARPMessage_wf m" "ARPMessage_wf ARPMessage_default"
    using assms by (simp_all add: ARPMessage_wf_def ARPMessage_default_def)
  then have fits: "Buffer_wf (Buffer_new (arp_bytes m @ padding))"
    using assms(3) by (simp add: fits_def)
  show ?thesis
  proof (cases "ARPMessage_supported m")
    case True
    then show ?thesis
      using ARPMessage_roundtrip_runs [OF wf True fits] by (simp add: ARPMessage_serialize_eq)
  next
    case False
    then show ?thesis
      using wf arp_message_of_bytes [OF wf(1)]
      by (auto simp: ARPMessage_serialize_def intro!: runs_mono [OF ARPMessage_parse_runs [OF fits wf(2)]])
  qed
qed

theorem ARPMessage_roundtrip_witness:
  "runs (ARPMessage_serialize (ARPMessage_default\<lparr>opcode := 1, target_ip_address := 0x0a000001\<rparr>)) (\<lambda>s.
     runs (ARPMessage_parse ARPMessage_default (Buffer_new (s @ [0, 0]))) (\<lambda>(res, m').
       res = NoError \<and> target_ip_address m' = 0x0a000001))"
  using ARPMessage_roundtrip [of "ARPMessage_default\<lparr>opcode := 1, target_ip_address := 0x0a000001\<rparr>" "[0, 0]"]
  by (simp add: ARPMessage_default_def ARPMessage_supported_def ARPMessage_OPCODE_REQUEST_def)
    (auto elim!: runs_mono)

text \<open>
  \<^verbatim>\<open>EthernetFrame::parse\<close> never reports an error.  Fewer than 14 bytes, for which the header
  parser answers \<^verbatim>\<open>PacketTooShort\<close>, are accepted with \<^verbatim>\<open>NoError\<close>, the header the frame had before
  and all the bytes as payload.
\<close>

theorem EthernetFrame_accepts_short:
  assumes "Buffer_wf b" "length (eth_dst (ef_header f)) = 6" "length (eth_src (ef_header f)) = 6"
  shows "runs (EthernetFrame_parse f b) (\<lambda>(res, f'). res = NoError \<and>
    (length (Buffer_str b) < 14 \<longrightarrow>
       ef_header f' = ef_header f \<and> BufferList_concatenate (ef_payload f') = Buffer_str b)) \<and>
    (length (Buffer_str b) < 14 \<longrightarrow>
       runs (EthernetHeader_parse (ef_header f) (NetParser_new b)) (\<lambda>(res, _). res = PacketTooShort))"
proof -
  have wf: "EthernetHeader_wf (ef_header f)"
    using assms by (simp add: EthernetHeader_wf_def)
  have "runs (EthernetFrame_parse f b) (\<lambda>(res, f'). res = NoError \<and>
    (length (Buffer_str b) < 14 \<longrightarrow>
       ef_header f' = ef_header f \<and> BufferList_concatenate (ef_payload f') = Buffer_str b))"
    by (rule runs_mono [OF EthernetFrame_parse_runs [OF assms(1) wf]]) auto
  moreover have "runs (EthernetHeader_parse (ef_header f) (NetParser_new b)) (\<lambda>(res, _). res = PacketTooShort)"
    if "length (Buffer_str b) < 14"
    by (rule runs_mono [OF EthernetHeader_parse_runs [OF progress_new [OF assms(1)] wf]]) (use that in auto)
  ultimately show ?thesis
    by blast
qed

theorem EthernetFrame_accepts_short_witness:
  "runs (EthernetFrame_parse EthernetFrame_default (Buffer_new [1, 2])) (\<lambda>(res, f').
     res = NoError \<and> BufferList_concatenate (ef_payload f') = [1, 2])"
  using EthernetFrame_accepts_short [of "Buffer_new [1, 2]" EthernetFrame_default]
  by (simp add: EthernetFrame_default_def EthernetHeader_default_def fits_def) (auto elim!: runs_mono)

end
