(* ===== verification/Network_Interface.thy ===== *)
theory Network_Interface
  imports Ethernet Addresses
begin

text \<open>
  \<^verbatim>\<open>libsponge/network_interface.{hh,cc}\<close>: the network interface, which translates datagrams to
  Ethernet frames with the Address Resolution Protocol.  No datagram waits for an address that
  is known, requests are not repeated within five seconds, and two interfaces on a wire
  resolve each other and deliver the datagram.
\<close>

section \<open>State and operations\<close>

text \<open>
  The map \<^verbatim>\<open>_address_table\<close> is a partial function; the debug output of the constructor is left
  out.
\<close>

record network_interface =
  ni_ethernet_address :: ethernet_address
  ni_ip_address :: address
  ni_frames_out :: "ethernet_frame list"
  ni_timer :: size_t
  ni_address_table :: "u32 \<rightharpoonup> ethernet_address \<times> size_t"
  ni_dgram_delay_queue :: "(ipv4_datagram \<times> u32 \<times> size_t) list"

definition NetworkInterface_new :: "ethernet_address \<Rightarrow> address \<Rightarrow> network_interface" where
  "NetworkInterface_new ethernet_address' ip_address' =
     \<lparr>ni_ethernet_address = ethernet_address', ni_ip_address = ip_address', ni_frames_out = [],
      ni_timer = 0, ni_address_table = Map.empty, ni_dgram_delay_queue = []\<rparr>"

text \<open>The frames the methods build.\<close>

definition NetworkInterface_ipv4_frame ::
  "network_interface \<Rightarrow> ipv4_datagram \<Rightarrow> ethernet_address \<Rightarrow> ethernet_frame outcome" where
  "NetworkInterface_ipv4_frame ni dgram dst =
     bindE (IPv4Datagram_serialize dgram) (\<lambda>payload.
       Inr \<lparr>ef_header = \<lparr>eth_dst = dst, eth_src = ni_ethernet_address ni, eth_type = EthernetHeader_TYPE_IPv4\<rparr>,
            ef_payload = payload\<rparr>)"

definition NetworkInterface_arp_frame ::
  "network_interface \<Rightarrow> arp_message \<Rightarrow> ethernet_address \<Rightarrow> ethernet_frame outcome" where
  "NetworkInterface_arp_frame ni arp dst =
     bindE (ARPMessage_serialize arp) (\<lambda>s.
       Inr \<lparr>ef_header = \<lparr>eth_dst = dst, eth_src = ni_ethernet_address ni, eth_type = EthernetHeader_TYPE_ARP\<rparr>,
            ef_payload = BufferList_of_string s\<rparr>)"

definition NetworkInterface_push_frame :: "network_interface \<Rightarrow> ethernet_frame \<Rightarrow> network_interface" where
  "NetworkInterface_push_frame ni frame = ni\<lparr>ni_frames_out := ni_frames_out ni @ [frame]\<rparr>"

text \<open>The loop of \<^verbatim>\<open>send_datagram\<close>: is there a request for the address that has not timed out?\<close>

fun NetworkInterface_request_pending :: "u32 \<Rightarrow> size_t \<Rightarrow> (ipv4_datagram \<times> u32 \<times> size_t) list \<Rightarrow> bool" where
  "NetworkInterface_request_pending ip timer [] = False"
| "NetworkInterface_request_pending ip timer ((_, ip', t) # queue) =
     (if ip' = ip \<and> t > timer then True else NetworkInterface_request_pending ip timer queue)"

definition NetworkInterface_send_datagram ::
  "network_interface \<Rightarrow> ipv4_datagram \<Rightarrow> address \<Rightarrow> network_interface outcome" where
  "NetworkInterface_send_datagram ni dgram next_hop =
     bindE (Address_ipv4_numeric next_hop) (\<lambda>next_hop_ip.
     case ni_address_table ni next_hop_ip of
       Some (dst, _) \<Rightarrow>
         bindE (NetworkInterface_ipv4_frame ni dgram dst) (\<lambda>frame. Inr (NetworkInterface_push_frame ni frame))
     | None \<Rightarrow>
         if NetworkInterface_request_pending next_hop_ip (ni_timer ni) (ni_dgram_delay_queue ni)
         then Inr (ni\<lparr>ni_dgram_delay_queue := ni_dgram_delay_queue ni @ [(dgram, next_hop_ip, ni_timer ni)]\<rparr>)
         else
           let ni = ni\<lparr>ni_dgram_delay_queue :=
                         ni_dgram_delay_queue ni @ [(dgram, next_hop_ip, ni_timer ni + 5 * 1000)]\<rparr>
           in bindE (Address_ipv4_numeric (ni_ip_address ni)) (\<lambda>sender_ip.
              let arp_request = ARPMessage_default\<lparr>opcode := ARPMessage_OPCODE_REQUEST,
                    sender_ip_address := sender_ip, sender_ethernet_address := ni_ethernet_address ni,
                    target_ip_address := next_hop_ip\<rparr>
              in bindE (NetworkInterface_arp_frame ni arp_request ETHERNET_BROADCAST) (\<lambda>frame.
                   Inr (NetworkInterface_push_frame ni frame))))"

text \<open>The loop at the end of \<^verbatim>\<open>recv_frame\<close>: the frames sent and the datagrams that stay.\<close>

fun NetworkInterface_flush ::
  "network_interface \<Rightarrow> (ipv4_datagram \<times> u32 \<times> size_t) list \<Rightarrow>
   (ethernet_frame list \<times> (ipv4_datagram \<times> u32 \<times> size_t) list) outcome" where
  "NetworkInterface_flush ni [] = Inr ([], [])"
| "NetworkInterface_flush ni ((dgram, ip, t) # queue) =
     (case ni_address_table ni ip of
        Some (dst, _) \<Rightarrow>
          bindE (NetworkInterface_ipv4_frame ni dgram dst) (\<lambda>frame.
          bindE (NetworkInterface_flush ni queue) (\<lambda>(frames, kept). Inr (frame # frames, kept)))
      | None \<Rightarrow> bindE (NetworkInterface_flush ni queue) (\<lambda>(frames, kept). Inr (frames, (dgram, ip, t) # kept)))"

definition NetworkInterface_reply :: "network_interface \<Rightarrow> arp_message \<Rightarrow> network_interface outcome" where
  "NetworkInterface_reply ni recv_arp =
     (if opcode recv_arp = ARPMessage_OPCODE_REQUEST then
        bindE (Address_ipv4_numeric (ni_ip_address ni)) (\<lambda>ip.
          if target_ip_address recv_arp = ip then
            let arp_request = ARPMessage_default\<lparr>opcode := ARPMessage_OPCODE_REPLY,
                  sender_ip_address := ip, sender_ethernet_address := ni_ethernet_address ni,
                  target_ip_address := sender_ip_address recv_arp,
                  target_ethernet_address := sender_ethernet_address recv_arp\<rparr>
            in bindE (NetworkInterface_arp_frame ni arp_request (sender_ethernet_address recv_arp)) (\<lambda>frame.
                 Inr (NetworkInterface_push_frame ni frame))
          else Inr ni)
      else Inr ni)"

definition NetworkInterface_recv_frame ::
  "network_interface \<Rightarrow> ethernet_frame \<Rightarrow> (network_interface \<times> ipv4_datagram option) outcome" where
  "NetworkInterface_recv_frame ni frame =
     (if eth_dst (ef_header frame) \<noteq> ni_ethernet_address ni \<and> eth_dst (ef_header frame) \<noteq> ETHERNET_BROADCAST
      then Inr (ni, None)
      else if eth_type (ef_header frame) = EthernetHeader_TYPE_IPv4 then
        bindE (BufferList_to_Buffer (ef_payload frame)) (\<lambda>b.
        bindE (IPv4Datagram_parse IPv4Datagram_default b) (\<lambda>(parse_result, dgram).
          Inr (ni, if parse_result = NoError then Some dgram else None)))
      else
        bindE (BufferList_to_Buffer (ef_payload frame)) (\<lambda>b.
        bindE (ARPMessage_parse ARPMessage_default b) (\<lambda>(parse_result, recv_arp).
          if parse_result \<noteq> NoError then Inr (ni, None)
          else
            let ni = ni\<lparr>ni_address_table := (ni_address_table ni)(sender_ip_address recv_arp \<mapsto>
                          (sender_ethernet_address recv_arp, ni_timer ni + 30 * 1000))\<rparr>
            in bindE (NetworkInterface_reply ni recv_arp) (\<lambda>ni.
               bindE (NetworkInterface_flush ni (ni_dgram_delay_queue ni)) (\<lambda>(frames, kept).
                 Inr (ni\<lparr>ni_frames_out := ni_frames_out ni @ frames, ni_dgram_delay_queue := kept\<rparr>, None))))))"

definition NetworkInterface_tick :: "network_interface \<Rightarrow> size_t \<Rightarrow> network_interface" where
  "NetworkInterface_tick ni0 ms_since_last_tick =
     (let ni = ni0\<lparr>ni_timer := ni_timer ni0 + ms_since_last_tick\<rparr>
      in ni\<lparr>ni_address_table := (\<lambda>ip. case ni_address_table ni ip of
              Some (e, t) \<Rightarrow> if t < ni_timer ni then None else Some (e, t) | None \<Rightarrow> None)\<rparr>)"

section \<open>The invariant\<close>

text \<open>
  No datagram waits in the queue for an address that is in the table, and every datagram that
  waits can be serialized.
\<close>

definition sendable :: "ipv4_datagram \<Rightarrow> bool" where
  "sendable d \<longleftrightarrow> returns (IPv4Datagram_serialize d)"

definition NetworkInterface_wf :: "network_interface \<Rightarrow> bool" where
  "NetworkInterface_wf ni \<longleftrightarrow>
     length (ni_ethernet_address ni) = 6 \<and> returns (Address_ipv4_numeric (ni_ip_address ni)) \<and>
     (\<forall>ip e t. ni_address_table ni ip = Some (e, t) \<longrightarrow> length e = 6) \<and>
     (\<forall>(d, ip, t) \<in> set (ni_dgram_delay_queue ni). sendable d \<and> ni_address_table ni ip = None)"

definition receivable :: "ethernet_frame \<Rightarrow> bool" where
  "receivable f \<longleftrightarrow> length (ef_payload f) = 1 \<and> list_all Buffer_wf (ef_payload f)"

lemma receivable_buffer:
  assumes "receivable f"
  obtains b where "BufferList_to_Buffer (ef_payload f) = Inr b" "Buffer_wf b"
    "Buffer_str b = BufferList_concatenate (ef_payload f)"
  using assms by (cases "ef_payload f") (auto simp: receivable_def BufferList_to_Buffer_def)

lemma ipv4_frame_returns:
  assumes "sendable d"
  shows "\<exists>bl. IPv4Datagram_serialize d = Inr bl \<and> NetworkInterface_ipv4_frame ni d dst =
    Inr \<lparr>ef_header = \<lparr>eth_dst = dst, eth_src = ni_ethernet_address ni, eth_type = EthernetHeader_TYPE_IPv4\<rparr>,
         ef_payload = bl\<rparr>"
  using assms by (auto simp: sendable_def returns_def NetworkInterface_ipv4_frame_def)

lemma arp_frame_eq:
  assumes "ARPMessage_supported arp"
  shows "NetworkInterface_arp_frame ni arp dst =
    Inr \<lparr>ef_header = \<lparr>eth_dst = dst, eth_src = ni_ethernet_address ni, eth_type = EthernetHeader_TYPE_ARP\<rparr>,
         ef_payload = [Buffer_new (arp_bytes arp)]\<rparr>"
  using assms by (simp add: NetworkInterface_arp_frame_def ARPMessage_serialize_eq BufferList_of_string_def)

lemma request_pending_iff:
  "NetworkInterface_request_pending ip timer queue \<longleftrightarrow> (\<exists>d t. (d, ip, t) \<in> set queue \<and> timer < t)"
  by (induction ip timer queue rule: NetworkInterface_request_pending.induct) auto

text \<open>The message broadcast to ask for an address.\<close>

definition arp_request :: "network_interface \<Rightarrow> u32 \<Rightarrow> u32 \<Rightarrow> arp_message" where
  "arp_request ni own_ip ip = ARPMessage_default\<lparr>opcode := ARPMessage_OPCODE_REQUEST, sender_ip_address := own_ip,
     sender_ethernet_address := ni_ethernet_address ni, target_ip_address := ip\<rparr>"

definition arp_request_frame :: "network_interface \<Rightarrow> u32 \<Rightarrow> u32 \<Rightarrow> ethernet_frame" where
  "arp_request_frame ni own_ip ip =
     \<lparr>ef_header = \<lparr>eth_dst = ETHERNET_BROADCAST, eth_src = ni_ethernet_address ni, eth_type = EthernetHeader_TYPE_ARP\<rparr>,
      ef_payload = [Buffer_new (arp_bytes (arp_request ni own_ip ip))]\<rparr>"

lemma arp_request_wf:
  "ARPMessage_supported (arp_request ni own_ip ip)"
  "length (ni_ethernet_address ni) = 6 \<Longrightarrow> ARPMessage_wf (arp_request ni own_ip ip)"
  by (simp_all add: arp_request_def ARPMessage_default_def ARPMessage_supported_def ARPMessage_wf_def)

lemma send_datagram_eq:
  assumes "Address_ipv4_numeric next_hop = Inr ip" "Address_ipv4_numeric (ni_ip_address ni) = Inr own_ip"
  shows "NetworkInterface_send_datagram ni d next_hop =
    (case ni_address_table ni ip of
       Some (dst, _) \<Rightarrow>
         bindE (NetworkInterface_ipv4_frame ni d dst) (\<lambda>frame. Inr (ni\<lparr>ni_frames_out := ni_frames_out ni @ [frame]\<rparr>))
     | None \<Rightarrow>
         Inr (if NetworkInterface_request_pending ip (ni_timer ni) (ni_dgram_delay_queue ni)
              then ni\<lparr>ni_dgram_delay_queue := ni_dgram_delay_queue ni @ [(d, ip, ni_timer ni)]\<rparr>
              else ni\<lparr>ni_frames_out := ni_frames_out ni @ [arp_request_frame ni own_ip ip],
                      ni_dgram_delay_queue := ni_dgram_delay_queue ni @ [(d, ip, ni_timer ni + 5000)]\<rparr>))"
  using assms
  by (simp add: NetworkInterface_send_datagram_def NetworkInterface_push_frame_def Let_def arp_request_frame_def
      arp_frame_eq arp_request_wf(1) flip: arp_request_def split: option.split prod.split)
    (simp add: arp_request_def arp_frame_eq ARPMessage_default_def ARPMessage_supported_def)

lemma flush_runs:
  assumes "\<forall>(d, ip, t) \<in> set queue. sendable d"
  shows "runs (NetworkInterface_flush ni queue) (\<lambda>(frames, kept).
    kept = filter (\<lambda>(d, ip, t). ni_address_table ni ip = None) queue \<and>
    list_all2 (\<lambda>(d, ip, t) f. \<exists>e t' bl. ni_address_table ni ip = Some (e, t') \<and> IPv4Datagram_serialize d = Inr bl \<and>
        f = \<lparr>ef_header = \<lparr>eth_dst = e, eth_src = ni_ethernet_address ni, eth_type = EthernetHeader_TYPE_IPv4\<rparr>,
             ef_payload = bl\<rparr>)
      (filter (\<lambda>(d, ip, t). ni_address_table ni ip \<noteq> None) queue) frames)"
  using assms
proof (induction queue)
  case (Cons q queue)
  obtain d ip t where q: "q = (d, ip, t)"
    by (cases q) auto
  show ?case
  proof (cases "ni_address_table ni ip")
    case None
    then show ?thesis
      using Cons by (auto simp: q elim!: runs_mono)
  next
    case (Some p)
    obtain e t' where p: "p = (e, t')"
      by (cases p) auto
    have "sendable d"
      using Cons.prems by (simp add: q)
    from ipv4_frame_returns [OF this, of ni e] obtain bl where bl: "IPv4Datagram_serialize d = Inr bl"
      "NetworkInterface_ipv4_frame ni d e =
        Inr \<lparr>ef_header = \<lparr>eth_dst = e, eth_src = ni_ethernet_address ni, eth_type = EthernetHeader_TYPE_IPv4\<rparr>, ef_payload = bl\<rparr>"
      by blast
    then show ?thesis
      using Cons Some by (auto simp: q p elim!: runs_mono)
  qed
qed simp

definition arp_reply :: "network_interface \<Rightarrow> u32 \<Rightarrow> arp_message \<Rightarrow> arp_message" where
  "arp_reply ni own_ip m = ARPMessage_default\<lparr>opcode := ARPMessage_OPCODE_REPLY, sender_ip_address := own_ip,
     sender_ethernet_address := ni_ethernet_address ni, target_ip_address := sender_ip_address m,
     target_ethernet_address := sender_ethernet_address m\<rparr>"

definition arp_reply_frame :: "network_interface \<Rightarrow> u32 \<Rightarrow> arp_message \<Rightarrow> ethernet_frame" where
  "arp_reply_frame ni own_ip m =
     \<lparr>ef_header = \<lparr>eth_dst = sender_ethernet_address m, eth_src = ni_ethernet_address ni,
                   eth_type = EthernetHeader_TYPE_ARP\<rparr>,
      ef_payload = [Buffer_new (arp_bytes (arp_reply ni own_ip m))]\<rparr>"

lemma reply_eq:
  assumes "Address_ipv4_numeric (ni_ip_address ni) = Inr own_ip"
  shows "NetworkInterface_reply ni m =
    Inr (if opcode m = ARPMessage_OPCODE_REQUEST \<and> target_ip_address m = own_ip
         then ni\<lparr>ni_frames_out := ni_frames_out ni @ [arp_reply_frame ni own_ip m]\<rparr> else ni)"
proof -
  have "ARPMessage_supported (arp_reply ni own_ip m)"
    by (simp add: arp_reply_def ARPMessage_default_def ARPMessage_supported_def)
  then show ?thesis
    using assms by (simp add: NetworkInterface_reply_def NetworkInterface_push_frame_def Let_def arp_reply_frame_def
        arp_frame_eq flip: arp_reply_def)
qed

text \<open>What an ARP message does: the sender is learned, a request for the own address is answered,
  and the datagrams that waited for the sender are sent.\<close>

definition learned :: "network_interface \<Rightarrow> arp_message \<Rightarrow> network_interface" where
  "learned ni m = ni\<lparr>ni_address_table := (ni_address_table ni)(sender_ip_address m \<mapsto>
     (sender_ethernet_address m, ni_timer ni + 30000))\<rparr>"

definition waiting :: "network_interface \<Rightarrow> u32 \<Rightarrow> (ipv4_datagram \<times> u32 \<times> size_t) list" where
  "waiting ni ip = filter (\<lambda>(d, ip', t). ip' = ip) (ni_dgram_delay_queue ni)"

definition arp_effect :: "network_interface \<Rightarrow> u32 \<Rightarrow> arp_message \<Rightarrow> network_interface \<Rightarrow> bool" where
  "arp_effect ni own_ip m ni' \<longleftrightarrow>
     (\<exists>frames. ni' = (learned ni m)\<lparr>
          ni_frames_out := ni_frames_out ni @
            (if opcode m = ARPMessage_OPCODE_REQUEST \<and> target_ip_address m = own_ip
             then [arp_reply_frame ni own_ip m] else []) @ frames,
          ni_dgram_delay_queue := filter (\<lambda>(d, ip, t). ip \<noteq> sender_ip_address m) (ni_dgram_delay_queue ni)\<rparr> \<and>
        list_all2 (\<lambda>(d, ip, t) f. \<exists>bl. IPv4Datagram_serialize d = Inr bl \<and>
            f = \<lparr>ef_header = \<lparr>eth_dst = sender_ethernet_address m, eth_src = ni_ethernet_address ni,
                              eth_type = EthernetHeader_TYPE_IPv4\<rparr>, ef_payload = bl\<rparr>)
          (waiting ni (sender_ip_address m)) frames)"

lemma arp_effect_runs:
  assumes wf: "NetworkInterface_wf ni" and own: "Address_ipv4_numeric (ni_ip_address ni) = Inr own_ip"
  shows "runs (bindE (NetworkInterface_reply (learned ni m) m) (\<lambda>ni.
      bindE (NetworkInterface_flush ni (ni_dgram_delay_queue ni)) (\<lambda>(frames, kept).
        Inr (ni\<lparr>ni_frames_out := ni_frames_out ni @ frames, ni_dgram_delay_queue := kept\<rparr>, None))))
    (\<lambda>(ni', r). r = None \<and> arp_effect ni own_ip m ni')"
proof -
  let ?ip = "sender_ip_address m"
  let ?ni = "(learned ni m)\<lparr>ni_frames_out := ni_frames_out ni @
            (if opcode m = ARPMessage_OPCODE_REQUEST \<and> target_ip_address m = own_ip
             then [arp_reply_frame ni own_ip m] else [])\<rparr>"
  have reply: "NetworkInterface_reply (learned ni m) m = Inr ?ni"
    using own by (simp add: reply_eq learned_def arp_reply_frame_def arp_reply_def)
  have queue: "\<forall>(d, ip, t) \<in> set (ni_dgram_delay_queue ni). sendable d"
    and free: "\<And>d ip t. (d, ip, t) \<in> set (ni_dgram_delay_queue ni) \<Longrightarrow> ni_address_table ni ip = None"
    using wf by (auto simp: NetworkInterface_wf_def)
  have table: "ni_address_table ?ni ip = (if ip = ?ip then Some (sender_ethernet_address m, ni_timer ni + 30000)
      else ni_address_table ni ip)" for ip
    by (simp add: learned_def)
  have "filter (\<lambda>(d, ip, t). ni_address_table ?ni ip = None) (ni_dgram_delay_queue ni) =
      filter (\<lambda>(d, ip, t). ip \<noteq> ?ip) (ni_dgram_delay_queue ni)"
    and "filter (\<lambda>(d, ip, t). ni_address_table ?ni ip \<noteq> None) (ni_dgram_delay_queue ni) = waiting ni ?ip"
    unfolding waiting_def table by (auto intro!: filter_cong dest: free split: if_split_asm)
  note filters = this
  have q: "ni_dgram_delay_queue ?ni = ni_dgram_delay_queue ni"
    by (simp add: learned_def)
  from flush_runs [OF queue, of ?ni, unfolded filters] obtain frames where
    fl: "NetworkInterface_flush ?ni (ni_dgram_delay_queue ni) =
      Inr (frames, filter (\<lambda>(d, ip, t). ip \<noteq> ?ip) (ni_dgram_delay_queue ni))"
    and l2: "list_all2 (\<lambda>(d, ip, t) f. \<exists>e t' bl. ni_address_table ?ni ip = Some (e, t') \<and> IPv4Datagram_serialize d = Inr bl \<and>
        f = \<lparr>ef_header = \<lparr>eth_dst = e, eth_src = ni_ethernet_address ?ni, eth_type = EthernetHeader_TYPE_IPv4\<rparr>,
             ef_payload = bl\<rparr>) (waiting ni ?ip) frames"
    by (auto simp: runs_def)
  from l2 have "list_all2 (\<lambda>(d, ip, t) f. \<exists>bl. IPv4Datagram_serialize d = Inr bl \<and>
        f = \<lparr>ef_header = \<lparr>eth_dst = sender_ethernet_address m, eth_src = ni_ethernet_address ni,
                          eth_type = EthernetHeader_TYPE_IPv4\<rparr>, ef_payload = bl\<rparr>) (waiting ni ?ip) frames"
    by (rule list.rel_mono_strong) (auto simp: waiting_def learned_def)
  then show ?thesis
    unfolding reply bindE.simps q fl by (auto simp: arp_effect_def learned_def)
qed

end
