(* ===== verification/Adapters.thy ===== *)
theory Adapters
  imports Network_Interface
begin

text \<open>
  \<^verbatim>\<open>libsponge/tcp_helpers/{fd_adapter,lossy_fd_adapter,tcp_over_ip,tuntap_adapter}\<close>: the adapters
  between TCP segments and datagrams.  What a device delivers is an argument of \<^verbatim>\<open>read\<close>, what is
  sent is part of the result of \<^verbatim>\<open>write\<close>; the resolver functions of the C library are arguments.  A
  segment written by one adapter is read by its peer.
\<close>

section \<open>Configuration\<close>

record fd_adapter_config =
  ac_source :: address
  ac_destination :: address
  ac_loss_rate_dn :: u16
  ac_loss_rate_up :: u16

definition FdAdapterConfig_new :: "resolver \<Rightarrow> fd_adapter_config outcome" where
  "FdAdapterConfig_new getaddrinfo =
     bindE (Address_of_ip getaddrinfo ''0'' 0) (\<lambda>source.
     bindE (Address_of_ip getaddrinfo ''0'' 0) (\<lambda>destination.
       Inr \<lparr>ac_source = source, ac_destination = destination, ac_loss_rate_dn = 0, ac_loss_rate_up = 0\<rparr>))"

text \<open>\<^verbatim>\<open>FdAdapterBase\<close>; its \<^verbatim>\<open>tick\<close> does nothing.\<close>

record fd_adapter =
  fa_cfg :: fd_adapter_config
  fa_listen :: bool

definition FdAdapterBase_set_listening :: "fd_adapter \<Rightarrow> bool \<Rightarrow> fd_adapter" where
  "FdAdapterBase_set_listening a l = a\<lparr>fa_listen := l\<rparr>"

definition FdAdapterBase_tick :: "fd_adapter \<Rightarrow> size_t \<Rightarrow> fd_adapter" where
  "FdAdapterBase_tick a ms = a"

section \<open>TCPOverIPv4Adapter\<close>

text \<open>\<^verbatim>\<open>inet_ntoa\<close>, of an address in host byte order.\<close>

definition inet_ntoa :: "u32 \<Rightarrow> string" where
  "inet_ntoa ip = decimal (unat (drop_bit 24 ip)) @ ''.'' @ decimal (unat (take_bit 8 (drop_bit 16 ip))) @ ''.'' @
     decimal (unat (take_bit 8 (drop_bit 8 ip))) @ ''.'' @ decimal (unat (take_bit 8 ip))"

text \<open>The last test of \<^verbatim>\<open>unwrap_tcp_in_ip\<close>: is the segment from the peer?\<close>

definition TCPOverIPv4Adapter_from_peer ::
  "name_lookup \<Rightarrow> fd_adapter \<Rightarrow> tcp_segment \<Rightarrow> (fd_adapter \<times> tcp_segment option) outcome" where
  "TCPOverIPv4Adapter_from_peer getnameinfo a tcp_seg =
     bindE (Address_port getnameinfo (ac_destination (fa_cfg a))) (\<lambda>port.
       if sport (seg_header tcp_seg) \<noteq> port then Inr (a, None) else Inr (a, Some tcp_seg))"

definition TCPOverIPv4Adapter_accept ::
  "resolver \<Rightarrow> name_lookup \<Rightarrow> fd_adapter \<Rightarrow> ipv4_header \<Rightarrow> tcp_segment \<Rightarrow> (fd_adapter \<times> tcp_segment option) outcome" where
  "TCPOverIPv4Adapter_accept getaddrinfo getnameinfo a h tcp_seg =
     (if fa_listen a then
        if syn (seg_header tcp_seg) \<and> \<not> rst (seg_header tcp_seg) then
          bindE (Address_port getnameinfo (ac_source (fa_cfg a))) (\<lambda>port.
          bindE (Address_of_ip getaddrinfo (inet_ntoa (ip_dst h)) port) (\<lambda>source.
          bindE (Address_of_ip getaddrinfo (inet_ntoa (ip_src h)) (sport (seg_header tcp_seg))) (\<lambda>destination.
            let a = a\<lparr>fa_cfg := (fa_cfg a)\<lparr>ac_source := source, ac_destination := destination\<rparr>\<rparr>
            in TCPOverIPv4Adapter_from_peer getnameinfo (FdAdapterBase_set_listening a False) tcp_seg)))
        else Inr (a, None)
      else TCPOverIPv4Adapter_from_peer getnameinfo a tcp_seg)"

definition TCPOverIPv4Adapter_unwrap_tcp_in_ip ::
  "resolver \<Rightarrow> name_lookup \<Rightarrow> fd_adapter \<Rightarrow> ipv4_datagram \<Rightarrow> (fd_adapter \<times> tcp_segment option) outcome" where
  "TCPOverIPv4Adapter_unwrap_tcp_in_ip getaddrinfo getnameinfo a ip_dgram =
     bindE (if fa_listen a then Inr True
            else bindE (Address_ipv4_numeric (ac_source (fa_cfg a))) (\<lambda>ip. Inr (ip_dst (dg_header ip_dgram) = ip)))
       (\<lambda>for_us. if \<not> for_us then Inr (a, None) else
     bindE (if fa_listen a then Inr True
            else bindE (Address_ipv4_numeric (ac_destination (fa_cfg a))) (\<lambda>ip. Inr (ip_src (dg_header ip_dgram) = ip)))
       (\<lambda>from_peer. if \<not> from_peer then Inr (a, None) else
     if ip_proto (dg_header ip_dgram) \<noteq> IPv4Header_PROTO_TCP then Inr (a, None) else
     bindE (BufferList_to_Buffer (dg_payload ip_dgram)) (\<lambda>b.
     bindE (TCPSegment_parse TCPSegment_default b (IPv4Header_pseudo_cksum (dg_header ip_dgram))) (\<lambda>(res, tcp_seg).
     if res \<noteq> NoError then Inr (a, None) else
     bindE (Address_port getnameinfo (ac_source (fa_cfg a))) (\<lambda>port.
     if dport (seg_header tcp_seg) \<noteq> port then Inr (a, None)
     else TCPOverIPv4Adapter_accept getaddrinfo getnameinfo a (dg_header ip_dgram) tcp_seg)))))"

text \<open>\<^verbatim>\<open>wrap_tcp_in_ip\<close> sets the ports in the segment of the caller, which is returned too.\<close>

definition TCPOverIPv4Adapter_wrap_tcp_in_ip ::
  "name_lookup \<Rightarrow> fd_adapter \<Rightarrow> tcp_segment \<Rightarrow> (tcp_segment \<times> ipv4_datagram) outcome" where
  "TCPOverIPv4Adapter_wrap_tcp_in_ip getnameinfo a seg =
     bindE (Address_port getnameinfo (ac_source (fa_cfg a))) (\<lambda>source_port.
     bindE (Address_port getnameinfo (ac_destination (fa_cfg a))) (\<lambda>destination_port.
     let seg = seg\<lparr>seg_header := (seg_header seg)\<lparr>sport := source_port, dport := destination_port\<rparr>\<rparr>
     in bindE (Address_ipv4_numeric (ac_source (fa_cfg a))) (\<lambda>src.
        bindE (Address_ipv4_numeric (ac_destination (fa_cfg a))) (\<lambda>dst.
        let h = IPv4Header_default\<lparr>ip_src := src, ip_dst := dst\<rparr>;
            h = h\<lparr>ip_len := ucast (ucast (ip_hlen h) * 4 + ucast (doff (seg_header seg)) * 4 +
                                   Buffer_size (seg_payload seg) :: size_t)\<rparr>
        in bindE (TCPSegment_serialize seg (IPv4Header_pseudo_cksum h)) (\<lambda>payload.
             Inr (seg, \<lparr>dg_header = h, dg_payload = payload\<rparr>))))))"

section \<open>Adapters on devices\<close>

text \<open>\<^verbatim>\<open>TCPOverUDPSocketAdapter\<close>: a received UDP datagram is its source address and its payload.\<close>

definition TCPOverUDPSocketAdapter_read ::
  "fd_adapter \<Rightarrow> address \<Rightarrow> bytes \<Rightarrow> (fd_adapter \<times> tcp_segment option) outcome" where
  "TCPOverUDPSocketAdapter_read a source_address payload =
     (if \<not> fa_listen a \<and> \<not> Address_eq source_address (ac_destination (fa_cfg a)) then Inr (a, None)
      else bindE (TCPSegment_parse TCPSegment_default (Buffer_new payload) 0) (\<lambda>(res, seg).
        if res \<noteq> NoError then Inr (a, None)
        else if fa_listen a then
          if syn (seg_header seg) \<and> \<not> rst (seg_header seg) then
            let a = a\<lparr>fa_cfg := (fa_cfg a)\<lparr>ac_destination := source_address\<rparr>\<rparr>
            in Inr (FdAdapterBase_set_listening a False, Some seg)
          else Inr (a, None)
        else Inr (a, Some seg)))"

definition TCPOverUDPSocketAdapter_write ::
  "name_lookup \<Rightarrow> fd_adapter \<Rightarrow> tcp_segment \<Rightarrow> (tcp_segment \<times> address \<times> buffer_list) outcome" where
  "TCPOverUDPSocketAdapter_write getnameinfo a seg =
     bindE (Address_port getnameinfo (ac_source (fa_cfg a))) (\<lambda>source_port.
     bindE (Address_port getnameinfo (ac_destination (fa_cfg a))) (\<lambda>destination_port.
     let seg = seg\<lparr>seg_header := (seg_header seg)\<lparr>sport := source_port, dport := destination_port\<rparr>\<rparr>
     in bindE (TCPSegment_serialize seg 0) (\<lambda>payload. Inr (seg, ac_destination (fa_cfg a), payload))))"

text \<open>\<^verbatim>\<open>TCPOverIPv4OverTunFdAdapter\<close>.\<close>

definition TCPOverIPv4OverTunFdAdapter_read ::
  "resolver \<Rightarrow> name_lookup \<Rightarrow> fd_adapter \<Rightarrow> bytes \<Rightarrow> (fd_adapter \<times> tcp_segment option) outcome" where
  "TCPOverIPv4OverTunFdAdapter_read getaddrinfo getnameinfo a data =
     bindE (IPv4Datagram_parse IPv4Datagram_default (Buffer_new data)) (\<lambda>(res, ip_dgram).
       if res \<noteq> NoError then Inr (a, None)
       else TCPOverIPv4Adapter_unwrap_tcp_in_ip getaddrinfo getnameinfo a ip_dgram)"

definition TCPOverIPv4OverTunFdAdapter_write ::
  "name_lookup \<Rightarrow> fd_adapter \<Rightarrow> tcp_segment \<Rightarrow> (tcp_segment \<times> buffer_list) outcome" where
  "TCPOverIPv4OverTunFdAdapter_write getnameinfo a seg =
     bindE (TCPOverIPv4Adapter_wrap_tcp_in_ip getnameinfo a seg) (\<lambda>(seg, ip_dgram).
     bindE (IPv4Datagram_serialize ip_dgram) (\<lambda>data. Inr (seg, data)))"

text \<open>\<^verbatim>\<open>TCPOverIPv4OverEthernetAdapter\<close>; \<^verbatim>\<open>send_pending\<close> empties the queue of the interface into the device.\<close>

record ethernet_adapter =
  ea_base :: fd_adapter
  ea_interface :: network_interface
  ea_next_hop :: address

fun TCPOverIPv4OverEthernetAdapter_send_frames :: "ethernet_frame list \<Rightarrow> buffer_list list" where
  "TCPOverIPv4OverEthernetAdapter_send_frames [] = []"
| "TCPOverIPv4OverEthernetAdapter_send_frames (frame # frames) =
     EthernetFrame_serialize frame # TCPOverIPv4OverEthernetAdapter_send_frames frames"

definition TCPOverIPv4OverEthernetAdapter_send_pending :: "ethernet_adapter \<Rightarrow> ethernet_adapter \<times> buffer_list list" where
  "TCPOverIPv4OverEthernetAdapter_send_pending a =
     (a\<lparr>ea_interface := (ea_interface a)\<lparr>ni_frames_out := []\<rparr>\<rparr>,
      TCPOverIPv4OverEthernetAdapter_send_frames (ni_frames_out (ea_interface a)))"

definition TCPOverIPv4OverEthernetAdapter_new ::
  "fd_adapter_config \<Rightarrow> ethernet_address \<Rightarrow> address \<Rightarrow> address \<Rightarrow> ethernet_adapter \<times> buffer_list list" where
  "TCPOverIPv4OverEthernetAdapter_new cfg eth_address ip_address next_hop =
     (\<lparr>ea_base = \<lparr>fa_cfg = cfg, fa_listen = False\<rparr>, ea_interface = NetworkInterface_new eth_address ip_address,
       ea_next_hop = next_hop\<rparr>,
      [EthernetFrame_serialize EthernetFrame_default])"

definition TCPOverIPv4OverEthernetAdapter_read ::
  "resolver \<Rightarrow> name_lookup \<Rightarrow> ethernet_adapter \<Rightarrow> bytes \<Rightarrow>
   (ethernet_adapter \<times> buffer_list list \<times> tcp_segment option) outcome" where
  "TCPOverIPv4OverEthernetAdapter_read getaddrinfo getnameinfo a data =
     bindE (EthernetFrame_parse EthernetFrame_default (Buffer_new data)) (\<lambda>(res, frame).
       if res \<noteq> NoError then Inr (a, [], None)
       else bindE (NetworkInterface_recv_frame (ea_interface a) frame) (\<lambda>(interface, ip_dgram).
         let (a, sent) = TCPOverIPv4OverEthernetAdapter_send_pending (a\<lparr>ea_interface := interface\<rparr>)
         in case ip_dgram of
              Some dgram \<Rightarrow>
                bindE (TCPOverIPv4Adapter_unwrap_tcp_in_ip getaddrinfo getnameinfo (ea_base a) dgram) (\<lambda>(base, seg).
                  Inr (a\<lparr>ea_base := base\<rparr>, sent, seg))
            | None \<Rightarrow> Inr (a, sent, None)))"

definition TCPOverIPv4OverEthernetAdapter_tick :: "ethernet_adapter \<Rightarrow> size_t \<Rightarrow> ethernet_adapter \<times> buffer_list list" where
  "TCPOverIPv4OverEthernetAdapter_tick a ms_since_last_tick =
     TCPOverIPv4OverEthernetAdapter_send_pending
       (a\<lparr>ea_interface := NetworkInterface_tick (ea_interface a) ms_since_last_tick\<rparr>)"

definition TCPOverIPv4OverEthernetAdapter_write ::
  "name_lookup \<Rightarrow> ethernet_adapter \<Rightarrow> tcp_segment \<Rightarrow> (ethernet_adapter \<times> buffer_list list \<times> tcp_segment) outcome" where
  "TCPOverIPv4OverEthernetAdapter_write getnameinfo a seg =
     bindE (TCPOverIPv4Adapter_wrap_tcp_in_ip getnameinfo (ea_base a) seg) (\<lambda>(seg, ip_dgram).
     bindE (NetworkInterface_send_datagram (ea_interface a) ip_dgram (ea_next_hop a)) (\<lambda>interface.
       let (a, sent) = TCPOverIPv4OverEthernetAdapter_send_pending (a\<lparr>ea_interface := interface\<rparr>)
       in Inr (a, sent, seg)))"

text \<open>
  \<^verbatim>\<open>LossyFdAdapter\<close>, for an adapter with the given \<^verbatim>\<open>read\<close> and \<^verbatim>\<open>write\<close>; \<open>rand\<close> is the next value of
  the random generator.  A datagram that is dropped has been read by the adapter beneath.
\<close>

definition LossyFdAdapter_should_drop :: "fd_adapter_config \<Rightarrow> u32 \<Rightarrow> bool \<Rightarrow> bool" where
  "LossyFdAdapter_should_drop cfg rand uplink \<longleftrightarrow>
     (let loss = if uplink then ac_loss_rate_up cfg else ac_loss_rate_dn cfg in loss \<noteq> 0 \<and> ucast rand < loss)"

definition LossyFdAdapter_read ::
  "('a \<Rightarrow> fd_adapter_config) \<Rightarrow> ('a \<Rightarrow> ('a \<times> tcp_segment option) outcome) \<Rightarrow> u32 \<Rightarrow> 'a \<Rightarrow> ('a \<times> tcp_segment option) outcome" where
  "LossyFdAdapter_read config read rand a =
     bindE (read a) (\<lambda>(a, ret). Inr (a, if LossyFdAdapter_should_drop (config a) rand False then None else ret))"

definition LossyFdAdapter_write ::
  "('a \<Rightarrow> fd_adapter_config) \<Rightarrow> ('a \<Rightarrow> tcp_segment \<Rightarrow> (tcp_segment \<times> 'b) outcome) \<Rightarrow> u32 \<Rightarrow> 'a \<Rightarrow> tcp_segment \<Rightarrow>
   (tcp_segment \<times> 'b option) outcome" where
  "LossyFdAdapter_write config write rand a seg =
     (if LossyFdAdapter_should_drop (config a) rand True then Inr (seg, None)
      else bindE (write a seg) (\<lambda>(seg, sent). Inr (seg, Some sent)))"

section \<open>Numeric addresses\<close>

text \<open>
  What the adapters rely on of \<open>getaddrinfo\<close> and \<open>getnameinfo\<close>: a dotted quad and a decimal port give
  the socket address with these numbers, and back.
\<close>

definition sockaddr_in :: "u32 \<Rightarrow> u16 \<Rightarrow> bytes" where
  "sockaddr_in ip port = [ucast AF_INET, 0] @ be_bytes port @ be_bytes ip @ replicate 8 0"

definition numeric_resolver :: "resolver \<Rightarrow> name_lookup \<Rightarrow> bool" where
  "numeric_resolver getaddrinfo getnameinfo \<longleftrightarrow>
     (\<forall>ip port. getaddrinfo (inet_ntoa ip) (decimal (unat port)) (make_hints (AI_NUMERICHOST OR AI_NUMERICSERV) AF_INET) =
          Inr [sockaddr_in ip port] \<and>
        getnameinfo (sockaddr_in ip port) = Inr (inet_ntoa ip, decimal (unat port)))"

definition socket_address :: "u32 \<Rightarrow> u16 \<Rightarrow> address" where
  "socket_address ip port = \<lparr>ad_size = 16, ad_storage = sockaddr_in ip port @ replicate 112 0\<rparr>"

abbreviation digit :: "char \<Rightarrow> bool" where
  "digit c \<equiv> 48 \<le> (of_char c :: nat) \<and> (of_char c :: nat) \<le> 57"

lemma stoi_digits_append:
  "list_all digit xs \<Longrightarrow> stoi_digits acc (xs @ ys) = stoi_digits (stoi_digits acc xs) ys"
  by (induction xs arbitrary: acc) auto

lemma of_char_digit: "n < 10 \<Longrightarrow> (of_char (char_of (48 + n)) :: nat) = 48 + n"
  by (simp add: of_char_of)

lemma decimal_digits: "list_all digit (decimal n)"
proof (induction n rule: decimal.induct)
  case (1 n)
  then show ?case
    using of_char_digit [of n] of_char_digit [of "n mod 10"] by (auto simp: decimal.simps [of n])
qed

lemma stoi_digits_decimal [simp]: "stoi_digits 0 (decimal n) = n"
proof (induction n rule: decimal.induct)
  case (1 n)
  then show ?case
    using of_char_digit [of n] of_char_digit [of "n mod 10"]
    by (auto simp: decimal.simps [of n] stoi_digits_append decimal_digits)
qed

lemma socket_address_simps:
  "Address_ipv4_numeric (socket_address ip port) = Inr ip"
  by (simp add: Address_ipv4_numeric_def socket_address_def sockaddr_in_def ss_family_def AF_INET_def sizeof_sockaddr_in_def)

lemma numeric_resolver_simps:
  assumes "numeric_resolver getaddrinfo getnameinfo"
  shows "Address_of_ip getaddrinfo (inet_ntoa ip) port = Inr (socket_address ip port)"
    "Address_port getnameinfo (socket_address ip port) = Inr port"
proof -
  have len: "length (sockaddr_in ip port) = 16"
    by (simp add: sockaddr_in_def)
  show "Address_of_ip getaddrinfo (inet_ntoa ip) port = Inr (socket_address ip port)"
    using assms len by (simp add: numeric_resolver_def Address_of_ip_def Address_resolve_def Address_of_sockaddr_def
        socket_address_def sizeof_sockaddr_storage_def sz_def)
  show "Address_port getnameinfo (socket_address ip port) = Inr port"
    using assms len by (simp add: numeric_resolver_def Address_port_def Address_ip_port_def socket_address_def)
qed

section \<open>From one adapter to another\<close>

lemma runs_conj: "runs m P \<Longrightarrow> runs m Q \<Longrightarrow> runs m (\<lambda>x. P x \<and> Q x)"
  by (auto simp: runs_def)

text \<open>The four numbers of a connection, as an adapter has them.\<close>

definition connection_of :: "name_lookup \<Rightarrow> fd_adapter \<Rightarrow> u32 \<times> u16 \<Rightarrow> u32 \<times> u16 \<Rightarrow> bool" where
  "connection_of getnameinfo a = (\<lambda>(ip, port) (ip', port').
     Address_ipv4_numeric (ac_source (fa_cfg a)) = Inr ip \<and> Address_port getnameinfo (ac_source (fa_cfg a)) = Inr port \<and>
     Address_ipv4_numeric (ac_destination (fa_cfg a)) = Inr ip' \<and>
     Address_port getnameinfo (ac_destination (fa_cfg a)) = Inr port')"

text \<open>A segment that fits into a datagram.\<close>

definition sendable_segment :: "tcp_segment \<Rightarrow> bool" where
  "sendable_segment seg \<longleftrightarrow> TCPHeader_wf (seg_header seg) \<and> Buffer_wf (seg_payload seg) \<and>
     20 + 4 * unat (doff (seg_header seg)) + length (Buffer_str (seg_payload seg)) < 65536"

definition with_ports :: "u16 \<Rightarrow> u16 \<Rightarrow> tcp_segment \<Rightarrow> tcp_segment" where
  "with_ports port port' seg = seg\<lparr>seg_header := (seg_header seg)\<lparr>sport := port, dport := port'\<rparr>\<rparr>"

lemma sendable_with_ports [simp]: "sendable_segment (with_ports port port' seg) = sendable_segment seg"
  by (simp add: sendable_segment_def with_ports_def TCPHeader_wf_def)

lemma TCPSegment_wf_pseudo:
  assumes "sendable_segment seg"
  shows "TCPSegment_wf (IPv4Header_pseudo_cksum h) seg"
proof -
  have "unat (IPv4Header_pseudo_cksum h) \<le> 65280 * 12"
    unfolding unat_pseudo_cksum by (rule order_trans [OF word_sum_le]) simp
  moreover have "length (Buffer_str (seg_payload seg)) \<le> 65495"
    using assms by (auto simp: sendable_segment_def TCPHeader_wf_def)
  ultimately show ?thesis
    using assms by (simp add: TCPSegment_wf_def sendable_segment_def)
qed

lemma wrap_runs:
  assumes a: "connection_of getnameinfo a (ip, port) (ip', port')" and seg: "sendable_segment seg"
  shows "runs (TCPOverIPv4Adapter_wrap_tcp_in_ip getnameinfo a seg) (\<lambda>(seg', d).
    seg' = with_ports port port' seg \<and> IPv4Datagram_wf d \<and>
    ip_src (dg_header d) = ip \<and> ip_dst (dg_header d) = ip' \<and> ip_proto (dg_header d) = IPv4Header_PROTO_TCP \<and>
    TCPSegment_serialize seg' (IPv4Header_pseudo_cksum (dg_header d)) = Inr (dg_payload d))"
proof -
  let ?seg = "with_ports port port' seg"
  let ?n = "20 + 4 * unat (doff (seg_header seg)) + length (Buffer_str (seg_payload seg))"
  let ?w = "ucast (5 :: u8) * 4 + ucast (doff (seg_header seg)) * 4 + Buffer_size (seg_payload seg) :: size_t"
  let ?h = "IPv4Header_default\<lparr>ip_src := ip, ip_dst := ip', ip_len := ucast ?w\<rparr>"
  have n: "?n < 65536" and wf: "TCPHeader_wf (seg_header seg)" "Buffer_wf (seg_payload seg)"
    using seg by (simp_all add: sendable_segment_def)
  have "unat ?w = ?n"
  proof -
    have d: "unat (ucast (doff (seg_header seg)) * 4 :: size_t) = 4 * unat (doff (seg_header seg))"
      using wf by (simp add: TCPHeader_wf_def unat_word_ariths unsigned_ucast_eq take_bit_nat_eq_self)
    then have "unat (20 + ucast (doff (seg_header seg)) * 4 :: size_t) = 20 + 4 * unat (doff (seg_header seg))"
      using n by (subst unat_add_nowrap) simp_all
    then show ?thesis
      using n wf by (subst unat_add_nowrap) simp_all
  qed
  then have "unat (ucast ?w :: u16) = ?n"
    using n by (simp only: unsigned_ucast_eq) (simp add: take_bit_nat_eq_self)
  then have len: "unat (ip_len ?h) = ?n"
    by simp
  from TCPSegment_wf_pseudo [of ?seg ?h] seg have "TCPSegment_wf (IPv4Header_pseudo_cksum ?h) ?seg"
    by simp
  then obtain bl where bl: "TCPSegment_serialize ?seg (IPv4Header_pseudo_cksum ?h) = Inr bl"
    by (rule tcp_wire.serializes)
  have "length (BufferList_concatenate bl) = 4 * unat (doff (seg_header seg)) + length (Buffer_str (seg_payload seg))"
    using bl wf TCPSegment_serialize_eq [of ?seg "IPv4Header_pseudo_cksum ?h"]
    by (auto simp: with_ports_def TCPHeader_wf_def)
  then have "IPv4Datagram_wf \<lparr>dg_header = ?h, dg_payload = bl\<rparr>"
    using len by (simp add: IPv4Datagram_wf_def IPv4Header_wf_def IPv4Header_default_def IPv4Header_LENGTH_def)
  moreover have "ip_hlen (IPv4Header_default\<lparr>ip_src := ip, ip_dst := ip'\<rparr>) = 5"
    by (simp add: IPv4Header_default_def IPv4Header_LENGTH_def)
  ultimately show ?thesis
    using a bl
    by (simp add: TCPOverIPv4Adapter_wrap_tcp_in_ip_def connection_of_def Let_def IPv4Header_default_def
        IPv4Header_LENGTH_def with_ports_def)
qed

text \<open>The peer is connected to the sender already, or it listens and the segment is a SYN.\<close>

definition awaits :: "resolver \<Rightarrow> name_lookup \<Rightarrow> fd_adapter \<Rightarrow> u32 \<times> u16 \<Rightarrow> u32 \<times> u16 \<Rightarrow> tcp_segment \<Rightarrow> bool" where
  "awaits getaddrinfo getnameinfo b here there seg \<longleftrightarrow>
     (if fa_listen b
      then Address_port getnameinfo (ac_source (fa_cfg b)) = Inr (snd here) \<and> syn (seg_header seg) \<and>
        \<not> rst (seg_header seg) \<and> numeric_resolver getaddrinfo getnameinfo
      else connection_of getnameinfo b here there)"

definition delivered :: "name_lookup \<Rightarrow> u32 \<times> u16 \<Rightarrow> u32 \<times> u16 \<Rightarrow> tcp_segment \<Rightarrow> fd_adapter \<Rightarrow> tcp_segment option \<Rightarrow> bool" where
  "delivered getnameinfo here there seg b' r \<longleftrightarrow>
     (\<exists>s. r = Some s \<and> same_segment seg s) \<and> \<not> fa_listen b' \<and> connection_of getnameinfo b' here there"

lemma same_segment_fields:
  assumes "same_segment seg s"
  shows "sport (seg_header s) = sport (seg_header seg)" "dport (seg_header s) = dport (seg_header seg)"
    "syn (seg_header s) = syn (seg_header seg)" "rst (seg_header s) = rst (seg_header seg)"
proof -
  from assms have e: "seg_header seg = (seg_header s)\<lparr>cksum := cksum (seg_header seg)\<rparr>"
    by (simp only: same_segment_def)
  show "sport (seg_header s) = sport (seg_header seg)" "dport (seg_header s) = dport (seg_header seg)"
    "syn (seg_header s) = syn (seg_header seg)" "rst (seg_header s) = rst (seg_header seg)"
    using arg_cong [OF e, of sport] arg_cong [OF e, of dport] arg_cong [OF e, of syn] arg_cong [OF e, of rst]
    by simp_all
qed

lemma accept_runs:
  assumes "awaits getaddrinfo getnameinfo b (ip_dst h, dport (seg_header seg)) (ip_src h, sport (seg_header seg)) seg"
    and "same_segment seg s"
  shows "runs (TCPOverIPv4Adapter_accept getaddrinfo getnameinfo b h s)
    (\<lambda>(b', r). delivered getnameinfo (ip_dst h, dport (seg_header seg)) (ip_src h, sport (seg_header seg)) seg b' r)"
  using assms
  by (auto simp: TCPOverIPv4Adapter_accept_def TCPOverIPv4Adapter_from_peer_def awaits_def delivered_def connection_of_def
      same_segment_fields FdAdapterBase_set_listening_def Let_def numeric_resolver_simps socket_address_simps)

lemma unwrap_runs:
  assumes b: "awaits getaddrinfo getnameinfo b (ip_dst h, dport (seg_header seg)) (ip_src h, sport (seg_header seg)) seg"
    and d: "dg_header d = h" "ip_proto h = IPv4Header_PROTO_TCP" "length (dg_payload d) = 1" "list_all Buffer_wf (dg_payload d)"
    and seg: "TCPSegment_wf (IPv4Header_pseudo_cksum h) seg" "TCPSegment_serialize seg (IPv4Header_pseudo_cksum h) = Inr bl"
      "BufferList_concatenate (dg_payload d) = BufferList_concatenate bl"
  shows "runs (TCPOverIPv4Adapter_unwrap_tcp_in_ip getaddrinfo getnameinfo b d)
    (\<lambda>(b', r). delivered getnameinfo (ip_dst h, dport (seg_header seg)) (ip_src h, sport (seg_header seg)) seg b' r)"
proof -
  obtain buf where buf: "dg_payload d = [buf]" "Buffer_wf buf"
    using d(3,4) by (cases "dg_payload d") auto
  have parse: "runs (TCPSegment_parse TCPSegment_default buf (IPv4Header_pseudo_cksum h)) (\<lambda>(res, s). res = NoError \<and> same_segment seg s)"
    using seg(3) buf by (intro tcp_wire.in_one_buffer [OF seg(1,2)]) simp_all
  have port: "Address_port getnameinfo (ac_source (fa_cfg b)) = Inr (dport (seg_header seg))"
    using b by (auto simp: awaits_def connection_of_def split: if_splits)
  have "runs (bindE (TCPSegment_parse TCPSegment_default buf (IPv4Header_pseudo_cksum h)) (\<lambda>(res, tcp_seg).
      if res \<noteq> NoError then Inr (b, None)
      else bindE (Address_port getnameinfo (ac_source (fa_cfg b))) (\<lambda>port.
        if dport (seg_header tcp_seg) \<noteq> port then Inr (b, None)
        else TCPOverIPv4Adapter_accept getaddrinfo getnameinfo b h tcp_seg)))
      (\<lambda>(b', r). delivered getnameinfo (ip_dst h, dport (seg_header seg)) (ip_src h, sport (seg_header seg)) seg b' r)"
    unfolding runs_bindE
    by (rule runs_mono [OF parse]) (auto simp: port same_segment_fields intro: accept_runs [OF b])
  then show ?thesis
    using b d(1,2) buf(1)
    by (auto simp: TCPOverIPv4Adapter_unwrap_tcp_in_ip_def BufferList_to_Buffer_def awaits_def connection_of_def split: if_splits)
qed

lemma IPv4Datagram_parse_payload:
  "Buffer_wf b \<Longrightarrow> runs (IPv4Datagram_parse d b) (\<lambda>(_, d'). length (dg_payload d') = 1 \<and> list_all Buffer_wf (dg_payload d'))"
  unfolding IPv4Datagram_parse_def runs_bindE
  by (rule runs_mono [OF IPv4Header_parse_runs [OF progress_new]])
    (auto simp: split_def Let_def progress_buffer split: if_splits)

lemma read_runs:
  assumes b: "awaits getaddrinfo getnameinfo b (ip', port') (ip, port) seg"
    and ports: "sport (seg_header seg) = port" "dport (seg_header seg) = port'"
    and seg: "sendable_segment seg" "TCPSegment_serialize seg (IPv4Header_pseudo_cksum (dg_header d)) = Inr (dg_payload d)"
    and d: "IPv4Datagram_wf d" "ip_src (dg_header d) = ip" "ip_dst (dg_header d) = ip'"
      "ip_proto (dg_header d) = IPv4Header_PROTO_TCP" "IPv4Datagram_serialize d = Inr bl" "fits (BufferList_concatenate bl)"
  shows "runs (TCPOverIPv4OverTunFdAdapter_read getaddrinfo getnameinfo b (BufferList_concatenate bl))
    (\<lambda>(b', r). delivered getnameinfo (ip', port') (ip, port) seg b' r)"
proof -
  have wf: "Buffer_wf (Buffer_new (BufferList_concatenate bl))"
    using d(6) by simp
  have unwrap: "runs (TCPOverIPv4Adapter_unwrap_tcp_in_ip getaddrinfo getnameinfo b d')
      (\<lambda>(b', r). delivered getnameinfo (ip', port') (ip, port) seg b' r)"
    if d': "same_datagram d d'" "length (dg_payload d') = 1" "list_all Buffer_wf (dg_payload d')" for d'
  proof -
    have e: "dg_header d = (dg_header d')\<lparr>ip_cksum := ip_cksum (dg_header d)\<rparr>"
      using d'(1) by (simp only: same_datagram_def)
    have "ip_src (dg_header d') = ip" "ip_dst (dg_header d') = ip'" "ip_proto (dg_header d') = IPv4Header_PROTO_TCP"
      and "IPv4Header_pseudo_cksum (dg_header d') = IPv4Header_pseudo_cksum (dg_header d)"
      using d(2-4) arg_cong [OF e, of ip_src] arg_cong [OF e, of ip_dst] arg_cong [OF e, of ip_proto]
        arg_cong [OF e, of IPv4Header_pseudo_cksum]
      by (simp_all add: IPv4Header_pseudo_cksum_def IPv4Header_payload_length_def)
    then show ?thesis
      using unwrap_runs [of getaddrinfo getnameinfo b "dg_header d'" seg d' "dg_payload d"] b seg d' ports
      by (simp add: TCPSegment_wf_pseudo same_datagram_def)
  qed
  show ?thesis
    unfolding TCPOverIPv4OverTunFdAdapter_read_def runs_bindE
    by (rule runs_mono [OF runs_conj [OF ip_wire.in_one_buffer [OF d(1,5) wf] IPv4Datagram_parse_payload [OF wf]]])
      (auto intro: unwrap simp del: One_nat_def)
qed

section \<open>A concrete resolver\<close>

fun dotted_numbers :: "nat \<Rightarrow> string \<Rightarrow> nat list" where
  "dotted_numbers acc [] = [acc]"
| "dotted_numbers acc (c # cs) =
     (if digit c then dotted_numbers (10 * acc + (of_char c - 48)) cs else acc # dotted_numbers 0 cs)"

definition example_getaddrinfo :: resolver where
  "example_getaddrinfo node service hints =
     Inr [sockaddr_in (word_of_nat (foldl (\<lambda>n m. 256 * n + m) 0 (dotted_numbers 0 node))) (word_of_nat (stoi_digits 0 service))]"

definition example_getnameinfo :: name_lookup where
  "example_getnameinfo addr =
     Inr (inet_ntoa (be_value (take 4 (drop 4 addr))), decimal (unat (be_value (take 2 (drop 2 addr)) :: u16)))"

lemma dotted_numbers_digits:
  "list_all digit xs \<Longrightarrow> dotted_numbers acc (xs @ ys) = dotted_numbers (stoi_digits acc xs) ys"
  by (induction xs arbitrary: acc) auto

lemma dotted_numbers_decimal:
  "dotted_numbers 0 (decimal n @ CHR ''.'' # ys) = n # dotted_numbers 0 ys" "dotted_numbers 0 (decimal n) = [n]"
  using dotted_numbers_digits [of "decimal n" 0 "''.'' @ ys"] dotted_numbers_digits [of "decimal n" 0 "[]"]
  by (simp_all add: decimal_digits)

lemma quad_digits:
  "256 * (256 * (256 * (n div 16777216) + n div 65536 mod 256) + n div 256 mod 256) + n mod 256 = (n :: nat)"
proof -
  have "n div 16777216 = n div 65536 div 256" "n div 65536 = n div 256 div 256"
    by (simp_all add: div_mult2_eq)
  then show ?thesis
    by (metis mult_div_mod_eq)
qed

lemma inet_ntoa_digits:
  "foldl (\<lambda>n m. 256 * n + m) 0 (dotted_numbers 0 (inet_ntoa ip)) = unat ip"
proof -
  have "unat (drop_bit 24 ip) = unat ip div 16777216" "unat (take_bit 8 (drop_bit 16 ip)) = unat ip div 65536 mod 256"
    "unat (take_bit 8 (drop_bit 8 ip)) = unat ip div 256 mod 256" "unat (take_bit 8 ip) = unat ip mod 256"
    by (simp_all add: drop_bit_eq_div take_bit_eq_mod unat_div_distrib unat_mod_distrib)
  then show ?thesis
    using quad_digits [of "unat ip"]
    by (simp add: inet_ntoa_def dotted_numbers_decimal del: unsigned_take_bit_eq)
qed

lemma example_resolver: "numeric_resolver example_getaddrinfo example_getnameinfo"
  by (simp add: numeric_resolver_def example_getaddrinfo_def example_getnameinfo_def inet_ntoa_digits sockaddr_in_def)

section \<open>Properties\<close>

text \<open>
  C16. What one adapter writes to its TUN device, its peer reads: the segment written, with the
  ports of the connection, comes back from the bytes of the datagram, through both checksums.
  The peer may be connected already, or it may listen, if the segment is a SYN without RST; then
  it stops listening and is connected to the sender.
\<close>

theorem tun_delivers:
  assumes "connection_of getnameinfo a (ip, port) (ip', port')"
    and "awaits getaddrinfo getnameinfo b (ip', port') (ip, port) seg"
    and "sendable_segment seg"
  shows "runs (TCPOverIPv4OverTunFdAdapter_write getnameinfo a seg) (\<lambda>(seg', data).
    runs (TCPOverIPv4OverTunFdAdapter_read getaddrinfo getnameinfo b (BufferList_concatenate data)) (\<lambda>(b', r).
      (\<exists>s. r = Some s \<and> same_segment (with_ports port port' seg) s) \<and>
      \<not> fa_listen b' \<and> connection_of getnameinfo b' (ip', port') (ip, port)))"
proof -
  let ?seg = "with_ports port port' seg"
  have ports: "sport (seg_header ?seg) = port" "dport (seg_header ?seg) = port'"
    and b: "awaits getaddrinfo getnameinfo b (ip', port') (ip, port) ?seg"
    using assms(2) by (simp_all add: with_ports_def awaits_def)
  have seg: "sendable_segment ?seg"
    using assms(3) by simp
  have "runs (IPv4Datagram_serialize d) (\<lambda>data.
      runs (TCPOverIPv4OverTunFdAdapter_read getaddrinfo getnameinfo b (BufferList_concatenate data))
        (\<lambda>(b', r). delivered getnameinfo (ip', port') (ip, port) ?seg b' r))"
    if "IPv4Datagram_wf d" "ip_src (dg_header d) = ip" "ip_dst (dg_header d) = ip'"
      "ip_proto (dg_header d) = IPv4Header_PROTO_TCP"
      "TCPSegment_serialize ?seg (IPv4Header_pseudo_cksum (dg_header d)) = Inr (dg_payload d)" for d
    using read_runs [OF b ports seg that(5,1-4)] that(1) by (auto elim: ip_wire.serializes)
  then show ?thesis
    unfolding TCPOverIPv4OverTunFdAdapter_write_def runs_bindE
    by (intro runs_mono [OF wrap_runs [OF assms(1,3)]]) (auto simp: delivered_def elim!: runs_mono)
qed

theorem tun_delivers_witness:
  "runs (TCPOverIPv4OverTunFdAdapter_write example_getnameinfo
      \<lparr>fa_cfg = \<lparr>ac_source = socket_address 0x0a000001 1000, ac_destination = socket_address 0x0a000002 80,
         ac_loss_rate_dn = 0, ac_loss_rate_up = 0\<rparr>, fa_listen = False\<rparr>
      (TCPSegment_default\<lparr>seg_header := TCPHeader_default\<lparr>syn := True\<rparr>\<rparr>)) (\<lambda>(seg', data).
    runs (TCPOverIPv4OverTunFdAdapter_read example_getaddrinfo example_getnameinfo
        \<lparr>fa_cfg = \<lparr>ac_source = socket_address 0 80, ac_destination = socket_address 0 0,
           ac_loss_rate_dn = 0, ac_loss_rate_up = 0\<rparr>, fa_listen = True\<rparr> (BufferList_concatenate data)) (\<lambda>(b', r).
      r \<noteq> None \<and> \<not> fa_listen b' \<and> connection_of example_getnameinfo b' (0x0a000002, 80) (0x0a000001, 1000)))"
proof -
  let ?seg = "TCPSegment_default\<lparr>seg_header := TCPHeader_default\<lparr>syn := True\<rparr>\<rparr>"
  have "sendable_segment ?seg"
    by (simp add: sendable_segment_def TCPHeader_wf_def TCPSegment_default_def TCPHeader_default_def TCPHeader_LENGTH_def)
  moreover have "\<not> rst (seg_header ?seg)" "syn (seg_header ?seg)"
    by (simp_all add: TCPHeader_default_def)
  ultimately show ?thesis
    by (intro runs_mono [OF tun_delivers [where getaddrinfo = example_getaddrinfo and ip = "0x0a000001" and port = 1000
          and ip' = "0x0a000002" and port' = 80]])
      (auto simp: connection_of_def awaits_def socket_address_simps numeric_resolver_simps [OF example_resolver] example_resolver
        elim!: runs_mono)
qed

end
