(* ===== verification/Sponge_Socket.thy ===== *)
theory Sponge_Socket
  imports Connecting Event_Loop Sockets Adapters
begin

text \<open>
  \<^verbatim>\<open>libsponge/tcp_helpers/tcp_sponge_socket.{hh,cc}\<close>: the thread that runs a \<^verbatim>\<open>TCPConnection\<close> between the
  socket of its owner and a datagram adapter, with four rules in an event loop.  What it does is
  proved in \<^verbatim>\<open>Socket_Thread\<close>.
\<close>

section \<open>State\<close>

text \<open>
  The owner's thread and the kernel are seen through their answers: every answer is a function of the
  number of calls made before and of whether the owner's thread has returned from \<^verbatim>\<open>connect\<close> or
  \<^verbatim>\<open>listen_and_accept\<close>.  \<open>os_abort\<close> is what the loop reads in the atomic flag \<^verbatim>\<open>_abort\<close>, which only the
  owner's thread sets.
\<close>

record kernel =
  os_read :: "nat \<Rightarrow> int \<Rightarrow> size_t \<Rightarrow> bytes syscall"
  os_writev :: "nat \<Rightarrow> int \<Rightarrow> nat \<Rightarrow> (bytes \<times> size_t) list \<Rightarrow> nat syscall"
  os_shutdown :: "nat \<Rightarrow> int \<Rightarrow> int \<Rightarrow> unit syscall"
  os_poll :: "nat \<Rightarrow> poll_call"
  os_timestamp :: "nat \<Rightarrow> size_t"
  os_abort :: "nat \<Rightarrow> bool"

type_synonym environment = "bool \<Rightarrow> kernel"

text \<open>The template argument \<^verbatim>\<open>AdaptT\<close>: what the socket calls of its adapter.\<close>

record 'd adapter_ops =
  ao_read :: "nat \<Rightarrow> fd_wrapper \<Rightarrow> 'd \<Rightarrow> (fd_wrapper \<times> 'd \<times> tcp_segment option) outcome"
  ao_write :: "nat \<Rightarrow> fd_wrapper \<Rightarrow> 'd \<Rightarrow> tcp_segment \<Rightarrow> (fd_wrapper \<times> 'd) outcome"
  ao_tick :: "nat \<Rightarrow> fd_wrapper \<Rightarrow> 'd \<Rightarrow> size_t \<Rightarrow> (fd_wrapper \<times> 'd) outcome"
  ao_set_config :: "'d \<Rightarrow> fd_adapter_config \<Rightarrow> 'd"
  ao_set_listening :: "'d \<Rightarrow> bool \<Rightarrow> 'd"

text \<open>
  The members, and the input and output of the thread so far: the bytes read from and written to
  \<^verbatim>\<open>_thread_data\<close> and the segments given to the adapter.
\<close>

record 'd sponge_socket =
  ss_tcp :: "tcp_connection option"
  ss_adapter :: 'd
  ss_inbound_shutdown :: bool
  ss_outbound_shutdown :: bool
  ss_fully_acked :: bool
  ss_joinable :: bool
  ss_calls :: nat
  ss_from_owner :: bytes
  ss_to_owner :: bytes
  ss_sent :: "tcp_segment list"

type_synonym 'd socket_state = "'d sponge_socket program_state"

text \<open>The descriptors: \<^verbatim>\<open>_thread_data\<close>, the adapter's, and the socket of the owner.\<close>

definition THREAD_DATA :: nat where
  "THREAD_DATA = 0"

definition ADAPTER :: nat where
  "ADAPTER = 1"

definition OWNER :: nat where
  "OWNER = 2"

definition TCP_TICK_MS :: size_t where
  "TCP_TICK_MS = 10"

definition set_fd :: "nat \<Rightarrow> fd_wrapper \<Rightarrow> 'd socket_state \<Rightarrow> 'd socket_state" where
  "set_fd h w s = s\<lparr>ps_fds := (ps_fds s)(h := w)\<rparr>"

definition set_user :: "'d socket_state \<Rightarrow> 'd sponge_socket \<Rightarrow> 'd socket_state" where
  "set_user s u = s\<lparr>ps_user := u\<rparr>"

definition answers :: "environment \<Rightarrow> 'd socket_state \<Rightarrow> kernel" where
  "answers os s = os (ss_joinable (ps_user s))"

text \<open>\<^verbatim>\<open>_tcp->\<close> of an empty optional is undefined, \<^verbatim>\<open>_tcp.value()\<close> throws.\<close>

definition deref :: "'d socket_state \<Rightarrow> tcp_connection outcome" where
  "deref s = (case ss_tcp (ps_user s) of None \<Rightarrow> Inl (Undefined ''empty optional'') | Some tc \<Rightarrow> Inr tc)"

definition optional_value :: "'d socket_state \<Rightarrow> tcp_connection outcome" where
  "optional_value s = (case ss_tcp (ps_user s) of None \<Rightarrow> Inl Bad_optional_access | Some tc \<Rightarrow> Inr tc)"

definition set_tcp :: "'d socket_state \<Rightarrow> tcp_connection \<Rightarrow> 'd socket_state" where
  "set_tcp s tc = set_user s ((ps_user s)\<lparr>ss_tcp := Some tc\<rparr>)"

definition count_call :: "'d socket_state \<Rightarrow> 'd socket_state" where
  "count_call s = set_user s ((ps_user s)\<lparr>ss_calls := Suc (ss_calls (ps_user s))\<rparr>)"

section \<open>The rules\<close>

text \<open>Rule 1: a datagram has arrived.\<close>

definition TCPSpongeSocket_receive :: "'d adapter_ops \<Rightarrow> 'd socket_state \<Rightarrow> 'd socket_state outcome" where
  "TCPSpongeSocket_receive ops s =
     bindE (ao_read ops (ss_calls (ps_user s)) (ps_fds s ADAPTER) (ss_adapter (ps_user s))) (\<lambda>(w, d, seg).
     let s = set_fd ADAPTER w (count_call (set_user s ((ps_user s)\<lparr>ss_adapter := d\<rparr>)))
     in bindE (case seg of
                 None \<Rightarrow> Inr s
               | Some seg \<Rightarrow> bindE (deref s) (\<lambda>tc.
                   bindE (TCPConnection_segment_received tc seg) (\<lambda>tc. Inr (set_tcp s tc)))) (\<lambda>s.
        if fdw_eof (ps_fds s THREAD_DATA) then
          bindE (optional_value s) (\<lambda>tc.
            if TCPConnection_bytes_in_flight tc = 0 \<and> \<not> ss_fully_acked (ps_user s)
            then Inr (set_user s ((ps_user s)\<lparr>ss_fully_acked := True\<rparr>)) else Inr s)
        else Inr s))"

text \<open>
  The interest of a rule: the loop runs only while \<^verbatim>\<open>_tcp\<close> has a value, so the case of an empty
  optional does not arise.
\<close>

definition TCPSpongeSocket_receive_interest :: "'d socket_state \<Rightarrow> bool" where
  "TCPSpongeSocket_receive_interest s =
     (case ss_tcp (ps_user s) of None \<Rightarrow> False | Some tc \<Rightarrow> TCPConnection_active tc)"

text \<open>Rule 2: the owner has written or closed; its cancellation.\<close>

definition TCPSpongeSocket_end_outbound :: "'d socket_state \<Rightarrow> 'd socket_state outcome" where
  "TCPSpongeSocket_end_outbound s =
     bindE (deref s) (\<lambda>tc. bindE (TCPConnection_end_input_stream tc) (\<lambda>tc.
       Inr (set_user s ((ps_user s)\<lparr>ss_tcp := Some tc, ss_outbound_shutdown := True\<rparr>))))"

definition TCPSpongeSocket_outbound :: "environment \<Rightarrow> 'd socket_state \<Rightarrow> 'd socket_state outcome" where
  "TCPSpongeSocket_outbound os s =
     bindE (deref s) (\<lambda>tc.
     bindE (FileDescriptor_read (os_read (answers os s) (ss_calls (ps_user s))) (ps_fds s THREAD_DATA)
              (TCPConnection_remaining_outbound_capacity tc)) (\<lambda>(w, data).
     let s = set_fd THREAD_DATA w (count_call s); len = sz data
     in bindE (TCPConnection_write tc data) (\<lambda>(tc, amount_written).
        if amount_written \<noteq> len
        then Inl (Runtime_error ''TCPConnection::write() accepted less than advertised length'')
        else
          let s = set_user s ((ps_user s)\<lparr>ss_tcp := Some tc, ss_from_owner := ss_from_owner (ps_user s) @ data\<rparr>)
          in if fdw_eof (ps_fds s THREAD_DATA) then TCPSpongeSocket_end_outbound s else Inr s)))"

definition TCPSpongeSocket_outbound_interest :: "'d socket_state \<Rightarrow> bool" where
  "TCPSpongeSocket_outbound_interest s =
     (case ss_tcp (ps_user s) of
        None \<Rightarrow> False
      | Some tc \<Rightarrow> TCPConnection_active tc \<and> \<not> ss_outbound_shutdown (ps_user s) \<and>
                   TCPConnection_remaining_outbound_capacity tc > 0)"

text \<open>Rule 3: bytes for the owner.\<close>

definition TCPSpongeSocket_inbound :: "environment \<Rightarrow> 'd socket_state \<Rightarrow> 'd socket_state outcome" where
  "TCPSpongeSocket_inbound os s =
     bindE (deref s) (\<lambda>tc.
     let inbound = TCPConnection_inbound_stream tc;
         amount_to_write = min 65536 (ByteStream_buffer_size inbound);
         buffer = ByteStream_peek_output inbound amount_to_write;
         k = ss_calls (ps_user s)
     in bindE (FileDescriptor_write (os_writev (answers os s) k) (ps_fds s THREAD_DATA) (BufferViewList_of_view buffer) False)
          (\<lambda>(w, bytes_written, written).
        let inbound = ByteStream_pop_output inbound bytes_written;
            s = set_fd THREAD_DATA w (count_call (set_user s ((ps_user s)
              \<lparr>ss_tcp := Some (TCPConnection_set_inbound_stream tc inbound),
               ss_to_owner := ss_to_owner (ps_user s) @ written\<rparr>)))
        in if ByteStream_eof inbound \<or> bs_error inbound then
             bindE (Socket_shutdown (os_shutdown (answers os s) k) w SHUT_WR) (\<lambda>w.
               Inr (set_fd THREAD_DATA w (set_user s ((ps_user s)\<lparr>ss_inbound_shutdown := True\<rparr>))))
           else Inr s))"

definition TCPSpongeSocket_inbound_interest :: "'d socket_state \<Rightarrow> bool" where
  "TCPSpongeSocket_inbound_interest s =
     (case ss_tcp (ps_user s) of
        None \<Rightarrow> False
      | Some tc \<Rightarrow>
          let inbound = TCPConnection_inbound_stream tc
          in \<not> ByteStream_buffer_empty inbound \<or>
             (ByteStream_eof inbound \<or> bs_error inbound) \<and> \<not> ss_inbound_shutdown (ps_user s))"

text \<open>Rule 4: segments for the network.\<close>

fun TCPSpongeSocket_send_loop :: "'d adapter_ops \<Rightarrow> tcp_segment list \<Rightarrow> tcp_connection \<Rightarrow> 'd socket_state \<Rightarrow> 'd socket_state outcome" where
  "TCPSpongeSocket_send_loop ops [] tc s = Inr s"
| "TCPSpongeSocket_send_loop ops (seg # segments_out) tc s =
     bindE (ao_write ops (ss_calls (ps_user s)) (ps_fds s ADAPTER) (ss_adapter (ps_user s)) seg) (\<lambda>(w, d).
     let tc = tc\<lparr>tc_segments_out := segments_out\<rparr>
     in TCPSpongeSocket_send_loop ops segments_out tc
          (set_fd ADAPTER w (count_call (set_user s ((ps_user s)
             \<lparr>ss_tcp := Some tc, ss_adapter := d, ss_sent := ss_sent (ps_user s) @ [seg]\<rparr>)))))"

definition TCPSpongeSocket_send :: "'d adapter_ops \<Rightarrow> 'd socket_state \<Rightarrow> 'd socket_state outcome" where
  "TCPSpongeSocket_send ops s =
     bindE (deref s) (\<lambda>tc. TCPSpongeSocket_send_loop ops (tc_segments_out tc) tc s)"

definition TCPSpongeSocket_send_interest :: "'d socket_state \<Rightarrow> bool" where
  "TCPSpongeSocket_send_interest s =
     (case ss_tcp (ps_user s) of None \<Rightarrow> False | Some tc \<Rightarrow> tc_segments_out tc \<noteq> [])"

text \<open>\<^verbatim>\<open>_initialize_TCP\<close>: a new connection and the four rules.\<close>

definition TCPSpongeSocket_rules :: "'d adapter_ops \<Rightarrow> environment \<Rightarrow> 'd sponge_socket rule list" where
  "TCPSpongeSocket_rules ops os =
     (let rules = EventLoop_add_rule [] ADAPTER In (TCPSpongeSocket_receive ops) TCPSpongeSocket_receive_interest Inr;
          rules = EventLoop_add_rule rules THREAD_DATA In (TCPSpongeSocket_outbound os) TCPSpongeSocket_outbound_interest
                    TCPSpongeSocket_end_outbound;
          rules = EventLoop_add_rule rules THREAD_DATA Out (TCPSpongeSocket_inbound os) TCPSpongeSocket_inbound_interest Inr
      in EventLoop_add_rule rules ADAPTER Out (TCPSpongeSocket_send ops) TCPSpongeSocket_send_interest Inr)"

definition TCPSpongeSocket_initialize_TCP ::
  "'d adapter_ops \<Rightarrow> environment \<Rightarrow> tcp_config \<Rightarrow> u32 \<Rightarrow> 'd socket_state \<Rightarrow> 'd sponge_socket rule list \<times> 'd socket_state" where
  "TCPSpongeSocket_initialize_TCP ops os config random_isn s =
     (TCPSpongeSocket_rules ops os, set_tcp s (TCPConnection_new config random_isn))"

section \<open>The loop\<close>

text \<open>One iteration of \<^verbatim>\<open>_tcp_loop\<close>; the first component tells whether the loop goes on.\<close>

definition TCPSpongeSocket_iteration ::
  "'d adapter_ops \<Rightarrow> environment \<Rightarrow> 'd sponge_socket rule list \<Rightarrow> 'd socket_state \<Rightarrow> size_t \<Rightarrow>
   (bool \<times> 'd sponge_socket rule list \<times> 'd socket_state \<times> size_t) outcome" where
  "TCPSpongeSocket_iteration ops os rules s base_time =
     bindE (EventLoop_wait_next_event (os_poll (answers os s) (ss_calls (ps_user s))) rules s (sint TCP_TICK_MS)) (\<lambda>(ret, rules, s).
     let k = ss_calls (ps_user s); s = count_call s
     in if ret = Exit \<or> os_abort (answers os s) k then Inr (False, rules, s, base_time)
        else bindE (optional_value s) (\<lambda>tc.
          if TCPConnection_active tc then
            let next_time = os_timestamp (answers os s) k
            in bindE (TCPConnection_tick tc (next_time - base_time)) (\<lambda>tc.
               bindE (ao_tick ops k (ps_fds s ADAPTER) (ss_adapter (ps_user s)) (next_time - base_time)) (\<lambda>(w, d).
                 Inr (True, rules, set_fd ADAPTER w (set_user s ((ps_user s)\<lparr>ss_tcp := Some tc, ss_adapter := d\<rparr>)), next_time)))
          else Inr (True, rules, s, base_time)))"

text \<open>The loop need not end: \<open>None\<close> is a run that goes on for ever.\<close>

partial_function (option) TCPSpongeSocket_tcp_loop_from ::
  "'d adapter_ops \<Rightarrow> environment \<Rightarrow> ('d socket_state \<Rightarrow> bool) \<Rightarrow> 'd sponge_socket rule list \<Rightarrow> 'd socket_state \<Rightarrow> size_t \<Rightarrow>
   ('d sponge_socket rule list \<times> 'd socket_state) outcome option" where
  "TCPSpongeSocket_tcp_loop_from ops os condition rules s base_time =
     (if condition s then
        case TCPSpongeSocket_iteration ops os rules s base_time of
          Inl e \<Rightarrow> Some (Inl e)
        | Inr (continue, rules, s, base_time) \<Rightarrow>
            if continue then TCPSpongeSocket_tcp_loop_from ops os condition rules s base_time
            else Some (Inr (rules, s))
      else Some (Inr (rules, s)))"

definition TCPSpongeSocket_tcp_loop ::
  "'d adapter_ops \<Rightarrow> environment \<Rightarrow> ('d socket_state \<Rightarrow> bool) \<Rightarrow> 'd sponge_socket rule list \<Rightarrow> 'd socket_state \<Rightarrow>
   ('d sponge_socket rule list \<times> 'd socket_state) outcome option" where
  "TCPSpongeSocket_tcp_loop ops os condition rules s =
     TCPSpongeSocket_tcp_loop_from ops os condition rules (count_call s) (os_timestamp (answers os s) (ss_calls (ps_user s)))"

section \<open>Construction, connect, accept and the thread\<close>

definition AF_UNIX :: int where
  "AF_UNIX = 1"

definition socket_pair_helper :: "(int \<Rightarrow> int \<Rightarrow> (nat \<times> nat) syscall) \<Rightarrow> int \<Rightarrow> (fd_wrapper \<times> fd_wrapper) outcome" where
  "socket_pair_helper socketpair type' =
     (let r = socketpair AF_UNIX type'
      in bindE (SystemCall ''socketpair'' (syscall_value (\<lambda>_. 0) r) (syscall_errno r) 0) (\<lambda>_.
           case r of
             Inl _ \<Rightarrow> Inl (Undefined ''uninitialised result'')
           | Inr (fd0, fd1) \<Rightarrow>
               bindE (FDWrapper_new (int fd0)) (\<lambda>w0. bindE (FDWrapper_new (int fd1)) (\<lambda>w1. Inr (w0, w1)))))"

definition TCPSpongeSocket_new ::
  "(int \<Rightarrow> int \<Rightarrow> (nat \<times> nat) syscall) \<Rightarrow> (int \<Rightarrow> socket_option \<Rightarrow> (nat \<times> int) syscall) \<Rightarrow> (int \<Rightarrow> nat syscall) \<Rightarrow>
   (int \<Rightarrow> 32 word \<Rightarrow> unit syscall) \<Rightarrow> fd_wrapper \<Rightarrow> 'd \<Rightarrow> 'd socket_state outcome" where
  "TCPSpongeSocket_new socketpair getsockopt getfl setfl adapter_fd datagram_interface =
     bindE (socket_pair_helper socketpair SOCK_STREAM) (\<lambda>(first, second).
     bindE (Socket_of_FileDescriptor getsockopt first AF_UNIX SOCK_STREAM) (\<lambda>owner.
     bindE (Socket_of_FileDescriptor getsockopt second AF_UNIX SOCK_STREAM) (\<lambda>thread_data.
     bindE (FileDescriptor_set_blocking getfl setfl thread_data False) (\<lambda>_.
       Inr \<lparr>ps_fds = (\<lambda>h. if h = THREAD_DATA then thread_data else if h = ADAPTER then adapter_fd else owner),
            ps_user = \<lparr>ss_tcp = None, ss_adapter = datagram_interface, ss_inbound_shutdown = False,
                       ss_outbound_shutdown = False, ss_fully_acked = False, ss_joinable = False, ss_calls = 0,
                       ss_from_owner = [], ss_to_owner = [], ss_sent = []\<rparr>\<rparr>))))"

definition in_state :: "official_state list \<Rightarrow> 'd socket_state \<Rightarrow> bool" where
  "in_state sts s =
     (case ss_tcp (ps_user s) of
        None \<Rightarrow> False
      | Some tc \<Rightarrow> list_ex (\<lambda>st. TCPState_eq (TCPConnection_state tc) (TCPState_of_official st)) sts)"

text \<open>The thread is started: from here on \<^verbatim>\<open>_tcp_main\<close> runs.\<close>

definition start_thread :: "'d sponge_socket rule list \<times> 'd socket_state \<Rightarrow> 'd sponge_socket rule list \<times> 'd socket_state" where
  "start_thread = (\<lambda>(rules, s). (rules, set_user s ((ps_user s)\<lparr>ss_joinable := True\<rparr>)))"

definition TCPSpongeSocket_connect ::
  "'d adapter_ops \<Rightarrow> environment \<Rightarrow> u32 \<Rightarrow> 'd socket_state \<Rightarrow> tcp_config \<Rightarrow> fd_adapter_config \<Rightarrow>
   ('d sponge_socket rule list \<times> 'd socket_state) outcome option" where
  "TCPSpongeSocket_connect ops os random_isn s c_tcp c_ad =
     (if ss_tcp (ps_user s) \<noteq> None
      then Some (Inl (Runtime_error ''connect() with TCPConnection already initialized''))
      else
        let (rules, s) = TCPSpongeSocket_initialize_TCP ops os c_tcp random_isn s;
            s = set_user s ((ps_user s)\<lparr>ss_adapter := ao_set_config ops (ss_adapter (ps_user s)) c_ad\<rparr>)
        in case bindE (deref s) TCPConnection_connect of
             Inl e \<Rightarrow> Some (Inl e)
           | Inr tc \<Rightarrow>
               let s = set_tcp s tc; state = TCPConnection_state tc; expected_state = TCPState_of_official SYN_SENT
               in if \<not> TCPState_eq state expected_state
                  then Some (Inl (Runtime_error (''After TCPConnection::connect(), state was '' @ TCPState_name state @
                         '' but expected '' @ TCPState_name expected_state)))
                  else map_option (map_sum (\<lambda>e. e) start_thread)
                         (TCPSpongeSocket_tcp_loop ops os (in_state [SYN_SENT]) rules s))"

definition TCPSpongeSocket_listen_and_accept ::
  "'d adapter_ops \<Rightarrow> environment \<Rightarrow> u32 \<Rightarrow> 'd socket_state \<Rightarrow> tcp_config \<Rightarrow> fd_adapter_config \<Rightarrow>
   ('d sponge_socket rule list \<times> 'd socket_state) outcome option" where
  "TCPSpongeSocket_listen_and_accept ops os random_isn s c_tcp c_ad =
     (if ss_tcp (ps_user s) \<noteq> None
      then Some (Inl (Runtime_error ''listen_and_accept() with TCPConnection already initialized''))
      else
        let (rules, s) = TCPSpongeSocket_initialize_TCP ops os c_tcp random_isn s;
            s = set_user s ((ps_user s)\<lparr>ss_adapter :=
                  ao_set_listening ops (ao_set_config ops (ss_adapter (ps_user s)) c_ad) True\<rparr>)
        in map_option (map_sum (\<lambda>e. e) start_thread)
             (TCPSpongeSocket_tcp_loop ops os (in_state [LISTEN, SYN_RCVD, SYN_SENT]) rules s))"

text \<open>
  \<^verbatim>\<open>_tcp.reset()\<close> runs the destructor of the connection; what it puts into the queue is destroyed with it.
\<close>

definition TCPSpongeSocket_tcp_main ::
  "'d adapter_ops \<Rightarrow> environment \<Rightarrow> 'd sponge_socket rule list \<Rightarrow> 'd socket_state \<Rightarrow> 'd socket_state outcome option" where
  "TCPSpongeSocket_tcp_main ops os rules s =
     (if ss_tcp (ps_user s) = None then Some (Inl (Runtime_error ''no TCP''))
      else map_option (\<lambda>r. bindE r (\<lambda>(rules, s).
             bindE (Socket_shutdown (os_shutdown (answers os s) (ss_calls (ps_user s))) (ps_fds s OWNER) SHUT_RDWR) (\<lambda>w.
             let s = set_fd OWNER w (count_call s)
             in bindE (optional_value s) (\<lambda>tc. Inr (set_user s ((ps_user s)\<lparr>ss_tcp := None\<rparr>))))))
             (TCPSpongeSocket_tcp_loop ops os (\<lambda>_. True) rules s))"

text \<open>
  The owner waits for the thread, or aborts it.  The members the thread uses are its own, so the rest of
  its run can be taken after the call of the owner; an exception in the thread ends the program.
\<close>

definition TCPSpongeSocket_wait_until_closed ::
  "'d adapter_ops \<Rightarrow> environment \<Rightarrow> 'd sponge_socket rule list \<Rightarrow> 'd socket_state \<Rightarrow> 'd socket_state outcome option" where
  "TCPSpongeSocket_wait_until_closed ops os rules s =
     (case Socket_shutdown (os_shutdown (answers os s) (ss_calls (ps_user s))) (ps_fds s OWNER) SHUT_RDWR of
        Inl e \<Rightarrow> Some (Inl e)
      | Inr w \<Rightarrow>
          let s = set_fd OWNER w (count_call s)
          in if ss_joinable (ps_user s)
             then map_option (map_sum (\<lambda>e. e) (\<lambda>s. set_user s ((ps_user s)\<lparr>ss_joinable := False\<rparr>)))
                    (TCPSpongeSocket_tcp_main ops os rules s)
             else Some (Inr s))"

definition TCPSpongeSocket_destroy ::
  "'d adapter_ops \<Rightarrow> environment \<Rightarrow> 'd sponge_socket rule list \<Rightarrow> 'd socket_state \<Rightarrow> 'd socket_state outcome option" where
  "TCPSpongeSocket_destroy ops os rules s =
     (if ss_joinable (ps_user s)
      then map_option (map_sum (\<lambda>e. e) (\<lambda>s. set_user s ((ps_user s)\<lparr>ss_joinable := False\<rparr>)))
             (TCPSpongeSocket_tcp_main ops (\<lambda>b. (os b)\<lparr>os_abort := \<lambda>_. True\<rparr>) rules s)
      else Some (Inr s))"

section \<open>The sockets of the applications\<close>

text \<open>The specialisation for \<^verbatim>\<open>TCPOverIPv4OverTunFdAdapter\<close>, with the reads and writes of its descriptor.\<close>

definition TCPOverIPv4SpongeSocket_ops :: "resolver \<Rightarrow> name_lookup \<Rightarrow> kernel \<Rightarrow> fd_adapter adapter_ops" where
  "TCPOverIPv4SpongeSocket_ops getaddrinfo getnameinfo os =
     \<lparr>ao_read = (\<lambda>k w a.
        bindE (FileDescriptor_read (os_read os k) w (- 1)) (\<lambda>(w, data).
        bindE (TCPOverIPv4OverTunFdAdapter_read getaddrinfo getnameinfo a data) (\<lambda>(a, seg). Inr (w, a, seg)))),
      ao_write = (\<lambda>k w a seg.
        bindE (TCPOverIPv4OverTunFdAdapter_write getnameinfo a seg) (\<lambda>(seg, data).
        bindE (FileDescriptor_write (os_writev os k) w (BufferViewList_of_BufferList data) True) (\<lambda>(w, _, _). Inr (w, a)))),
      ao_tick = (\<lambda>k w a ms. Inr (w, FdAdapterBase_tick a ms)),
      ao_set_config = (\<lambda>a c. a\<lparr>fa_cfg := c\<rparr>),
      ao_set_listening = FdAdapterBase_set_listening\<rparr>"

text \<open>
  The specialisation for \<^verbatim>\<open>TCPOverIPv4OverEthernetAdapter\<close>: the frames that a call leaves are written to
  the TAP device, one after the other; \<open>j\<close> numbers the system calls of one such call.
\<close>

fun write_frames ::
  "(int \<Rightarrow> nat \<Rightarrow> (bytes \<times> size_t) list \<Rightarrow> nat syscall) \<Rightarrow> nat \<Rightarrow> fd_wrapper \<Rightarrow> buffer_list list \<Rightarrow> fd_wrapper outcome" where
  "write_frames writev j w [] = Inr w"
| "write_frames writev j w (frame # frames) =
     bindE (FileDescriptor_write (\<lambda>fd i. writev fd (j + i)) w (BufferViewList_of_BufferList frame) True) (\<lambda>(w', _, _).
       write_frames writev (j + unat (fdw_write_count w' - fdw_write_count w)) w' frames)"

definition TCPOverIPv4OverEthernetSpongeSocket_ops :: "resolver \<Rightarrow> name_lookup \<Rightarrow> kernel \<Rightarrow> ethernet_adapter adapter_ops" where
  "TCPOverIPv4OverEthernetSpongeSocket_ops getaddrinfo getnameinfo os =
     \<lparr>ao_read = (\<lambda>k w a.
        bindE (FileDescriptor_read (os_read os k) w (- 1)) (\<lambda>(w, data).
        bindE (TCPOverIPv4OverEthernetAdapter_read getaddrinfo getnameinfo a data) (\<lambda>(a, frames, seg).
        bindE (write_frames (os_writev os k) 0 w frames) (\<lambda>w. Inr (w, a, seg))))),
      ao_write = (\<lambda>k w a seg.
        bindE (TCPOverIPv4OverEthernetAdapter_write getnameinfo a seg) (\<lambda>(a, frames, seg).
        bindE (write_frames (os_writev os k) 0 w frames) (\<lambda>w. Inr (w, a)))),
      ao_tick = (\<lambda>k w a ms.
        let (a, frames) = TCPOverIPv4OverEthernetAdapter_tick a ms
        in bindE (write_frames (os_writev os k) 0 w frames) (\<lambda>w. Inr (w, a))),
      ao_set_config = (\<lambda>a c. a\<lparr>ea_base := (ea_base a)\<lparr>fa_cfg := c\<rparr>\<rparr>),
      ao_set_listening = (\<lambda>a l. a\<lparr>ea_base := FdAdapterBase_set_listening (ea_base a) l\<rparr>)\<rparr>"

text \<open>The configuration of \<^verbatim>\<open>connect\<close>: a random source port, and a short timeout.\<close>

definition multiplexer_config :: "resolver \<Rightarrow> string \<Rightarrow> u32 \<Rightarrow> address \<Rightarrow> fd_adapter_config outcome" where
  "multiplexer_config getaddrinfo source_ip random_value destination =
     bindE (FdAdapterConfig_new getaddrinfo) (\<lambda>config.
     bindE (Address_of_names getaddrinfo source_ip (decimal (unat (ucast random_value :: u16)))) (\<lambda>source.
       Inr (config\<lparr>ac_source := source, ac_destination := destination\<rparr>)))"

definition CS144TCPSocket_connect ::
  "resolver \<Rightarrow> name_lookup \<Rightarrow> kernel \<Rightarrow> environment \<Rightarrow> u32 \<Rightarrow> u32 \<Rightarrow> fd_adapter socket_state \<Rightarrow> address \<Rightarrow>
   (fd_adapter sponge_socket rule list \<times> fd_adapter socket_state) outcome option" where
  "CS144TCPSocket_connect getaddrinfo getnameinfo tun os random_value random_isn s address =
     (case multiplexer_config getaddrinfo ''169.254.144.9'' random_value address of
        Inl e \<Rightarrow> Some (Inl e)
      | Inr config \<Rightarrow>
          TCPSpongeSocket_connect (TCPOverIPv4SpongeSocket_ops getaddrinfo getnameinfo tun) os random_isn s
            (TCPConfig_default\<lparr>rt_timeout := 100\<rparr>) config)"

definition LOCAL_TAP_IP_ADDRESS :: string where
  "LOCAL_TAP_IP_ADDRESS = ''169.254.10.9''"

definition LOCAL_TAP_NEXT_HOP_ADDRESS :: string where
  "LOCAL_TAP_NEXT_HOP_ADDRESS = ''169.254.10.1''"

definition random_private_ethernet_address :: "(nat \<Rightarrow> u32) \<Rightarrow> ethernet_address" where
  "random_private_ethernet_address random_device =
     (let addr = map (\<lambda>i. ucast (random_device i)) [0..<6];
          addr = addr[0 := addr ! 0 OR 0x02]
      in addr[0 := addr ! 0 AND 0xfe])"

definition FullStackSocket_adapter ::
  "resolver \<Rightarrow> fd_adapter_config \<Rightarrow> (nat \<Rightarrow> u32) \<Rightarrow> (ethernet_adapter \<times> buffer_list list) outcome" where
  "FullStackSocket_adapter getaddrinfo config random_device =
     bindE (Address_of_names getaddrinfo LOCAL_TAP_IP_ADDRESS ''0'') (\<lambda>ip_address.
     bindE (Address_of_names getaddrinfo LOCAL_TAP_NEXT_HOP_ADDRESS ''0'') (\<lambda>next_hop.
       Inr (TCPOverIPv4OverEthernetAdapter_new config (random_private_ethernet_address random_device) ip_address next_hop)))"

text \<open>The constructor writes the frame of the adapter to the TAP device.\<close>

definition FullStackSocket_new ::
  "resolver \<Rightarrow> (nat \<Rightarrow> u32) \<Rightarrow> fd_wrapper outcome \<Rightarrow> (int \<Rightarrow> nat \<Rightarrow> (bytes \<times> size_t) list \<Rightarrow> nat syscall) \<Rightarrow>
   (int \<Rightarrow> int \<Rightarrow> (nat \<times> nat) syscall) \<Rightarrow> (int \<Rightarrow> socket_option \<Rightarrow> (nat \<times> int) syscall) \<Rightarrow> (int \<Rightarrow> nat syscall) \<Rightarrow>
   (int \<Rightarrow> 32 word \<Rightarrow> unit syscall) \<Rightarrow> ethernet_adapter socket_state outcome" where
  "FullStackSocket_new getaddrinfo random_device tap writev socketpair getsockopt getfl setfl =
     bindE tap (\<lambda>tap.
     bindE (FdAdapterConfig_new getaddrinfo) (\<lambda>config.
     bindE (FullStackSocket_adapter getaddrinfo config random_device) (\<lambda>(adapter, frames).
     bindE (write_frames writev 0 tap frames) (\<lambda>tap.
       TCPSpongeSocket_new socketpair getsockopt getfl setfl tap adapter))))"

definition FullStackSocket_connect ::
  "resolver \<Rightarrow> name_lookup \<Rightarrow> kernel \<Rightarrow> environment \<Rightarrow> u32 \<Rightarrow> u32 \<Rightarrow> ethernet_adapter socket_state \<Rightarrow> address \<Rightarrow>
   (ethernet_adapter sponge_socket rule list \<times> ethernet_adapter socket_state) outcome option" where
  "FullStackSocket_connect getaddrinfo getnameinfo tap os random_value random_isn s address =
     (case multiplexer_config getaddrinfo LOCAL_TAP_IP_ADDRESS random_value address of
        Inl e \<Rightarrow> Some (Inl e)
      | Inr config \<Rightarrow>
          TCPSpongeSocket_connect (TCPOverIPv4OverEthernetSpongeSocket_ops getaddrinfo getnameinfo tap) os random_isn s
            (TCPConfig_default\<lparr>rt_timeout := 100\<rparr>) config)"

end
