(* ===== verification/Tcp_Network.thy ===== *)
theory Tcp_Network
  imports Connecting
begin

text \<open>
  Two endpoints and a network between them.  The network may lose, duplicate, delay and reorder
  segments but not forge them.  Whatever the two applications do, each reads a prefix of what
  the other wrote, and an endpoint that has seen its FIN acknowledged knows that everything it
  wrote has arrived.
\<close>

section \<open>Endpoints and their steps\<close>

text \<open>
  An endpoint is a connection together with what its application has written and read and
  what it has put on the network.
\<close>

record endpoint =
  ep_conn :: tcp_connection
  ep_written :: bytes
  ep_read :: bytes
  ep_sent :: "tcp_segment list"

definition endpoint_new :: "tcp_config \<Rightarrow> u32 \<Rightarrow> endpoint" where
  "endpoint_new cfg r = \<lparr>ep_conn = TCPConnection_new cfg r, ep_written = [], ep_read = [], ep_sent = []\<rparr>"

definition endpoint_isn :: "tcp_config \<Rightarrow> u32 \<Rightarrow> wrapping_int32" where
  "endpoint_isn cfg r = (case fixed_isn cfg of Some i \<Rightarrow> i | None \<Rightarrow> WrappingInt32 r)"

text \<open>
  The steps, where \<open>net\<close> is what may arrive.  The application does not write after it has ended
  its stream, and ends it only once the peer's SYN has arrived, as \<^verbatim>\<open>TCPSpongeSocket\<close> ensures.
\<close>

inductive endpoint_step :: "tcp_segment set \<Rightarrow> endpoint \<Rightarrow> endpoint \<Rightarrow> bool" for net :: "tcp_segment set" where
  connect: "TCPConnection_connect (ep_conn e) = Inr tc \<Longrightarrow> endpoint_step net e (e\<lparr>ep_conn := tc\<rparr>)"
| write_data: "fits data \<Longrightarrow> \<not> bs_is_ended (ts_stream (tc_sender (ep_conn e))) \<Longrightarrow>
    TCPConnection_write (ep_conn e) data = Inr (tc, n) \<Longrightarrow>
    endpoint_step net e (e\<lparr>ep_conn := tc, ep_written := ep_written e @ take (unat n) data\<rparr>)"
| end_input: "tr_have_SYN (tc_receiver (ep_conn e)) \<Longrightarrow>
    TCPConnection_end_input_stream (ep_conn e) = Inr tc \<Longrightarrow> endpoint_step net e (e\<lparr>ep_conn := tc\<rparr>)"
| time: "TCPConnection_tick (ep_conn e) ms = Inr tc \<Longrightarrow> endpoint_step net e (e\<lparr>ep_conn := tc\<rparr>)"
| receive: "seg \<in> net \<Longrightarrow> TCPConnection_segment_received (ep_conn e) seg = Inr tc \<Longrightarrow>
    endpoint_step net e (e\<lparr>ep_conn := tc\<rparr>)"
| read: "ByteStream_read (TCPConnection_inbound_stream (ep_conn e)) n = (st, x) \<Longrightarrow>
    endpoint_step net e (e\<lparr>ep_conn := TCPConnection_set_inbound_stream (ep_conn e) st, ep_read := ep_read e @ x\<rparr>)"
| transmit: "tc_segments_out (ep_conn e) = seg # segs \<Longrightarrow>
    endpoint_step net e (e\<lparr>ep_conn := (ep_conn e)\<lparr>tc_segments_out := segs\<rparr>, ep_sent := ep_sent e @ [seg]\<rparr>)"
| destroy: "endpoint_step net e (e\<lparr>ep_conn := TCPConnection_destroy (ep_conn e)\<rparr>)"

text \<open>A run of two endpoints: each sees any of the segments the other has sent, any number of times.\<close>

inductive network :: "tcp_config \<Rightarrow> u32 \<Rightarrow> tcp_config \<Rightarrow> u32 \<Rightarrow> endpoint \<Rightarrow> endpoint \<Rightarrow> bool"
  for cfgA :: tcp_config and rA :: u32 and cfgB :: tcp_config and rB :: u32 where
  start: "network cfgA rA cfgB rB (endpoint_new cfgA rA) (endpoint_new cfgB rB)"
| left: "network cfgA rA cfgB rB a b \<Longrightarrow> endpoint_step (set (ep_sent b)) a a' \<Longrightarrow> network cfgA rA cfgB rB a' b"
| right: "network cfgA rA cfgB rB a b \<Longrightarrow> endpoint_step (set (ep_sent a)) b b' \<Longrightarrow> network cfgA rA cfgB rB a b'"

lemma network_sym: "network cfgA rA cfgB rB a b \<Longrightarrow> network cfgB rB cfgA rA b a"
  by (induction rule: network.induct) (auto intro: network.intros)

section \<open>The invariant of an endpoint\<close>

text \<open>
  \<open>S\<close> is any stream that extends what has been written so far, and is equal to it once the input
  has ended: what holds for all of them holds for what has really been written.
\<close>

definition extends :: "endpoint \<Rightarrow> bytes \<Rightarrow> bool" where
  "extends e S \<longleftrightarrow>
     (\<exists>rest. S = ep_written e @ rest \<and> (bs_is_ended (ts_stream (tc_sender (ep_conn e))) \<longrightarrow> rest = []))"

definition endpoint_ok ::
  "tcp_config \<Rightarrow> bytes \<Rightarrow> wrapping_int32 \<Rightarrow> bytes \<Rightarrow> wrapping_int32 \<Rightarrow> endpoint \<Rightarrow> bool" where
  "endpoint_ok cfg S isn T isn' e \<longleftrightarrow>
     connects S isn T isn' (ep_read e) (ep_conn e) \<and> tc_cfg (ep_conn e) = cfg \<and>
     unat (bs_written_length (ts_stream (tc_sender (ep_conn e)))) = length (ep_written e) \<and>
     (\<forall>seg \<in> set (ep_sent e). carries S isn seg \<and> acknowledges isn' (ack_position (tc_receiver (ep_conn e))) seg)"

lemma endpoint_okD:
  assumes "endpoint_ok cfg S isn T isn' e"
  shows "sends S isn (tc_sender (ep_conn e))"
    "receives T isn' (recv_capacity cfg) (ep_read e) (tc_receiver (ep_conn e))"
    "unat (bs_written_length (ts_stream (tc_sender (ep_conn e)))) = length (ep_written e)"
  using assms by (auto simp: endpoint_ok_def connects_def)

lemma endpoint_ok_frame:
  assumes "endpoint_ok cfg S isn T isn' e" "connects S isn T isn' (ep_read e) tc" "connection_frame (ep_conn e) tc"
  shows "endpoint_ok cfg S isn T isn' (e\<lparr>ep_conn := tc\<rparr>)"
  using assms by (auto simp: endpoint_ok_def connection_frame_def intro: acknowledges_mono)

lemma endpoint_ok_receive:
  assumes "endpoint_ok cfg S isn T isn' e" "connects S isn T isn' (ep_read e) tc" "receive_frame isn seg (ep_conn e) tc"
  shows "endpoint_ok cfg S isn T isn' (e\<lparr>ep_conn := tc\<rparr>)"
  using assms by (auto simp: endpoint_ok_def receive_frame_def intro: acknowledges_mono)


text \<open>What a step does to an endpoint, seen by its peer.\<close>

definition step_frame :: "wrapping_int32 \<Rightarrow> tcp_segment set \<Rightarrow> endpoint \<Rightarrow> endpoint \<Rightarrow> bool" where
  "step_frame isn net e e' \<longleftrightarrow>
     (bs_is_ended (ts_stream (tc_sender (ep_conn e))) \<longrightarrow> bs_is_ended (ts_stream (tc_sender (ep_conn e')))) \<and>
     ack_position (tc_receiver (ep_conn e)) \<le> ack_position (tc_receiver (ep_conn e')) \<and>
     (let n = ts_next_ackno (tc_sender (ep_conn e')) in
      n = ts_next_ackno (tc_sender (ep_conn e)) \<or>
      (\<exists>seg \<in> net. ack (seg_header seg) \<and> wrap n isn = ackno (seg_header seg)))"

lemma connection_step_frame:
  "connection_frame (ep_conn e) tc \<Longrightarrow> step_frame isn net e (e\<lparr>ep_conn := tc\<rparr>)"
  by (simp add: step_frame_def connection_frame_def)

lemma endpoint_write_ok:
  assumes ok: "endpoint_ok cfg S isn T isn' e" and S: "length S + 2 ^ 33 < 2 ^ 64"
    and data: "fits data" "\<not> bs_is_ended (ts_stream (tc_sender (ep_conn e)))"
    and wr: "TCPConnection_write (ep_conn e) data = Inr (tc, n)"
    and S': "S = (ep_written e @ take (unat n) data) @ rest"
  shows "endpoint_ok cfg S isn T isn' (e\<lparr>ep_conn := tc, ep_written := ep_written e @ take (unat n) data\<rparr>) \<and>
    step_frame isn net e (e\<lparr>ep_conn := tc, ep_written := ep_written e @ take (unat n) data\<rparr>)"
proof -
  let ?sn = "tc_sender (ep_conn e)"
  have inv: "connects S isn T isn' (ep_read e) (ep_conn e)"
    and W: "unat (bs_written_length (ts_stream ?sn)) = length (ep_written e)"
    using ok by (simp_all add: endpoint_ok_def)
  have n: "n = snd (ByteStream_write (ts_stream ?sn) data)"
    using wr by (auto simp: TCPConnection_write_def Let_def split_def bindE_Inr_iff)
  have "substring_of S (take (unat n) data) (length (ep_written e)) False"
    by (simp add: substring_of_def S' min_def)
  from connects_write [OF inv S data n, unfolded W, OF this] wr
  have tc: "connects S isn T isn' (ep_read e) tc" "tc_cfg tc = tc_cfg (ep_conn e)"
    "ack_position (tc_receiver (ep_conn e)) \<le> ack_position (tc_receiver tc)"
    "ts_next_ackno (tc_sender tc) = ts_next_ackno ?sn"
    "bs_written_length (ts_stream (tc_sender tc)) = bs_written_length (ts_stream ?sn) + n"
    by (simp_all add: connection_frame_def)
  have "ByteStream_wf (ts_stream ?sn)"
    using inv sendsD(2) by (auto simp: connects_def)
  then have "unat n \<le> length data"
    using ByteStream_write_wf(2) [OF _ data(1)] n by simp
  then have "unat (bs_written_length (ts_stream ?sn) + n) = length (ep_written e) + unat n"
    using W S S' by (subst unat_add_nowrap) simp_all
  then show ?thesis
    using ok tc data(2) \<open>unat n \<le> length data\<close>
    by (auto simp: endpoint_ok_def step_frame_def Let_def intro: acknowledges_mono)
qed

lemma end_input_ended:
  "TCPConnection_end_input_stream tc = Inr tc' \<Longrightarrow> bs_is_ended (ts_stream (tc_sender tc'))"
  by (auto simp: TCPConnection_end_input_stream_def Let_def bindE_Inr_iff sender_frame_def stream_kept_def
      ByteStream_end_input_def dest!: fill_window_frame)

lemma endpoint_step_ok:
  assumes step: "endpoint_step net e e'" and ok: "endpoint_ok cfg S isn T isn' e"
    and S: "length S + 2 ^ 33 < 2 ^ 64" and T: "length T + 1 < 2 ^ 31" "length T + unat (recv_capacity cfg) < 2 ^ 64"
    and net: "\<forall>seg \<in> net. carries T isn' seg" and ext: "extends e' S" "extends e S"
  shows "endpoint_ok cfg S isn T isn' e' \<and> step_frame isn net e e'"
proof -
  have inv: "connects S isn T isn' (ep_read e) (ep_conn e)" and cfg: "tc_cfg (ep_conn e) = cfg"
    using ok by (simp_all add: endpoint_ok_def)
  note frame = endpoint_ok_frame [OF ok] connection_step_frame
  from step ext(1) show ?thesis
  proof cases
    case (connect tc)
    then show ?thesis
      using connects_connect [OF inv S] by (simp add: frame)
  next
    case (write_data data tc n)
    then show ?thesis
      using endpoint_write_ok [OF ok S write_data(2-4)] ext(1) by (auto simp: extends_def)
  next
    case (end_input tc)
    have "S = ep_written e"
      using ext(1) end_input(1) end_input_ended [OF end_input(3)] by (auto simp: extends_def)
    then show ?thesis
      using connects_end_input_stream [OF inv S _ end_input(2)] end_input ok
      by (auto simp: endpoint_ok_def step_frame_def connection_frame_def ByteStream_end_input_def
          intro: acknowledges_mono)
  next
    case (time ms tc)
    then show ?thesis
      using connects_tick [OF inv, of ms] by (simp add: frame)
  next
    case (receive seg tc)
    then show ?thesis
      using connects_segment_received [OF inv S _ T(1), of seg] net endpoint_ok_receive [OF ok]
      by (auto simp: step_frame_def receive_frame_def)
  next
    case (read n st x)
    then show ?thesis
      using connects_read [OF inv, of n] T(2) cfg ok
      by (auto simp: endpoint_ok_def step_frame_def connection_frame_def intro: acknowledges_mono)
  next
    case (transmit seg segs)
    then show ?thesis
      using ok by (auto simp: endpoint_ok_def step_frame_def connects_def)
  next
    case destroy
    then show ?thesis
      using connects_abort [OF inv] ok by (simp add: TCPConnection_destroy_def frame(1) step_frame_def connection_frame_def)
  qed
qed


lemma extends_written: "extends e (ep_written e)"
  by (simp add: extends_def)

lemma endpoint_step_written:
  "endpoint_step net e e' \<Longrightarrow> \<exists>x. ep_written e' = ep_written e @ x \<and>
     (bs_is_ended (ts_stream (tc_sender (ep_conn e))) \<longrightarrow> x = [])"
  by (auto elim!: endpoint_step.cases)

lemma extends_before:
  assumes step: "endpoint_step net e e'" and ok: "endpoint_ok cfg (ep_written e) isn T isn' e"
    and S: "length S + 2 ^ 33 < 2 ^ 64" and T: "length T + 1 < 2 ^ 31" "length T + unat (recv_capacity cfg) < 2 ^ 64"
    and net: "\<forall>seg \<in> net. carries T isn' seg" and ext: "extends e' S"
  shows "extends e S"
proof (cases "bs_is_ended (ts_stream (tc_sender (ep_conn e)))")
  case False
  then show ?thesis
    using endpoint_step_written [OF step] ext by (auto simp: extends_def)
next
  case True
  then have w: "ep_written e' = ep_written e"
    using endpoint_step_written [OF step] by auto
  have "length (ep_written e) \<le> length S"
    using ext w by (auto simp: extends_def)
  then have "step_frame isn net e e'"
    using endpoint_step_ok [OF step ok _ T net] S extends_written [of e] extends_written [of e'] w by simp
  then show ?thesis
    using ext True w by (simp add: extends_def step_frame_def)
qed

section \<open>The invariant of the network\<close>

definition network_ok ::
  "tcp_config \<Rightarrow> u32 \<Rightarrow> tcp_config \<Rightarrow> u32 \<Rightarrow> bytes \<Rightarrow> bytes \<Rightarrow> endpoint \<Rightarrow> endpoint \<Rightarrow> bool" where
  "network_ok cfgA rA cfgB rB S T a b \<longleftrightarrow>
     endpoint_ok cfgA S (endpoint_isn cfgA rA) T (endpoint_isn cfgB rB) a \<and>
     endpoint_ok cfgB T (endpoint_isn cfgB rB) S (endpoint_isn cfgA rA) b \<and>
     unat (ts_next_ackno (tc_sender (ep_conn a))) \<le> ack_position (tc_receiver (ep_conn b)) \<and>
     unat (ts_next_ackno (tc_sender (ep_conn b))) \<le> ack_position (tc_receiver (ep_conn a))"

lemma network_ok_sym: "network_ok cfgA rA cfgB rB S T a b \<Longrightarrow> network_ok cfgB rB cfgA rA T S b a"
  by (simp add: network_ok_def)

definition small :: "tcp_config \<Rightarrow> bytes \<Rightarrow> bool" where
  "small cfg S \<longleftrightarrow> length S + 1 < 2 ^ 31 \<and> length S + unat (recv_capacity cfg) < 2 ^ 64 \<and> recv_capacity cfg \<noteq> 0"

text \<open>An acknowledgment that matches a number in flight is one the peer has really sent.\<close>

lemma acknowledged_received:
  assumes a: "endpoint_ok cfgA S isn T isn' a" and b: "endpoint_ok cfgB T isn' S isn b" and S: "length S + 1 < 2 ^ 31"
    and n: "n = ts_next_ackno (tc_sender (ep_conn a))" "seg \<in> set (ep_sent b)" "ack (seg_header seg)"
      "wrap n isn = ackno (seg_header seg)"
  shows "unat n \<le> ack_position (tc_receiver (ep_conn b))"
proof -
  obtain j where j: "j \<le> ack_position (tc_receiver (ep_conn b))" "ackno (seg_header seg) = wrap (word_of_nat j) isn"
    using b n(2,3) by (auto simp: endpoint_ok_def acknowledges_def)
  have "ack_position (tc_receiver (ep_conn b)) \<le> length S + 2"
    using b by (auto simp: endpoint_ok_def connects_def receives_def tracks_def ack_position_def stream_position_def)
  moreover have "unat n \<le> length S + 2"
    using a sendsD [of S isn "tc_sender (ep_conn a)"] unfolding n(1) by (auto simp: endpoint_ok_def connects_def)
  moreover have "unat (word_of_nat j :: u64) = j"
    using j(1) calculation(1) S by (intro unat_of_nat_eq) simp
  ultimately show ?thesis
    using n(4) j S by (simp add: wrap_eq_wrap_iff)
qed

lemma network_ok_left:
  assumes ok: "\<And>S T. extends a S \<Longrightarrow> extends b T \<Longrightarrow> small cfgB S \<Longrightarrow> small cfgA T \<Longrightarrow> network_ok cfgA rA cfgB rB S T a b"
    and step: "endpoint_step (set (ep_sent b)) a a'"
    and ext: "extends a' S" "extends b T" and small: "small cfgB S" "small cfgA T"
  shows "network_ok cfgA rA cfgB rB S T a' b"
proof -
  have S: "length S + 2 ^ 33 < 2 ^ 64" "length (ep_written a) \<le> length S"
    using small(1) ext(1) endpoint_step_written [OF step] by (auto simp: small_def extends_def)
  have T: "length T + 1 < 2 ^ 31" "length T + unat (recv_capacity cfgA) < 2 ^ 64"
    using small(2) by (simp_all add: small_def)
  have "small cfgB (ep_written a)"
    using small(1) S(2) by (simp add: small_def)
  then have "network_ok cfgA rA cfgB rB (ep_written a) T a b"
    using ok [OF extends_written ext(2) _ small(2)] by simp
  then have "extends a S"
    using extends_before [OF step _ S(1) T _ ext(1)] by (auto simp: network_ok_def endpoint_ok_def)
  then have before: "network_ok cfgA rA cfgB rB S T a b"
    using ok ext small by simp
  then have after: "endpoint_ok cfgA S (endpoint_isn cfgA rA) T (endpoint_isn cfgB rB) a'"
    "step_frame (endpoint_isn cfgA rA) (set (ep_sent b)) a a'"
    using endpoint_step_ok [OF step _ S(1) T _ ext(1) \<open>extends a S\<close>] by (auto simp: network_ok_def endpoint_ok_def)
  show ?thesis
    using before after acknowledged_received [OF after(1)] small(1)
    by (auto simp: network_ok_def step_frame_def small_def Let_def)
qed

lemma network_invariant:
  assumes "network cfgA rA cfgB rB a b"
  shows "extends a S \<Longrightarrow> extends b T \<Longrightarrow> small cfgB S \<Longrightarrow> small cfgA T \<Longrightarrow> network_ok cfgA rA cfgB rB S T a b"
  using assms
proof (induction arbitrary: S T)
  case start
  then show ?case
    by (simp add: network_ok_def endpoint_ok_def endpoint_new_def small_def connects_new endpoint_isn_def)
      (simp add: TCPConnection_new_def TCPSender_new_def ByteStream_new_def)
next
  case (left a b a')
  then show ?case using network_ok_left by blast
next
  case (right a b b')
  then show ?case
    using network_ok_left [of b a cfgA cfgB rB rA b' T S] network_ok_sym by blast
qed

section \<open>An example run\<close>

text \<open>Runs as lists of actions, \<open>True\<close> for an action of the left endpoint.\<close>

datatype action = Connect | Write_data bytes | End_input | Time size_t | Receive nat | Read size_t | Transmit

fun perform :: "tcp_segment list \<Rightarrow> action \<Rightarrow> endpoint \<Rightarrow> endpoint option" where
  "perform sent Connect e =
     (case TCPConnection_connect (ep_conn e) of Inr tc \<Rightarrow> Some (e\<lparr>ep_conn := tc\<rparr>) | Inl _ \<Rightarrow> None)"
| "perform sent (Write_data data) e =
     (if bs_is_ended (ts_stream (tc_sender (ep_conn e))) \<or> 7 < length data then None
      else case TCPConnection_write (ep_conn e) data of
        Inr (tc, n) \<Rightarrow> Some (e\<lparr>ep_conn := tc, ep_written := ep_written e @ take (unat n) data\<rparr>) | Inl _ \<Rightarrow> None)"
| "perform sent End_input e =
     (if \<not> tr_have_SYN (tc_receiver (ep_conn e)) then None
      else case TCPConnection_end_input_stream (ep_conn e) of Inr tc \<Rightarrow> Some (e\<lparr>ep_conn := tc\<rparr>) | Inl _ \<Rightarrow> None)"
| "perform sent (Time ms) e =
     (case TCPConnection_tick (ep_conn e) ms of Inr tc \<Rightarrow> Some (e\<lparr>ep_conn := tc\<rparr>) | Inl _ \<Rightarrow> None)"
| "perform sent (Receive i) e =
     (if i < length sent
      then case TCPConnection_segment_received (ep_conn e) (sent ! i) of Inr tc \<Rightarrow> Some (e\<lparr>ep_conn := tc\<rparr>) | Inl _ \<Rightarrow> None
      else None)"
| "perform sent (Read n) e =
     (case ByteStream_read (TCPConnection_inbound_stream (ep_conn e)) n of
        (st, x) \<Rightarrow> Some (e\<lparr>ep_conn := TCPConnection_set_inbound_stream (ep_conn e) st, ep_read := ep_read e @ x\<rparr>))"
| "perform sent Transmit e =
     (case tc_segments_out (ep_conn e) of
        [] \<Rightarrow> None
      | seg # segs \<Rightarrow> Some (e\<lparr>ep_conn := (ep_conn e)\<lparr>tc_segments_out := segs\<rparr>, ep_sent := ep_sent e @ [seg]\<rparr>))"

fun schedule :: "(bool \<times> action) list \<Rightarrow> endpoint \<times> endpoint \<Rightarrow> (endpoint \<times> endpoint) option" where
  "schedule [] (a, b) = Some (a, b)"
| "schedule ((left, act) # acts) (a, b) =
     (if left then (case perform (ep_sent b) act a of Some a' \<Rightarrow> schedule acts (a', b) | None \<Rightarrow> None)
      else (case perform (ep_sent a) act b of Some b' \<Rightarrow> schedule acts (a, b') | None \<Rightarrow> None))"

lemma perform_step: "perform sent act e = Some e' \<Longrightarrow> endpoint_step (set sent) e e'"
  by (cases act) (auto simp: fits_def not_le intro: endpoint_step.intros endpoint_step.receive [OF nth_mem] split: if_splits sum.splits list.splits prod.splits)

lemma schedule_network:
  "schedule acts (a, b) = Some (a', b') \<Longrightarrow> network cfgA rA cfgB rB a b \<Longrightarrow> network cfgA rA cfgB rB a' b'"
proof (induction acts "(a, b)" arbitrary: a b rule: schedule.induct)
  case (2 left act acts a b)
  then show ?case
    by (auto split: if_splits option.splits dest: perform_step intro: network.left network.right)
qed simp

definition example_config :: "wrapping_int32 \<Rightarrow> tcp_config" where
  "example_config isn = TCPConfig_default\<lparr>fixed_isn := Some isn\<rparr>"

definition example_ends :: "endpoint \<times> endpoint" where
  "example_ends = (endpoint_new (example_config (WrappingInt32 0xffffffff)) 0,
     endpoint_new (example_config (WrappingInt32 100)) 0)"

text \<open>
  A handshake, one byte, and the end of the stream; the segment that completes the handshake is
  lost, and what it would have said arrives with the data.
\<close>

definition example_acts :: "(bool \<times> action) list" where
  "example_acts =
     [(True, Connect), (True, Transmit), (False, Receive 0), (False, Transmit), (True, Receive 0),
      (True, Write_data [7]), (True, End_input), (True, Transmit), (True, Transmit), (True, Transmit),
      (False, Receive 2), (False, Transmit), (False, Receive 3), (False, Transmit), (True, Receive 2), (False, Read 1)]"

lemma example_schedule:
  "case schedule example_acts example_ends of
     None \<Rightarrow> False
   | Some (a, b) \<Rightarrow> TCPSender_current_state (tc_sender (ep_conn a)) = FinAcked \<and> ep_written a = [7] \<and>
       ep_written b = [] \<and> length (ep_sent a) = 4 \<and> length (ep_sent b) = 3 \<and> ep_read b = [7] \<and>
       ByteStream_input_ended (TCPConnection_inbound_stream (ep_conn b))"
  by code_simp

lemma example_network:
  obtains a b where "network (example_config (WrappingInt32 0xffffffff)) 0 (example_config (WrappingInt32 100)) 0 a b"
    "TCPSender_current_state (tc_sender (ep_conn a)) = FinAcked" "ep_written a = [7]" "ep_written b = []"
    "ep_read b = [7]" "ByteStream_input_ended (TCPConnection_inbound_stream (ep_conn b))"
proof -
  obtain a b where ab: "schedule example_acts example_ends = Some (a, b)"
    using example_schedule by (auto split: option.splits)
  have "network (example_config (WrappingInt32 0xffffffff)) 0 (example_config (WrappingInt32 100)) 0 a b"
    by (rule schedule_network [OF ab [unfolded example_ends_def] network.start])
  then show thesis
    using example_schedule [unfolded ab] by (auto intro: that)
qed

lemma example_config_capacity: "recv_capacity (example_config isn) = 64000"
  by (simp add: example_config_def TCPConfig_default_def TCPConfig_DEFAULT_CAPACITY_def)

section \<open>Properties\<close>

text \<open>
  C1. End to end, the bytes arrive as they were written: in every run of two connections over a
  network that loses, duplicates, delays and reorders segments, what the application at \<open>b\<close> has
  read followed by what it can read now is a prefix of what the application at \<open>a\<close> has written,
  and the end of the stream is only signalled after \<open>a\<close> has ended its own.
\<close>

theorem end_to_end_safety:
  assumes "network cfgA rA cfgB rB a b"
    and "length (ep_written a) + 2 < 2 ^ 31" "length (ep_written b) + 2 < 2 ^ 31"
    and "recv_capacity cfgA \<noteq> 0" "unat (recv_capacity cfgA) < 2 ^ 63"
    and "recv_capacity cfgB \<noteq> 0" "unat (recv_capacity cfgB) < 2 ^ 63"
  shows "(\<exists>rest. ep_written a = ep_read b @ bs_buffer (TCPConnection_inbound_stream (ep_conn b)) @ rest) \<and>
    (ByteStream_input_ended (TCPConnection_inbound_stream (ep_conn b)) \<longrightarrow>
       ByteStream_input_ended (ts_stream (tc_sender (ep_conn a))))"
proof
  have rcv: "receives S (endpoint_isn cfgA rA) (recv_capacity cfgB) (ep_read b) (tc_receiver (ep_conn b))"
    if "extends a S" "length S + 1 < 2 ^ 31" for S
    using network_invariant [OF assms(1) that(1) extends_written] that(2) assms
    by (auto simp: network_ok_def small_def dest: endpoint_okD(2))
  have "tracks (ep_written a) (ep_read b) (tr_reassembler (tc_receiver (ep_conn b)))"
    using rcv [OF extends_written] assms(2) by (simp add: receives_def)
  then show "\<exists>rest. ep_written a = ep_read b @ bs_buffer (TCPConnection_inbound_stream (ep_conn b)) @ rest"
    unfolding tracks_def TCPConnection_inbound_stream_def TCPReceiver_stream_out_def
    by (metis append_assoc append_take_drop_id)
  have "ByteStream_input_ended (ts_stream (tc_sender (ep_conn a)))"
    if ended: "ByteStream_input_ended (TCPConnection_inbound_stream (ep_conn b))"
  proof (rule ccontr)
    assume "\<not> ByteStream_input_ended (ts_stream (tc_sender (ep_conn a)))"
    then have "extends a (ep_written a @ [0])"
      by (simp add: extends_def ByteStream_input_ended_def)
    from rcv [OF this] rcv [OF extends_written] assms(2) ended show False
      by (auto simp: receives_def tracks_def TCPConnection_inbound_stream_def ByteStream_input_ended_def)
  qed
  then show "ByteStream_input_ended (TCPConnection_inbound_stream (ep_conn b)) \<longrightarrow>
       ByteStream_input_ended (ts_stream (tc_sender (ep_conn a)))"
    by blast
qed

theorem end_to_end_safety_witness:
  "\<exists>a b. network (example_config (WrappingInt32 0xffffffff)) 0 (example_config (WrappingInt32 100)) 0 a b \<and>
     ep_written a = [7] \<and> ep_read b = [7] \<and> ByteStream_input_ended (ts_stream (tc_sender (ep_conn a)))"
proof (rule example_network)
  fix a b
  assume run: "network (example_config (WrappingInt32 0xffffffff)) 0 (example_config (WrappingInt32 100)) 0 a b"
    and v: "ep_written a = [7]" "ep_written b = []" "ep_read b = [7]"
      "ByteStream_input_ended (TCPConnection_inbound_stream (ep_conn b))"
  show ?thesis
    using end_to_end_safety [OF run] v run by (auto simp: example_config_capacity)
qed

text \<open>
  C2. An acknowledgment means delivery: when the sender of \<open>a\<close> is in its final state, with its
  FIN acknowledged, then everything the application at \<open>a\<close> has written has arrived at \<open>b\<close>, in
  order and complete, and \<open>b\<close> has been told that the stream is at its end.
\<close>

theorem acknowledged_means_delivered:
  assumes "network cfgA rA cfgB rB a b"
    and "length (ep_written a) + 2 < 2 ^ 31" "length (ep_written b) + 2 < 2 ^ 31"
    and "recv_capacity cfgA \<noteq> 0" "unat (recv_capacity cfgA) < 2 ^ 63"
    and "recv_capacity cfgB \<noteq> 0" "unat (recv_capacity cfgB) < 2 ^ 63"
    and "TCPSender_current_state (tc_sender (ep_conn a)) = FinAcked"
  shows "ep_read b @ bs_buffer (TCPConnection_inbound_stream (ep_conn b)) = ep_written a \<and>
    ByteStream_input_ended (TCPConnection_inbound_stream (ep_conn b))"
proof -
  let ?sn = "tc_sender (ep_conn a)" and ?rc = "tc_receiver (ep_conn b)"
  have ok: "network_ok cfgA rA cfgB rB (ep_written a) (ep_written b) a b"
    using network_invariant [OF assms(1) extends_written extends_written] assms by (simp add: small_def)
  then have inv: "sends (ep_written a) (endpoint_isn cfgA rA) ?sn"
    "receives (ep_written a) (endpoint_isn cfgA rA) (recv_capacity cfgB) (ep_read b) ?rc"
    "unat (ts_next_ackno ?sn) \<le> ack_position ?rc"
    "unat (bs_written_length (ts_stream ?sn)) = length (ep_written a)"
    by (auto simp: network_ok_def dest: endpoint_okD)
  have "unat (ts_next_seqno ?sn) = length (ep_written a) + 2" "ts_tracked_count ?sn = 0"
    using assms(8,2) inv(4) unat_add_nowrap [of "bs_written_length (ts_stream ?sn)" 2]
    by (auto simp: TCPSender_current_state_def Let_def TCPSender_next_seqno_absolute_def
        TCPSender_bytes_in_flight_def ByteStream_bytes_written_def split: if_split_asm)
  then have "length (ep_written a) + 2 \<le> ack_position ?rc"
    using sendsD(5,7) [OF inv(1)] inv(3) by simp
  moreover have "stream_position ?rc \<le> length (ep_written a)"
    using inv(2) by (simp add: receives_def tracks_def stream_position_def)
  ultimately have "stream_position ?rc = length (ep_written a)" "ByteStream_input_ended (TCPReceiver_stream_out ?rc)"
    by (auto simp: ack_position_def split: if_split_asm)
  then show ?thesis
    using inv(2) by (simp add: receives_def tracks_def TCPConnection_inbound_stream_def TCPReceiver_stream_out_def
        stream_position_def)
qed

theorem acknowledged_means_delivered_witness:
  "\<exists>a b. network (example_config (WrappingInt32 0xffffffff)) 0 (example_config (WrappingInt32 100)) 0 a b \<and>
     TCPSender_current_state (tc_sender (ep_conn a)) = FinAcked \<and>
     ep_read b @ bs_buffer (TCPConnection_inbound_stream (ep_conn b)) = [7]"
proof (rule example_network)
  fix a b
  assume run: "network (example_config (WrappingInt32 0xffffffff)) 0 (example_config (WrappingInt32 100)) 0 a b"
    and v: "ep_written a = [7]" "ep_written b = []" "TCPSender_current_state (tc_sender (ep_conn a)) = FinAcked"
  show ?thesis
    using acknowledged_means_delivered [OF run] v run by (auto simp: example_config_capacity)
qed

end
