(* ===== verification/Socket_Thread.thy ===== *)
theory Socket_Thread
  imports Sponge_Socket Tcp_Network
begin

text \<open>
  What the thread of a \<^verbatim>\<open>TCPSpongeSocket\<close> does.  Whatever the kernel, the peer and the owner do, what it
  does to its connection are steps of an endpoint of \<^verbatim>\<open>Tcp_Network\<close>; the bytes it takes from and gives
  to the owner are those the endpoint has written and read.
\<close>

section \<open>What every operation keeps\<close>

text \<open>Only \<^verbatim>\<open>end_input_stream\<close> ends the outbound stream, and a SYN that has arrived stays.\<close>

definition keeps :: "tcp_connection \<Rightarrow> tcp_connection \<Rightarrow> bool" where
  "keeps tc tc' \<longleftrightarrow>
     bs_is_ended (ts_stream (tc_sender tc')) = bs_is_ended (ts_stream (tc_sender tc)) \<and>
     (tr_have_SYN (tc_receiver tc) \<longrightarrow> tr_have_SYN (tc_receiver tc'))"

lemma keeps_refl [simp]: "keeps tc tc"
  by (simp add: keeps_def)

lemma keeps_trans: "keeps tc tc' \<Longrightarrow> keeps tc' tc'' \<Longrightarrow> keeps tc tc''"
  by (simp add: keeps_def)

lemma keeps_move [simp]: "keeps tc (TCPConnection_move_to_segments_out tc') = keeps tc tc'"
  by (simp add: keeps_def TCPConnection_move_to_segments_out_def)

lemma keeps_check_close [simp]: "keeps tc (TCPConnection_check_close tc') = keeps tc tc'"
  by (simp add: keeps_def TCPConnection_check_close_def Let_def)

lemma keeps_set_errors [simp]: "keeps tc (TCPConnection_set_errors tc') = keeps tc tc'"
  by (simp add: keeps_def TCPConnection_set_errors_def ByteStream_set_error_def TCPReceiver_set_stream_out_def)

lemma keeps_inbound [simp]: "keeps tc (TCPConnection_set_inbound_stream tc' st) = keeps tc tc'"
  by (simp add: keeps_def TCPConnection_set_inbound_stream_def TCPReceiver_set_stream_out_def)

lemma keeps_connect: "TCPConnection_connect tc = Inr tc' \<Longrightarrow> keeps tc tc'"
  by (auto simp: TCPConnection_connect_def bindE_Inr_iff keeps_def sender_frame_def stream_kept_def dest!: fill_window_frame)

lemma keeps_write: "TCPConnection_write tc data = Inr (tc', n) \<Longrightarrow> keeps tc tc'"
  by (auto simp: TCPConnection_write_def bindE_Inr_iff Let_def split_def keeps_def sender_frame_def stream_kept_def
      ByteStream_write_def dest!: fill_window_frame)

lemma keeps_abort [simp]: "keeps tc (TCPConnection_abort tc') = keeps tc tc'"
  by (simp add: TCPConnection_abort_def Let_def) (simp add: keeps_def TCPConnection_set_errors_def ByteStream_set_error_def TCPReceiver_set_stream_out_def)

lemma keeps_tick: "TCPConnection_tick tc ms = Inr tc' \<Longrightarrow> keeps tc tc'"
  by (auto simp: TCPConnection_tick_def bindE_Inr_iff Let_def sender_frame_def stream_kept_def
      dest!: tick_frame split: if_splits) (simp_all add: keeps_def)

lemma receive_payload_SYN: "TCPReceiver_receive_payload rc i seg = Inr rc' \<Longrightarrow> tr_have_SYN rc' = tr_have_SYN rc"
  by (auto simp: TCPReceiver_receive_payload_def TCPReceiver_set_stream_out_def bindE_Inr_iff Let_def split: if_splits)

lemma receiver_SYN: "TCPReceiver_segment_received rc seg = Inr rc' \<Longrightarrow> tr_have_SYN rc \<Longrightarrow> tr_have_SYN rc'"
  by (auto simp: TCPReceiver_segment_received_def Let_def dest: receive_payload_SYN split: if_splits)

lemma keeps_segment_received:
  assumes "TCPConnection_segment_received tc seg = Inr tc'"
  shows "keeps tc tc'"
proof -
  obtain rc tc1 where rc: "TCPReceiver_segment_received (tc_receiver tc) seg = Inr rc"
    and tc1: "TCPConnection_process_ack (TCPConnection_after_receiver tc seg rc) seg = Inr tc1"
    and tc': "TCPConnection_answer tc1 seg = Inr tc'"
    using assms by (auto simp: segment_received_phases bindE_Inr_iff)
  have "keeps tc (TCPConnection_after_receiver tc seg rc)"
    using receiver_SYN [OF rc] by (simp add: TCPConnection_after_receiver_def Let_def) (simp add: keeps_def)
  moreover have "keeps (TCPConnection_after_receiver tc seg rc) tc1"
    using tc1 by (auto simp: TCPConnection_process_ack_def split: if_splits dest!: keeps_connect)
      (simp add: keeps_def ack_received_fields)
  moreover have "keeps tc1 tc'"
    using tc' send_empty_segment_frame [of "tc_sender tc1"]
    by (auto simp: TCPConnection_answer_def split: if_splits dest: keeps_connect)
      (simp add: keeps_def sender_frame_def stream_kept_def)
  ultimately show ?thesis
    using keeps_trans by blast
qed

section \<open>The thread refines an endpoint\<close>

definition endpoint_of :: "'d sponge_socket \<Rightarrow> tcp_connection \<Rightarrow> endpoint" where
  "endpoint_of u tc = \<lparr>ep_conn = tc, ep_written = ss_from_owner u, ep_read = ss_to_owner u, ep_sent = ss_sent u\<rparr>"

text \<open>Every segment the adapter may hand over.\<close>

definition arriving :: "'d adapter_ops \<Rightarrow> tcp_segment set" where
  "arriving ops = {seg. \<exists>k w d w' d'. ao_read ops k w d = Inr (w', d', Some seg)}"

definition socket_steps :: "'d adapter_ops \<Rightarrow> 'd socket_state \<Rightarrow> 'd socket_state \<Rightarrow> bool" where
  "socket_steps ops s s' \<longleftrightarrow> ss_joinable (ps_user s') = ss_joinable (ps_user s) \<and>
     (\<forall>tc. ss_tcp (ps_user s) = Some tc \<longrightarrow> (\<exists>tc'. ss_tcp (ps_user s') = Some tc' \<and>
        (endpoint_step (arriving ops))\<^sup>*\<^sup>* (endpoint_of (ps_user s) tc) (endpoint_of (ps_user s') tc')))"

text \<open>
  The owner has not closed its end: no read gives the end of the stream and no descriptor hangs up.
  So it is while the owner waits in \<^verbatim>\<open>connect\<close> or \<^verbatim>\<open>listen_and_accept\<close>.
\<close>

definition owner_open :: "kernel \<Rightarrow> bool" where
  "owner_open os \<longleftrightarrow>
     (\<forall>k fd n. n \<noteq> 0 \<longrightarrow> os_read os k fd n \<noteq> Inr []) \<and>
     (\<forall>k pollfds t revents. os_poll os k pollfds t = Inr revents \<longrightarrow> list_all (\<lambda>ev. ev AND POLLHUP = 0) revents)"

text \<open>
  The invariant: the outbound stream is only ended together with the flag, and before the SYN of the
  peer has arrived the owner waits and its end is open.
\<close>

definition connection_inv :: "bool \<Rightarrow> bool \<Rightarrow> tcp_connection \<Rightarrow> bool" where
  "connection_inv outbound_shutdown waits tc \<longleftrightarrow>
     (bs_is_ended (ts_stream (tc_sender tc)) \<longrightarrow> outbound_shutdown) \<and> (tr_have_SYN (tc_receiver tc) \<or> waits)"

definition owner_waits :: "environment \<Rightarrow> 'd socket_state \<Rightarrow> bool" where
  "owner_waits os s \<longleftrightarrow> owner_open (os False) \<and> \<not> ss_joinable (ps_user s) \<and>
     \<not> fdw_eof (ps_fds s THREAD_DATA) \<and> \<not> fdw_closed (ps_fds s THREAD_DATA)"

definition socket_inv :: "environment \<Rightarrow> 'd socket_state \<Rightarrow> bool" where
  "socket_inv os s \<longleftrightarrow>
     (\<exists>tc. ss_tcp (ps_user s) = Some tc \<and> connection_inv (ss_outbound_shutdown (ps_user s)) (owner_waits os s) tc)"

definition rule_ready :: "'d sponge_socket rule \<Rightarrow> 'd socket_state \<Rightarrow> bool" where
  "rule_ready r s \<longleftrightarrow> rule_key r = (THREAD_DATA, In) \<longrightarrow> \<not> ss_outbound_shutdown (ps_user s)"

lemma connection_inv_keeps: "connection_inv o' q tc \<Longrightarrow> keeps tc tc' \<Longrightarrow> connection_inv o' q tc'"
  by (auto simp: connection_inv_def keeps_def)

lemmas socket_updates = set_fd_def set_user_def set_tcp_def count_call_def

lemma socket_steps_refl: "socket_steps ops s s"
  by (simp add: socket_steps_def)

lemma socket_steps_trans: "socket_steps ops s s' \<Longrightarrow> socket_steps ops s' s'' \<Longrightarrow> socket_steps ops s s''"
  by (fastforce simp: socket_steps_def)

lemma socket_handles [simp]: "THREAD_DATA \<noteq> ADAPTER" "ADAPTER \<noteq> THREAD_DATA" "OWNER \<noteq> THREAD_DATA" "OWNER \<noteq> ADAPTER"
  by (simp_all add: THREAD_DATA_def ADAPTER_def OWNER_def)

lemma receive_steps:
  assumes "TCPSpongeSocket_receive ops s = Inr s'" "socket_inv os s"
  shows "socket_inv os s' \<and> socket_steps ops s s' \<and> ss_outbound_shutdown (ps_user s') = ss_outbound_shutdown (ps_user s)"
proof -
  obtain tc where tc: "ss_tcp (ps_user s) = Some tc" "connection_inv (ss_outbound_shutdown (ps_user s)) (owner_waits os s) tc"
    using assms(2) by (auto simp: socket_inv_def owner_waits_def)
  obtain w d seg where rd: "ao_read ops (ss_calls (ps_user s)) (ps_fds s ADAPTER) (ss_adapter (ps_user s)) = Inr (w, d, seg)"
    using assms(1) by (auto simp: TCPSpongeSocket_receive_def bindE_Inr_iff)
  have after: "ps_fds s' = (ps_fds s)(ADAPTER := w)" "ss_from_owner (ps_user s') = ss_from_owner (ps_user s)"
    "ss_to_owner (ps_user s') = ss_to_owner (ps_user s)" "ss_sent (ps_user s') = ss_sent (ps_user s)"
    "ss_outbound_shutdown (ps_user s') = ss_outbound_shutdown (ps_user s)" "ss_joinable (ps_user s') = ss_joinable (ps_user s)"
    "case seg of None \<Rightarrow> ss_tcp (ps_user s') = Some tc
     | Some seg \<Rightarrow> \<exists>tc'. ss_tcp (ps_user s') = Some tc' \<and> TCPConnection_segment_received tc seg = Inr tc'"
    using assms(1) tc(1) rd
    by (auto simp: TCPSpongeSocket_receive_def bindE_Inr_iff socket_updates deref_def optional_value_def Let_def
        split: option.splits if_splits)
  show ?thesis
  proof (cases seg)
    case None
    then show ?thesis
      using after tc by (simp add: socket_inv_def owner_waits_def socket_steps_def endpoint_of_def)
  next
    case (Some x)
    then obtain tc' where tc': "ss_tcp (ps_user s') = Some tc'" "TCPConnection_segment_received tc x = Inr tc'"
      using after(7) by auto
    have "x \<in> arriving ops"
      using rd Some unfolding arriving_def by blast
    from endpoint_step.receive [OF this, of "endpoint_of (ps_user s) tc" tc']
    have "endpoint_step (arriving ops) (endpoint_of (ps_user s) tc) (endpoint_of (ps_user s') tc')"
      using tc'(2) after by (simp add: endpoint_of_def)
    then show ?thesis
      using tc' tc after connection_inv_keeps [OF tc(2) keeps_segment_received [OF tc'(2)]]
      by (auto simp: socket_inv_def owner_waits_def socket_steps_def)
  qed
qed

lemma end_outbound_steps:
  assumes "TCPSpongeSocket_end_outbound s = Inr s'" "ss_tcp (ps_user s) = Some tc" "tr_have_SYN (tc_receiver tc)"
  shows "socket_inv os s' \<and> socket_steps ops s s'"
proof -
  obtain tc' where tc': "TCPConnection_end_input_stream tc = Inr tc'"
    and s': "s' = set_user s ((ps_user s)\<lparr>ss_tcp := Some tc', ss_outbound_shutdown := True\<rparr>)"
    using assms(1,2) by (auto simp: TCPSpongeSocket_end_outbound_def deref_def bindE_Inr_iff)
  have "tr_have_SYN (tc_receiver tc')"
    using tc' assms(3) by (auto simp: TCPConnection_end_input_stream_def Let_def bindE_Inr_iff)
  moreover from endpoint_step.end_input [of "endpoint_of (ps_user s) tc" tc' "arriving ops"]
  have "endpoint_step (arriving ops) (endpoint_of (ps_user s) tc) (endpoint_of (ps_user s') tc')"
    using tc' assms(3) s' by (simp add: endpoint_of_def set_user_def)
  ultimately show ?thesis
    using assms(2) s' by (auto simp: socket_inv_def owner_waits_def connection_inv_def socket_steps_def set_user_def)
qed

text \<open>The end of the owner's stream is only read once the SYN of the peer has arrived.\<close>

lemma read_eof_SYN:
  assumes "FileDescriptor_read (os_read (answers os s) k) (ps_fds s THREAD_DATA) limit = Inr (w, data)" "fdw_eof w"
    and "connection_inv b (owner_waits os s) tc"
  shows "tr_have_SYN (tc_receiver tc)"
proof -
  note r = FileDescriptor_read_result [OF assms(1)]
  have "\<not> owner_waits os s"
  proof
    assume "owner_waits os s"
    moreover have "min BUFFER_SIZE limit \<noteq> 0" if "limit > 0"
      using that by (auto simp: min_def BUFFER_SIZE_def)
    ultimately show False
      using r(1,5) assms(2) by (auto simp: owner_waits_def owner_open_def answers_def)
  qed
  then show ?thesis
    using assms(3) by (simp add: connection_inv_def)
qed

lemma outbound_steps:
  assumes "TCPSpongeSocket_outbound os s = Inr s'" "socket_inv os s" "\<not> ss_outbound_shutdown (ps_user s)"
  shows "socket_inv os s' \<and> socket_steps ops s s'"
proof -
  let ?th = "ps_fds s THREAD_DATA"
  obtain tc where tc: "ss_tcp (ps_user s) = Some tc" "connection_inv (ss_outbound_shutdown (ps_user s)) (owner_waits os s) tc"
    using assms(2) by (auto simp: socket_inv_def owner_waits_def)
  let ?limit = "TCPConnection_remaining_outbound_capacity tc"
  obtain w data tc1 s1 where rd: "FileDescriptor_read (os_read (answers os s) (ss_calls (ps_user s))) ?th ?limit = Inr (w, data)"
    and wr: "TCPConnection_write tc data = Inr (tc1, sz data)"
    and s1: "s1 = set_user (set_fd THREAD_DATA w (count_call s)) ((ps_user (set_fd THREAD_DATA w (count_call s)))
      \<lparr>ss_tcp := Some tc1, ss_from_owner := ss_from_owner (ps_user s) @ data\<rparr>)"
    and s': "if fdw_eof w then TCPSpongeSocket_end_outbound s1 = Inr s' else s' = s1"
    using assms(1) tc(1)
    by (auto simp: TCPSpongeSocket_outbound_def deref_def bindE_Inr_iff Let_def socket_updates split: if_splits)
  note r = FileDescriptor_read_result [OF rd]
  from endpoint_step.write_data [OF r(3), of "endpoint_of (ps_user s) tc" tc1 "sz data" "arriving ops"]
  have "endpoint_step (arriving ops) (endpoint_of (ps_user s) tc) (endpoint_of (ps_user s1) tc1)"
    using wr tc(2) assms(3) r(3) s1 by (simp add: endpoint_of_def connection_inv_def socket_updates)
  then have steps: "socket_steps ops s s1"
    using tc(1) s1 by (auto simp: socket_steps_def socket_updates)
  note inv = connection_inv_keeps [OF tc(2) keeps_write [OF wr]]
  show ?thesis
  proof (cases "fdw_eof w")
    case True
    then have "tr_have_SYN (tc_receiver tc1)"
      using read_eof_SYN [OF rd _ tc(2)] keeps_write [OF wr] by (simp add: keeps_def)
    moreover have "ss_tcp (ps_user s1) = Some tc1" "TCPSpongeSocket_end_outbound s1 = Inr s'"
      using s1 s' True by (simp_all add: set_user_def)
    ultimately show ?thesis
      using end_outbound_steps steps socket_steps_trans by blast
  next
    case False
    then have "socket_inv os s1"
      using s1 inv r(4) by (auto simp: socket_inv_def owner_waits_def connection_inv_def socket_updates)
    then show ?thesis
      using steps s' False by simp
  qed
qed

lemma inbound_steps:
  assumes "TCPSpongeSocket_inbound os s = Inr s'" "socket_inv os s"
  shows "socket_inv os s' \<and> socket_steps ops s s' \<and> ss_outbound_shutdown (ps_user s') = ss_outbound_shutdown (ps_user s)"
proof -
  let ?th = "ps_fds s THREAD_DATA"
  obtain tc where tc: "ss_tcp (ps_user s) = Some tc" "connection_inv (ss_outbound_shutdown (ps_user s)) (owner_waits os s) tc"
    using assms(2) by (auto simp: socket_inv_def owner_waits_def)
  define st where "st = TCPConnection_inbound_stream tc"
  define buf where "buf = ByteStream_peek_output st (min 65536 (ByteStream_buffer_size st))"
  obtain w n written where wr: "FileDescriptor_write (os_writev (answers os s) (ss_calls (ps_user s))) ?th [buf] False = Inr (w, n, written)"
    using assms(1) tc(1)
    by (auto simp: TCPSpongeSocket_inbound_def deref_def bindE_Inr_iff Let_def BufferViewList_of_view_def buf_def st_def)
  define st' where "st' = ByteStream_pop_output st n"
  have after: "fdw_eof (ps_fds s' THREAD_DATA) = fdw_eof w" "fdw_closed (ps_fds s' THREAD_DATA) = fdw_closed w"
    "ss_tcp (ps_user s') = Some (TCPConnection_set_inbound_stream tc st')"
    "ss_from_owner (ps_user s') = ss_from_owner (ps_user s)" "ss_to_owner (ps_user s') = ss_to_owner (ps_user s) @ written"
    "ss_sent (ps_user s') = ss_sent (ps_user s)" "ss_outbound_shutdown (ps_user s') = ss_outbound_shutdown (ps_user s)"
    "ss_joinable (ps_user s') = ss_joinable (ps_user s)"
    using assms(1) tc(1) wr
    by (auto simp: TCPSpongeSocket_inbound_def deref_def bindE_Inr_iff Let_def BufferViewList_of_view_def buf_def st_def st'_def
        socket_updates Socket_shutdown_def SHUT_RD_def SHUT_WR_def FileDescriptor_register_write_def split: if_splits)
  have size: "length buf \<le> 65536" "buf = take (length buf) (bs_buffer st)" "length buf \<le> unat (ByteStream_buffer_size st)"
    unfolding buf_def by (rule peek_at_most)+
  then have r: "unat n \<le> length buf" "written = take (unat n) buf" "fdw_closed w = fdw_closed ?th" "fdw_eof w = fdw_eof ?th"
    using FileDescriptor_write_once [OF wr] by simp_all
  have rd: "ByteStream_read st n = (st', written)"
    using r(1,2) size by (simp add: ByteStream_read_def st'_def ByteStream_peek_output_def word_less_nat_alt Let_def) (metis min.absorb1 take_take)
  from endpoint_step.read [of "endpoint_of (ps_user s) tc" n st' written "arriving ops"]
  have "endpoint_step (arriving ops) (endpoint_of (ps_user s) tc) (endpoint_of (ps_user s') (TCPConnection_set_inbound_stream tc st'))"
    using after rd by (simp add: st_def endpoint_of_def)
  then show ?thesis
    using after r tc connection_inv_keeps [OF tc(2)] by (auto simp: socket_inv_def owner_waits_def socket_steps_def)
qed

lemma send_loop_steps:
  assumes "TCPSpongeSocket_send_loop ops (tc_segments_out tc) tc s = Inr s'" "ss_tcp (ps_user s) = Some tc"
    "socket_inv os s"
  shows "socket_inv os s' \<and> socket_steps ops s s' \<and> ss_outbound_shutdown (ps_user s') = ss_outbound_shutdown (ps_user s)"
  using assms
proof (induction "tc_segments_out tc" arbitrary: tc s)
  case Nil
  then show ?case
    using socket_steps_refl by (metis TCPSpongeSocket_send_loop.simps(1) sum.inject(2))
next
  case (Cons seg segs)
  let ?tc = "tc\<lparr>tc_segments_out := segs\<rparr>"
  obtain w d where wr: "ao_write ops (ss_calls (ps_user s)) (ps_fds s ADAPTER) (ss_adapter (ps_user s)) seg = Inr (w, d)"
    using Cons.prems(1) Cons.hyps(2) [symmetric] by (auto simp: bindE_Inr_iff)
  define s1 where "s1 = set_fd ADAPTER w (count_call (set_user s ((ps_user s)
    \<lparr>ss_tcp := Some ?tc, ss_adapter := d, ss_sent := ss_sent (ps_user s) @ [seg]\<rparr>)))"
  have "TCPSpongeSocket_send_loop ops segs ?tc s1 = Inr s'"
    using Cons.prems(1) Cons.hyps(2) [symmetric] wr by (simp add: Let_def s1_def)
  moreover have "socket_inv os s1" "ss_tcp (ps_user s1) = Some ?tc"
    using Cons.prems(2,3) by (auto simp: socket_inv_def owner_waits_def connection_inv_def s1_def socket_updates)
  moreover from endpoint_step.transmit [of "endpoint_of (ps_user s) tc" seg segs "arriving ops"]
  have "endpoint_step (arriving ops) (endpoint_of (ps_user s) tc) (endpoint_of (ps_user s1) ?tc)"
    using Cons.hyps(2) by (simp add: endpoint_of_def s1_def socket_updates)
  then have "socket_steps ops s s1"
    using Cons.prems(2) by (auto simp: socket_steps_def s1_def socket_updates)
  moreover have "ss_outbound_shutdown (ps_user s1) = ss_outbound_shutdown (ps_user s)"
    by (simp add: s1_def socket_updates)
  ultimately show ?case
    using Cons.hyps(1) [of ?tc s1] socket_steps_trans by fastforce
qed

lemma send_steps:
  assumes "TCPSpongeSocket_send ops s = Inr s'" "socket_inv os s"
  shows "socket_inv os s' \<and> socket_steps ops s s' \<and> ss_outbound_shutdown (ps_user s') = ss_outbound_shutdown (ps_user s)"
proof -
  obtain tc where "ss_tcp (ps_user s) = Some tc"
    using assms(2) by (auto simp: socket_inv_def)
  then show ?thesis
    using send_loop_steps [OF _ _ assms(2)] assms(1) by (simp add: TCPSpongeSocket_send_def deref_def)
qed

lemma socket_rule_keys:
  "map rule_key (TCPSpongeSocket_rules ops os) = [(ADAPTER, In), (THREAD_DATA, In), (THREAD_DATA, Out), (ADAPTER, Out)]"
  by (simp add: TCPSpongeSocket_rules_def EventLoop_add_rule_def rule_key_def Let_def)

lemma socket_rule_cases:
  assumes "r \<in> set (TCPSpongeSocket_rules ops os)"
  obtains "rule_key r = (ADAPTER, In)" "rule_callback r = TCPSpongeSocket_receive ops" "rule_cancel r = Inr"
  | "rule_key r = (THREAD_DATA, In)" "rule_callback r = TCPSpongeSocket_outbound os"
      "rule_interest r = TCPSpongeSocket_outbound_interest" "rule_cancel r = TCPSpongeSocket_end_outbound"
  | "rule_key r = (THREAD_DATA, Out)" "rule_callback r = TCPSpongeSocket_inbound os" "rule_cancel r = Inr"
  | "rule_key r = (ADAPTER, Out)" "rule_callback r = TCPSpongeSocket_send ops" "rule_cancel r = Inr"
  using assms by (auto simp: TCPSpongeSocket_rules_def EventLoop_add_rule_def rule_key_def Let_def)

lemma socket_callback_steps:
  assumes "r \<in> set (TCPSpongeSocket_rules ops os)" "socket_inv os s" "rule_ready r s" "rule_callback r s = Inr s'"
  shows "socket_inv os s' \<and> socket_steps ops s s' \<and>
    (rule_key r \<noteq> (THREAD_DATA, In) \<longrightarrow> ss_outbound_shutdown (ps_user s') = ss_outbound_shutdown (ps_user s))"
  using assms(1)
proof (cases rule: socket_rule_cases)
  case 1
  then show ?thesis
    using receive_steps assms by simp
next
  case 2
  then show ?thesis
    using outbound_steps assms by (simp add: rule_ready_def)
next
  case 3
  then show ?thesis
    using inbound_steps assms by simp
next
  case 4
  then show ?thesis
    using send_steps assms by simp
qed

lemma socket_cancel_steps:
  assumes "r \<in> set (TCPSpongeSocket_rules ops os)" "socket_inv os s" "rule_cancel r s = Inr s'"
  shows "rule_key r \<noteq> (THREAD_DATA, In) \<Longrightarrow> s' = s"
    "ss_joinable (ps_user s) \<or> expired r s \<Longrightarrow> socket_inv os s' \<and> socket_steps ops s s'"
proof -
  show "s' = s" if "rule_key r \<noteq> (THREAD_DATA, In)"
    using assms(1,3) that by (cases rule: socket_rule_cases) auto
  show "socket_inv os s' \<and> socket_steps ops s s'" if closed: "ss_joinable (ps_user s) \<or> expired r s"
    using assms(1)
  proof (cases rule: socket_rule_cases)
    case 2
    then have "\<not> owner_waits os s"
      using closed by (auto simp: expired_def rule_key_def owner_waits_def)
    then obtain tc where "ss_tcp (ps_user s) = Some tc" "tr_have_SYN (tc_receiver tc)"
      using assms(2) by (auto simp: socket_inv_def connection_inv_def)
    from end_outbound_steps [OF _ this] show ?thesis
      using assms(3) 2 by simp
  qed (use assms socket_steps_refl in auto)
qed

interpretation sponge: event_driven "TCPSpongeSocket_rules ops os" "\<lambda>s. socket_inv os s \<and> ss_joinable (ps_user s) = running"
  "socket_steps ops" rule_ready running for ops :: "'d adapter_ops" and os running
proof unfold_locales
  fix r and s s' :: "'d socket_state" assume r: "r \<in> set (TCPSpongeSocket_rules ops os)" and inv: "socket_inv os s \<and> ss_joinable (ps_user s) = running"
  note callback = socket_callback_steps [OF r conjunct1 [OF inv]] and cancel = socket_cancel_steps [OF r conjunct1 [OF inv]]
  show "rule_ready r s" if "rule_interest r s"
    using r that
    by (cases rule: socket_rule_cases) (auto simp: rule_ready_def TCPSpongeSocket_outbound_interest_def split: option.splits)
  show "(socket_inv os s' \<and> ss_joinable (ps_user s') = running) \<and> socket_steps ops s s'"
    if "rule_ready r s" "rule_callback r s = Inr s'"
    using callback [OF that] inv by (simp add: socket_steps_def)
  show "(socket_inv os s' \<and> ss_joinable (ps_user s') = running) \<and> socket_steps ops s s'"
    if "running \<or> expired r s" "rule_cancel r s = Inr s'"
    using cancel(2) [OF that(2)] that(1) inv by (auto simp: socket_steps_def)
  fix r' assume r': "rule_key r' \<noteq> rule_key r" "rule_ready r' s"
  show "rule_ready r' s'" if "rule_ready r s" "rule_callback r s = Inr s'"
    using callback [OF that] r' by (auto simp: rule_ready_def)
  show "rule_ready r' s'" if "rule_cancel r s = Inr s'"
    using cancel(1) [OF that] r' by (auto simp: rule_ready_def)
qed (auto intro: socket_steps_refl socket_steps_trans)

section \<open>Runs of the thread\<close>

text \<open>\<^verbatim>\<open>poll\<close> answers for every descriptor it is asked about.\<close>

definition polls :: "environment \<Rightarrow> bool" where
  "polls os \<longleftrightarrow> (\<forall>b k pollfds t revents. os_poll (os b) k pollfds t = Inr revents \<longrightarrow> length revents = length pollfds)"

lemma iteration_steps:
  assumes it: "TCPSpongeSocket_iteration ops os rules s t = Inr (continue, rules', s', t')" and inv: "socket_inv os s"
    and rules: "subseq rules (TCPSpongeSocket_rules ops os)" and os: "polls os" "owner_open (os False)"
  shows "socket_inv os s' \<and> subseq rules' (TCPSpongeSocket_rules ops os) \<and> socket_steps ops s s'"
proof -
  obtain ret s1 where wait: "EventLoop_wait_next_event (os_poll (answers os s) (ss_calls (ps_user s))) rules s (sint TCP_TICK_MS) =
      Inr (ret, rules', s1)"
    using it by (auto simp: TCPSpongeSocket_iteration_def bindE_Inr_iff Let_def split: if_splits)
  have poll: "length revents = length pollfds \<and> (ss_joinable (ps_user s) \<or> list_all (\<lambda>ev. ev AND POLLHUP = 0) revents)"
    if "os_poll (answers os s) (ss_calls (ps_user s)) pollfds (sint TCP_TICK_MS) = Inr revents" for pollfds revents
    using os that by (cases "ss_joinable (ps_user s)") (auto simp: answers_def polls_def owner_open_def)
  have s1: "socket_inv os s1" "socket_steps ops s s1" "subseq rules' (TCPSpongeSocket_rules ops os)"
    using sponge.wait_next_event_steps [OF wait _ rules _ poll] inv by (simp_all add: socket_rule_keys)
  then obtain tc where tc: "ss_tcp (ps_user s1) = Some tc"
    "connection_inv (ss_outbound_shutdown (ps_user s1)) (owner_waits os s1) tc"
    by (auto simp: socket_inv_def)
  from it wait tc(1) consider "s' = count_call s1" | tc' w d ms where "TCPConnection_tick tc ms = Inr tc'"
      "s' = set_fd ADAPTER w (set_user (count_call s1) ((ps_user (count_call s1))\<lparr>ss_tcp := Some tc', ss_adapter := d\<rparr>))"
    by (auto simp: TCPSpongeSocket_iteration_def bindE_Inr_iff Let_def optional_value_def socket_updates split: if_splits)
  then have "socket_inv os s' \<and> socket_steps ops s1 s'"
  proof cases
    case 1
    then show ?thesis
      using s1(1) tc(1) by (auto simp: socket_inv_def owner_waits_def socket_steps_def endpoint_of_def socket_updates)
  next
    case 2
    have "endpoint_step (arriving ops) (endpoint_of (ps_user s1) tc) (endpoint_of (ps_user s') tc')"
      using endpoint_step.time [of "endpoint_of (ps_user s1) tc" ms tc' "arriving ops"] 2
      by (simp add: endpoint_of_def socket_updates)
    then show ?thesis
      using tc 2 connection_inv_keeps [OF tc(2) keeps_tick [OF 2(1)]]
      by (auto simp: socket_inv_def owner_waits_def socket_steps_def socket_updates)
  qed
  then show ?thesis
    using s1 socket_steps_trans by blast
qed

text \<open>
  What the constructor gives, and the states of the thread: after \<^verbatim>\<open>listen_and_accept\<close> or \<^verbatim>\<open>connect\<close> has set
  the connection up, after any number of iterations of \<^verbatim>\<open>_tcp_loop\<close>, and when the thread of its own is
  started on a connection that has received the SYN of the peer.
\<close>

definition fresh :: "'d socket_state \<Rightarrow> bool" where
  "fresh s \<longleftrightarrow> \<not> fdw_eof (ps_fds s THREAD_DATA) \<and> \<not> fdw_closed (ps_fds s THREAD_DATA) \<and> \<not> ss_joinable (ps_user s) \<and>
     \<not> ss_outbound_shutdown (ps_user s) \<and> ss_from_owner (ps_user s) = [] \<and> ss_to_owner (ps_user s) = [] \<and>
     ss_sent (ps_user s) = []"

inductive socket_run ::
  "'d adapter_ops \<Rightarrow> environment \<Rightarrow> tcp_config \<Rightarrow> u32 \<Rightarrow> 'd sponge_socket rule list \<Rightarrow> 'd socket_state \<Rightarrow> size_t \<Rightarrow> bool"
  for ops :: "'d adapter_ops" and os :: environment and cfg :: tcp_config and r :: u32 where
  accepting: "fresh s \<Longrightarrow> TCPSpongeSocket_initialize_TCP ops os cfg r s = (rules, s') \<Longrightarrow> socket_run ops os cfg r rules s' t"
| connecting: "fresh s \<Longrightarrow> TCPSpongeSocket_initialize_TCP ops os cfg r s = (rules, s') \<Longrightarrow>
    bindE (deref s') TCPConnection_connect = Inr tc \<Longrightarrow> socket_run ops os cfg r rules (set_tcp s' tc) t"
| iterating: "socket_run ops os cfg r rules s t \<Longrightarrow>
    TCPSpongeSocket_iteration ops os rules s t = Inr (continue, rules', s', t') \<Longrightarrow> socket_run ops os cfg r rules' s' t'"
| starting: "socket_run ops os cfg r rules s t \<Longrightarrow> deref s = Inr tc \<Longrightarrow> tr_have_SYN (tc_receiver tc) \<Longrightarrow>
    start_thread (rules, s) = (rules', s') \<Longrightarrow> socket_run ops os cfg r rules' s' t'"

lemma socket_run_inv:
  assumes "socket_run ops os cfg r rules s t" "polls os" "owner_open (os False)"
  shows "socket_inv os s \<and> subseq rules (TCPSpongeSocket_rules ops os) \<and>
    (\<exists>tc. ss_tcp (ps_user s) = Some tc \<and>
       (endpoint_step (arriving ops))\<^sup>*\<^sup>* (endpoint_new cfg r) (endpoint_of (ps_user s) tc))"
  using assms
proof (induction rule: socket_run.induct)
  case (accepting s rules s' t)
  then show ?case
    by (auto simp: TCPSpongeSocket_initialize_TCP_def fresh_def socket_inv_def connection_inv_def owner_waits_def socket_updates
        TCPConnection_new_def TCPSender_new_def ByteStream_new_def endpoint_of_def endpoint_new_def)
next
  case (connecting s rules s' tc t)
  then have s': "s' = set_tcp s (TCPConnection_new cfg r)" "rules = TCPSpongeSocket_rules ops os"
    and tc: "TCPConnection_connect (TCPConnection_new cfg r) = Inr tc"
    by (auto simp: TCPSpongeSocket_initialize_TCP_def deref_def socket_updates)
  have "endpoint_step (arriving ops) (endpoint_new cfg r) (endpoint_of (ps_user (set_tcp s' tc)) tc)"
    using endpoint_step.connect [of "endpoint_new cfg r" tc "arriving ops"] tc connecting.hyps(1) s'
    by (simp add: endpoint_new_def endpoint_of_def fresh_def socket_updates)
  moreover have "\<not> bs_is_ended (ts_stream (tc_sender tc))"
    using keeps_connect [OF tc] by (simp add: keeps_def TCPConnection_new_def TCPSender_new_def ByteStream_new_def)
  ultimately show ?case
    using connecting s' by (auto simp: fresh_def socket_inv_def connection_inv_def owner_waits_def socket_updates)
next
  case (iterating rules s t continue rules' s' t')
  then show ?case
    using iteration_steps [OF iterating.hyps(2)] by (fastforce simp: socket_steps_def)
next
  case (starting rules s t tc rules' s' t')
  then show ?case
    by (auto simp: start_thread_def socket_updates socket_inv_def connection_inv_def deref_def endpoint_of_def split: option.splits)
qed

text \<open>\<^verbatim>\<open>_tcp_loop\<close> goes through states of runs only.\<close>

lemma tcp_loop_run:
  assumes "TCPSpongeSocket_tcp_loop_from ops os condition rules s t = Some (Inr (rules', s'))" "socket_run ops os cfg r rules s t"
  shows "\<exists>t'. socket_run ops os cfg r rules' s' t'"
proof -
  let ?P = "\<lambda>ops os condition rules s t result. socket_run ops os cfg r rules s t \<longrightarrow>
    (\<forall>rules' s'. (result :: (_ \<times> _) outcome) = Inr (rules', s') \<longrightarrow> (\<exists>t'. socket_run ops os cfg r rules' s' t'))"
  have "?P ops os condition rules s t (Inr (rules', s'))"
    by (rule TCPSpongeSocket_tcp_loop_from.raw_induct [where P = ?P, OF _ assms(1)])
      (auto split: if_splits sum.splits prod.splits dest: socket_run.iterating)
  then show ?thesis
    using assms(2) by blast
qed

section \<open>The invariant of the endpoint along a run\<close>

lemma endpoint_steps_ok:
  assumes "(endpoint_step net)\<^sup>*\<^sup>* (endpoint_new cfg r) e" and net: "\<forall>seg \<in> net. carries T isn' seg"
    and T: "length T + 1 < 2 ^ 31" "length T + unat (recv_capacity cfg) < 2 ^ 64" and cfg: "recv_capacity cfg \<noteq> 0"
  shows "extends e S \<Longrightarrow> length S + 2 ^ 33 < 2 ^ 64 \<Longrightarrow> endpoint_ok cfg S (endpoint_isn cfg r) T isn' e"
  using assms(1)
proof (induction arbitrary: S rule: rtranclp_induct)
  case base
  then show ?case
    using cfg by (simp add: endpoint_ok_def endpoint_new_def connects_new endpoint_isn_def)
      (simp add: TCPConnection_new_def TCPSender_new_def ByteStream_new_def)
next
  case (step e e')
  have le: "length (ep_written e) \<le> length S"
    using step.prems(1) endpoint_step_written [OF step.hyps(2)] by (auto simp: extends_def)
  then have "extends e S"
    using extends_before [OF step.hyps(2) step.IH [OF extends_written] step.prems(2) T net step.prems(1)] step.prems(2) by simp
  then show ?case
    using endpoint_step_ok [OF step.hyps(2) step.IH _ T net step.prems(1)] step.prems(2) by blast
qed

lemma socket_run_ok:
  assumes run: "socket_run ops os cfg r rules s t" "polls os" "owner_open (os False)"
    and net: "\<forall>seg \<in> arriving ops. carries T isn' seg"
    and T: "length T + 1 < 2 ^ 31" "length T + unat (recv_capacity cfg) < 2 ^ 64" "recv_capacity cfg \<noteq> 0"
    and S: "length S + 2 ^ 33 < 2 ^ 64"
  obtains tc where "ss_tcp (ps_user s) = Some tc"
    "connection_inv (ss_outbound_shutdown (ps_user s)) (owner_waits os s) tc"
    "extends (endpoint_of (ps_user s) tc) S \<longrightarrow>
       endpoint_ok cfg S (endpoint_isn cfg r) T isn' (endpoint_of (ps_user s) tc)"
  using socket_run_inv [OF run] endpoint_steps_ok [OF _ net T] S by (fastforce simp: socket_inv_def)

section \<open>The end of the thread\<close>

lemma answers_count [simp]: "answers os (count_call s) = answers os s"
  by (simp add: answers_def socket_updates)

lemma setup_idle:
  assumes "list_all (\<lambda>r. \<not> expired r s \<and> \<not> rule_interest r s) rules"
  shows "EventLoop_setup rules s =
    Inr (rules, map (\<lambda>r. \<lparr>pfd_fd = fdw_fd (ps_fds s (rule_fd r)), pfd_events = 0\<rparr>) rules, False, s)"
  using assms by (induction rules) (auto simp: expired_def Let_def)

text \<open>
  Nothing is left to do: the connection is over, its segments have been sent and the owner has been
  given everything and told that the stream is at its end.
\<close>

definition finished :: "'d socket_state \<Rightarrow> bool" where
  "finished s =
     (case ss_tcp (ps_user s) of
        None \<Rightarrow> False
      | Some tc \<Rightarrow> \<not> TCPConnection_active tc \<and> tc_segments_out tc = [] \<and>
          ByteStream_buffer_empty (TCPConnection_inbound_stream tc) \<and> ss_inbound_shutdown (ps_user s))"

lemma finished_uninterested:
  "finished s \<Longrightarrow> r \<in> set (TCPSpongeSocket_rules ops os) \<Longrightarrow> \<not> rule_interest r s"
  by (auto simp: finished_def TCPSpongeSocket_rules_def EventLoop_add_rule_def Let_def TCPSpongeSocket_receive_interest_def
      TCPSpongeSocket_outbound_interest_def TCPSpongeSocket_inbound_interest_def TCPSpongeSocket_send_interest_def
      split: option.splits)

lemma tcp_loop_finished:
  assumes "finished s" "subseq rules (TCPSpongeSocket_rules ops os)" "list_all (\<lambda>r. \<not> expired r s) rules" "condition s"
  shows "TCPSpongeSocket_tcp_loop_from ops os condition rules s t = Some (Inr (rules, count_call s))"
proof -
  have "list_all (\<lambda>r. \<not> expired r s \<and> \<not> rule_interest r s) rules"
    using assms(1-3) finished_uninterested subseq_set by (fastforce simp: list_all_iff)
  then have "TCPSpongeSocket_iteration ops os rules s t = Inr (False, rules, count_call s, t)"
    by (simp add: TCPSpongeSocket_iteration_def EventLoop_wait_next_event_def setup_idle Let_def)
  then show ?thesis
    using assms(4) by (simp add: TCPSpongeSocket_tcp_loop_from.simps)
qed

text \<open>
  The destructor promises a RST to the peer of an open connection.  It is queued in a connection that
  is destroyed before the queue is looked at: when nothing is ready, nothing is sent.
\<close>

lemma abort_sends_nothing:
  assumes s: "ss_tcp (ps_user s) = Some tc" "TCPConnection_active tc" "ss_joinable (ps_user s)"
    and rules: "list_all (\<lambda>r. \<not> expired r s) rules"
    and os: "\<And>k pollfds t. os_poll (os True) k pollfds t = Inr (replicate (length pollfds) 0)"
      "\<And>k fd how. os_shutdown (os True) k fd how = Inr ()"
  shows "\<exists>s'. TCPSpongeSocket_destroy ops os rules s = Some (Inr s') \<and> ss_tcp (ps_user s') = None \<and>
    ss_sent (ps_user s') = ss_sent (ps_user s)"
    and "rst (seg_header (last (tc_segments_out (TCPConnection_destroy tc))))"
proof -
  let ?os = "\<lambda>b. (os b)\<lparr>os_abort := \<lambda>_. True\<rparr>"
  have su: "\<exists>pollfds b. EventLoop_setup rules s' = Inr (rules, pollfds, b, s')" if "list_all (\<lambda>r. \<not> expired r s') rules" for s'
    using that by (induction rules) (auto simp: expired_def Let_def)
  let ?s = "count_call s"
  have "list_all (\<lambda>r. \<not> expired r ?s) rules"
    using rules by (simp add: expired_def socket_updates)
  then obtain pollfds b where p: "EventLoop_setup rules ?s = Inr (rules, pollfds, b, ?s)"
    using su by blast
  have a: "answers ?os s = (os True)\<lparr>os_abort := \<lambda>_. True\<rparr>"
    using s(3) by (simp add: answers_def)
  have "EventLoop_wait_next_event (os_poll (answers ?os s) k) rules ?s t = Inr (if b then Timeout else Exit, rules, ?s)" for k t
    using os(1) by (simp add: EventLoop_wait_next_event_def p a SystemCall_cases)
  then have "TCPSpongeSocket_iteration ops ?os rules ?s t = Inr (False, rules, count_call ?s, t)" for t
    by (simp add: TCPSpongeSocket_iteration_def Let_def a)
  then show "\<exists>s'. TCPSpongeSocket_destroy ops os rules s = Some (Inr s') \<and> ss_tcp (ps_user s') = None \<and>
      ss_sent (ps_user s') = ss_sent (ps_user s)"
    using s os(2)
    by (simp add: TCPSpongeSocket_destroy_def TCPSpongeSocket_tcp_main_def TCPSpongeSocket_tcp_loop_def
        TCPSpongeSocket_tcp_loop_from.simps Socket_shutdown_def SystemCall_cases Let_def SHUT_RD_def SHUT_WR_def SHUT_RDWR_def a)
      (simp add: optional_value_def socket_updates)
  show "rst (seg_header (last (tc_segments_out (TCPConnection_destroy tc))))"
    using s(2) by (simp add: TCPConnection_destroy_def TCPConnection_abort_def Let_def TCPConnection_set_errors_def)
qed

lemma random_private_ethernet_address_private:
  "length (random_private_ethernet_address rd) = 6" "bit (random_private_ethernet_address rd ! 0) 1"
  "\<not> bit (random_private_ethernet_address rd ! 0) 0"
  by (simp_all add: random_private_ethernet_address_def Let_def bit_simps)

section \<open>An example\<close>

text \<open>A kernel whose descriptors are always ready and an owner that writes the byte 7 again and again.\<close>

definition example_kernel :: kernel where
  "example_kernel =
     \<lparr>os_read = (\<lambda>_ _ _. Inr [7]), os_writev = (\<lambda>_ _ _ iovecs. Inr (length (concat (map fst iovecs)))),
      os_shutdown = (\<lambda>_ _ _. Inr ()),
      os_poll = (\<lambda>_ pollfds _. Inr (map (\<lambda>p. if pfd_events p = POLLIN \<or> pfd_events p = POLLOUT then pfd_events p else 0) pollfds)),
      os_timestamp = (\<lambda>k. word_of_nat k), os_abort = (\<lambda>_. False)\<rparr>"

definition example_ops :: "unit adapter_ops" where
  "example_ops =
     \<lparr>ao_read = (\<lambda>_ w d. Inr (FileDescriptor_register_read w, d, None)),
      ao_write = (\<lambda>_ w d _. Inr (FileDescriptor_register_write w, d)), ao_tick = (\<lambda>_ w d _. Inr (w, d)),
      ao_set_config = (\<lambda>d _. d), ao_set_listening = (\<lambda>d _. d)\<rparr>"

definition example_socket :: "unit socket_state" where
  "example_socket =
     \<lparr>ps_fds = (\<lambda>h. \<lparr>fdw_fd = int h, fdw_eof = False, fdw_closed = False, fdw_read_count = 0, fdw_write_count = 0\<rparr>),
      ps_user = \<lparr>ss_tcp = None, ss_adapter = (), ss_inbound_shutdown = False, ss_outbound_shutdown = False,
                 ss_fully_acked = False, ss_joinable = False, ss_calls = 0, ss_from_owner = [], ss_to_owner = [],
                 ss_sent = []\<rparr>\<rparr>"

abbreviation example_env :: environment where
  "example_env \<equiv> (\<lambda>_. example_kernel)"

abbreviation example_tcp_config :: tcp_config where
  "example_tcp_config \<equiv> (example_config (WrappingInt32 100))\<lparr>send_capacity := 4\<rparr>"

text \<open>A socket whose connection is over.\<close>

definition example_finished :: "unit socket_state" where
  "example_finished =
     (let s = set_tcp example_socket ((TCPConnection_new example_tcp_config 0)\<lparr>tc_is_active := False\<rparr>)
      in set_user s ((ps_user s)\<lparr>ss_inbound_shutdown := True\<rparr>))"

text \<open>\<^verbatim>\<open>connect\<close> and one iteration: the SYN has been sent, and a byte of the owner waits in the connection.\<close>

definition example_connected :: "unit socket_state outcome" where
  "example_connected =
     (let (rules, s) = TCPSpongeSocket_initialize_TCP example_ops example_env example_tcp_config 0 example_socket
      in bindE (bindE (deref s) TCPConnection_connect) (\<lambda>tc. Inr (set_tcp s tc)))"

definition example_iterated :: "unit socket_state outcome" where
  "example_iterated =
     bindE example_connected (\<lambda>s.
     bindE (TCPSpongeSocket_iteration example_ops example_env (TCPSpongeSocket_rules example_ops example_env) s 0) (\<lambda>(_, _, s, _). Inr s))"

lemma example_iterated_values:
  "case example_iterated of Inl _ \<Rightarrow> False | Inr s \<Rightarrow>
     ss_from_owner (ps_user s) = [7] \<and> length (ss_sent (ps_user s)) = 1 \<and> \<not> ss_outbound_shutdown (ps_user s)"
  by code_simp

lemma example_iterated_capacity:
  "runs example_iterated (\<lambda>s. \<not> ss_outbound_shutdown (ps_user s) \<and>
     runs (deref s) (\<lambda>tc. TCPConnection_remaining_outbound_capacity tc = 3))"
proof -
  have "case example_iterated of Inl _ \<Rightarrow> False | Inr s \<Rightarrow> \<not> ss_outbound_shutdown (ps_user s) \<and>
     (case deref s of Inl _ \<Rightarrow> False | Inr tc \<Rightarrow> TCPConnection_remaining_outbound_capacity tc = 3)"
    by code_simp
  then show ?thesis
    by (auto simp: runs_def split: sum.splits)
qed

lemma example_env_ok: "polls example_env" "owner_open (example_env False)" "arriving example_ops = {}"
  by (auto simp: polls_def owner_open_def arriving_def example_kernel_def example_ops_def list_all_iff POLLIN_def POLLOUT_def
      POLLHUP_def)

lemma example_run:
  obtains s rules t where "example_iterated = Inr s" "socket_run example_ops example_env example_tcp_config 0 rules s t"
    "ss_from_owner (ps_user s) = [7]" "length (ss_sent (ps_user s)) = 1"
proof -
  have fresh: "fresh example_socket"
    by (simp add: fresh_def example_socket_def)
  obtain s where s: "example_iterated = Inr s" "ss_from_owner (ps_user s) = [7]" "length (ss_sent (ps_user s)) = 1"
    using example_iterated_values by (auto split: sum.splits)
  obtain s1 c rules t where s1: "example_connected = Inr s1"
    and it: "TCPSpongeSocket_iteration example_ops example_env (TCPSpongeSocket_rules example_ops example_env) s1 0 = Inr (c, rules, s, t)"
    using s(1) by (auto simp: example_iterated_def bindE_Inr_iff)
  have "socket_run example_ops example_env example_tcp_config 0 (TCPSpongeSocket_rules example_ops example_env) s1 0"
    using s1 socket_run.connecting [OF fresh TCPSpongeSocket_initialize_TCP_def]
    by (auto simp: example_connected_def TCPSpongeSocket_initialize_TCP_def bindE_Inr_iff)
  from that [OF s(1) socket_run.iterating [OF this it] s(2,3)] show thesis .
qed

section \<open>Properties\<close>





text \<open>
  C35. The rule that takes bytes from the owner throws only what the read of its descriptor throws: the
  connection accepts all the bytes that were read, so that the check of \<^verbatim>\<open>amount_written\<close> never fails.
\<close>

theorem sponge_socket_accepts:
  assumes "socket_run ops os cfg r rules s t" "polls os" "owner_open (os False)"
    and "\<forall>seg \<in> arriving ops. carries T isn' seg"
    and "length T + 1 < 2 ^ 31" "length T + unat (recv_capacity cfg) < 2 ^ 64" "recv_capacity cfg \<noteq> 0"
    and "\<not> ss_outbound_shutdown (ps_user s)" "deref s = Inr tc"
    and "FileDescriptor_read (os_read (answers os s) (ss_calls (ps_user s))) (ps_fds s THREAD_DATA)
      (TCPConnection_remaining_outbound_capacity tc) = Inr (w, data)"
    and "length (ss_from_owner (ps_user s) @ data) + 2 ^ 33 < 2 ^ 64"
  shows "returns (TCPSpongeSocket_outbound os s)"
proof -
  let ?S = "ss_from_owner (ps_user s) @ data"
  note r = FileDescriptor_read_result [OF assms(10)]
  obtain tc' where "ss_tcp (ps_user s) = Some tc'"
    and inv: "connection_inv (ss_outbound_shutdown (ps_user s)) (owner_waits os s) tc'"
    and ok': "extends (endpoint_of (ps_user s) tc') ?S \<longrightarrow>
      endpoint_ok cfg ?S (endpoint_isn cfg r) T isn' (endpoint_of (ps_user s) tc')"
    by (rule socket_run_ok [OF assms(1-7,11)])
  then have tc: "ss_tcp (ps_user s) = Some tc" "tc' = tc"
    using assms(9) by (auto simp: deref_def split: option.splits)
  have open': "\<not> bs_is_ended (ts_stream (tc_sender tc))"
    using inv assms(8) tc by (auto simp: connection_inv_def)
  then have ok: "connects ?S (endpoint_isn cfg r) T isn' (ss_to_owner (ps_user s)) tc"
    "unat (bs_written_length (ts_stream (tc_sender tc))) = length (ss_from_owner (ps_user s))"
    using ok' tc by (auto simp: extends_def endpoint_of_def endpoint_ok_def)
  have n: "snd (ByteStream_write (ts_stream (tc_sender tc)) data) = sz data"
    using r(2,3) by (simp add: ByteStream_write_def Let_def TCPConnection_remaining_outbound_capacity_def word_nat)
  have "substring_of ?S (take (unat (sz data)) data) (length (ss_from_owner (ps_user s))) False"
    using r(3) by (simp add: substring_of_def)
  from connects_write [OF ok(1) assms(11) r(3) open' n [symmetric], unfolded ok(2), OF this]
  obtain tc1 where tc1: "TCPConnection_write tc data = Inr (tc1, sz data)"
    "connects ?S (endpoint_isn cfg r) T isn' (ss_to_owner (ps_user s)) tc1"
    "bs_written_length (ts_stream (tc_sender tc1)) = bs_written_length (ts_stream (tc_sender tc)) + sz data"
    by (auto simp: connection_frame_def elim!: runsE)
  have "unat (bs_written_length (ts_stream (tc_sender tc1))) = length ?S"
    using tc1(3) ok(2) r(3) assms(11) by (simp add: unat_add_nowrap)
  then have "returns (TCPConnection_end_input_stream tc1)" if "fdw_eof w"
    using connects_end_input_stream [OF tc1(2) assms(11)] read_eof_SYN [OF assms(10) that inv] keeps_write [OF tc1(1)] tc
    by (auto simp: keeps_def returns_def elim!: runsE)
  then show ?thesis
    using tc tc1(1) assms(10)
    by (auto simp: TCPSpongeSocket_outbound_def TCPSpongeSocket_end_outbound_def deref_def Let_def returns_def socket_updates)
qed

theorem sponge_socket_accepts_witness:
  "\<exists>s. example_iterated = Inr s \<and> returns (TCPSpongeSocket_outbound example_env s)"
proof (rule example_run)
  fix s rules t
  assume s: "example_iterated = Inr s" "ss_from_owner (ps_user s) = [7]"
    and run: "socket_run example_ops example_env example_tcp_config 0 rules s t"
  obtain tc where tc: "deref s = Inr tc" "TCPConnection_remaining_outbound_capacity tc = 3" "\<not> ss_outbound_shutdown (ps_user s)"
    using example_iterated_capacity by (auto simp: s(1) bindE_Inr_iff elim!: runsE)
  obtain w where "FileDescriptor_read (os_read (answers example_env s) (ss_calls (ps_user s))) (ps_fds s THREAD_DATA) 3 = Inr (w, [7])"
    by (simp add: FileDescriptor_read_def answers_def example_kernel_def BUFFER_SIZE_def SystemCall_cases min_def Let_def)
  from sponge_socket_accepts [OF run example_env_ok(1,2) _ _ _ _ tc(3,1), of "[]" "WrappingInt32 0"] this
  show ?thesis
    using s by (auto simp: tc(2) example_env_ok(3) example_config_capacity)
qed



end
