(* ===== verification/Resolution.thy ===== *)
theory Resolution
  imports Network_Interface
begin

text \<open>
  How network interfaces behave over time and together: every operation keeps the invariant, an
  address is asked for at most once in five seconds, and two interfaces on a wire resolve each
  other's addresses and deliver the datagram that waited.
\<close>

section \<open>One operation\<close>

lemma IPv4Datagram_parse_returns: "Buffer_wf b \<Longrightarrow> runs (IPv4Datagram_parse d b) (\<lambda>_. True)"
  unfolding IPv4Datagram_parse_def runs_bindE
  by (rule runs_mono [OF IPv4Header_parse_runs [OF progress_new]]) (auto simp: split_def Let_def)

lemma own_ip_exists:
  assumes "NetworkInterface_wf ni"
  obtains own_ip where "Address_ipv4_numeric (ni_ip_address ni) = Inr own_ip"
  using assms by (auto simp: NetworkInterface_wf_def returns_def)

lemma NetworkInterface_new_wf:
  "length e = 6 \<Longrightarrow> Address_ipv4_numeric a = Inr own_ip \<Longrightarrow> NetworkInterface_wf (NetworkInterface_new e a)"
  by (simp add: NetworkInterface_wf_def NetworkInterface_new_def)

lemma ipv4_frame_type:
  "NetworkInterface_ipv4_frame ni d e = Inr g \<Longrightarrow> eth_type (ef_header g) = EthernetHeader_TYPE_IPv4"
  by (auto simp: NetworkInterface_ipv4_frame_def bindE_Inr_iff)

definition heard :: "network_interface \<Rightarrow> ethernet_frame \<Rightarrow> arp_message option" where
  "heard ni f =
     (let bs = BufferList_concatenate (ef_payload f)
      in if (eth_dst (ef_header f) = ni_ethernet_address ni \<or> eth_dst (ef_header f) = ETHERNET_BROADCAST) \<and>
            eth_type (ef_header f) \<noteq> EthernetHeader_TYPE_IPv4 \<and>
            28 \<le> length bs \<and> ARPMessage_supported (arp_message_of bs)
         then Some (arp_message_of bs) else None)"

lemma heard_wf: "heard ni f = Some m \<Longrightarrow> length (sender_ethernet_address m) = 6"
  by (auto simp: heard_def Let_def arp_message_of_def split: if_split_asm)

lemma recv_frame_runs:
  assumes wf: "NetworkInterface_wf ni" and own: "Address_ipv4_numeric (ni_ip_address ni) = Inr own_ip"
    and f: "receivable f"
  shows "runs (NetworkInterface_recv_frame ni f) (\<lambda>(ni', r).
    case heard ni f of None \<Rightarrow> ni' = ni | Some m \<Rightarrow> r = None \<and> arp_effect ni own_ip m ni')"
proof -
  from f obtain b where b: "BufferList_to_Buffer (ef_payload f) = Inr b" "Buffer_wf b"
    "Buffer_str b = BufferList_concatenate (ef_payload f)"
    by (rule receivable_buffer)
  let ?bs = "BufferList_concatenate (ef_payload f)"
  have ip: "runs (IPv4Datagram_parse IPv4Datagram_default b) (\<lambda>_. True)"
    using b(2) by (rule IPv4Datagram_parse_returns)
  have arp: "runs (ARPMessage_parse ARPMessage_default b) (\<lambda>(res, m).
      if length ?bs < 28 then res = PacketTooShort \<and> m = ARPMessage_default
      else if \<not> ARPMessage_supported (arp_message_of ?bs) then res = Unsupported
      else res = NoError \<and> m = arp_message_of ?bs)"
    using b by (intro ARPMessage_parse_runs) (simp_all add: ARPMessage_wf_def ARPMessage_default_def)
  consider "eth_dst (ef_header f) \<noteq> ni_ethernet_address ni \<and> eth_dst (ef_header f) \<noteq> ETHERNET_BROADCAST"
    | "eth_dst (ef_header f) = ni_ethernet_address ni \<or> eth_dst (ef_header f) = ETHERNET_BROADCAST"
      "eth_type (ef_header f) = EthernetHeader_TYPE_IPv4"
    | "eth_dst (ef_header f) = ni_ethernet_address ni \<or> eth_dst (ef_header f) = ETHERNET_BROADCAST"
      "eth_type (ef_header f) \<noteq> EthernetHeader_TYPE_IPv4"
    by blast
  then show ?thesis
  proof cases
    case 1
    then show ?thesis
      by (simp add: NetworkInterface_recv_frame_def heard_def)
  next
    case 2
    then have "heard ni f = None"
      by (simp add: heard_def)
    then show ?thesis
      using 2 ip b(1) by (auto simp: NetworkInterface_recv_frame_def elim!: runs_mono)
  next
    case 3
    have eq: "NetworkInterface_recv_frame ni f = bindE (ARPMessage_parse ARPMessage_default b) (\<lambda>(res, m).
        if res \<noteq> NoError then Inr (ni, None)
        else bindE (NetworkInterface_reply (learned ni m) m) (\<lambda>ni.
          bindE (NetworkInterface_flush ni (ni_dgram_delay_queue ni)) (\<lambda>(frames, kept).
            Inr (ni\<lparr>ni_frames_out := ni_frames_out ni @ frames, ni_dgram_delay_queue := kept\<rparr>, None))))"
      using 3 b(1) by (auto simp: NetworkInterface_recv_frame_def learned_def Let_def split_def cong: if_cong)
    show ?thesis
      unfolding eq runs_bindE
      by (rule runs_mono [OF arp])
        (use 3 arp_effect_runs [OF wf own] in \<open>auto simp: heard_def Let_def split: if_splits\<close>)
  qed
qed

lemma arp_effect_wf:
  assumes "NetworkInterface_wf ni" "arp_effect ni own_ip m ni'" "length (sender_ethernet_address m) = 6"
  shows "NetworkInterface_wf ni'"
proof -
  have "ni_ethernet_address ni' = ni_ethernet_address ni" "ni_ip_address ni' = ni_ip_address ni"
    and table: "ni_address_table ni' = (ni_address_table ni)(sender_ip_address m \<mapsto> (sender_ethernet_address m, ni_timer ni + 30000))"
    and "ni_dgram_delay_queue ni' = filter (\<lambda>(d, ip, t). ip \<noteq> sender_ip_address m) (ni_dgram_delay_queue ni)"
    using assms(2) by (auto simp: arp_effect_def learned_def)
  then show ?thesis
    using assms(1,3) unfolding NetworkInterface_wf_def by auto
qed

lemma send_datagram_wf:
  assumes "NetworkInterface_wf ni" "sendable d" "Address_ipv4_numeric next_hop = Inr ip"
  shows "runs (NetworkInterface_send_datagram ni d next_hop) NetworkInterface_wf"
proof -
  from assms(1) obtain own_ip where own: "Address_ipv4_numeric (ni_ip_address ni) = Inr own_ip"
    by (rule own_ip_exists)
  have "runs (NetworkInterface_ipv4_frame ni d e) (\<lambda>_. True)" for e
    using ipv4_frame_returns [OF assms(2)] by (auto simp: runs_def)
  then show ?thesis
    unfolding send_datagram_eq [OF assms(3) own]
    using assms(1,2) by (auto simp: NetworkInterface_wf_def split: option.split)
qed

lemma tick_wf: "NetworkInterface_wf ni \<Longrightarrow> NetworkInterface_wf (NetworkInterface_tick ni ms)"
  by (auto simp: NetworkInterface_wf_def NetworkInterface_tick_def Let_def split: option.splits if_splits)

lemma recv_frame_wf:
  assumes "NetworkInterface_wf ni" "receivable f"
  shows "runs (NetworkInterface_recv_frame ni f) (\<lambda>(ni', r). NetworkInterface_wf ni')"
proof -
  from assms(1) obtain own_ip where own: "Address_ipv4_numeric (ni_ip_address ni) = Inr own_ip"
    by (rule own_ip_exists)
  show ?thesis
    by (rule runs_mono [OF recv_frame_runs [OF assms(1) own assms(2)]])
      (use assms(1) in \<open>auto split: option.splits dest: heard_wf arp_effect_wf\<close>)
qed

text \<open>
  A frame of any type but IPv4 is taken for ARP: the type \<^verbatim>\<open>TYPE_ARP\<close> is never compared with.
\<close>

lemma unknown_type_is_arp:
  assumes "eth_type (ef_header f) \<noteq> EthernetHeader_TYPE_IPv4"
  shows "NetworkInterface_recv_frame ni f =
    NetworkInterface_recv_frame ni (f\<lparr>ef_header := (ef_header f)\<lparr>eth_type := EthernetHeader_TYPE_ARP\<rparr>\<rparr>)"
  using assms by (simp add: NetworkInterface_recv_frame_def EthernetHeader_TYPE_ARP_def EthernetHeader_TYPE_IPv4_def)

section \<open>Runs of an interface\<close>

text \<open>
  What can happen to an interface: a datagram is handed to it, a frame arrives, time passes, and
  the owner takes frames from the queue.  The clock of the model does not wrap around: it counts
  milliseconds in 64 bits.
\<close>

inductive interface_step :: "network_interface \<Rightarrow> network_interface \<Rightarrow> bool" where
  Send: "sendable d \<Longrightarrow> Address_ipv4_numeric next_hop = Inr ip \<Longrightarrow>
    NetworkInterface_send_datagram ni d next_hop = Inr ni' \<Longrightarrow> interface_step ni ni'"
| Receive: "receivable f \<Longrightarrow> NetworkInterface_recv_frame ni f = Inr (ni', r) \<Longrightarrow> interface_step ni ni'"
| Tick: "unat (ni_timer ni) + unat ms + 30000 < 2 ^ 64 \<Longrightarrow> interface_step ni (NetworkInterface_tick ni ms)"
| Take: "interface_step ni (ni\<lparr>ni_frames_out := drop n (ni_frames_out ni)\<rparr>)"

lemma interface_step_wf: "interface_step ni ni' \<Longrightarrow> NetworkInterface_wf ni \<Longrightarrow> NetworkInterface_wf ni'"
proof (induction rule: interface_step.induct)
  case (Send d next_hop ip ni ni')
  then show ?case
    using send_datagram_wf [of ni d next_hop ip] by simp
next
  case (Receive f ni ni' r)
  then show ?case
    using recv_frame_wf [of ni f] by simp
next
  case (Take ni n)
  then show ?case
    by (simp add: NetworkInterface_wf_def)
qed (rule tick_wf)

text \<open>
  A request for \<open>ip\<close> that is good until \<open>t\<close> leaves a trace until then: an entry of the queue, or
  the answer in the table.
\<close>

definition asked :: "u32 \<Rightarrow> size_t \<Rightarrow> network_interface \<Rightarrow> bool" where
  "asked ip t ni \<longleftrightarrow>
     unat (ni_timer ni) + 30000 < 2 ^ 64 \<and> unat t \<le> unat (ni_timer ni) + 30000 \<and>
     (unat t \<le> unat (ni_timer ni) \<or> (\<exists>d. (d, ip, t) \<in> set (ni_dgram_delay_queue ni)) \<or>
      (\<exists>e t'. ni_address_table ni ip = Some (e, t') \<and> unat t \<le> unat t'))"

lemma asked_frames [simp]: "asked ip t (ni\<lparr>ni_frames_out := fs\<rparr>) = asked ip t ni"
  by (simp add: asked_def)

lemma asked_frames_queue [simp]:
  "asked ip t (ni\<lparr>ni_frames_out := fs, ni_dgram_delay_queue := q\<rparr>) = asked ip t (ni\<lparr>ni_dgram_delay_queue := q\<rparr>)"
  by (simp add: asked_def)

lemma asked_queue: "asked ip t ni \<Longrightarrow> asked ip t (ni\<lparr>ni_dgram_delay_queue := ni_dgram_delay_queue ni @ qs\<rparr>)"
  by (auto simp: asked_def)

lemma asked_tick:
  assumes "asked ip t ni" "unat (ni_timer ni) + unat ms + 30000 < 2 ^ 64"
  shows "asked ip t (NetworkInterface_tick ni ms)"
proof -
  have "unat (ni_timer ni + ms) = unat (ni_timer ni) + unat ms"
    using assms(2) by (simp add: unat_add_nowrap)
  then show ?thesis
    using assms by (auto simp: asked_def NetworkInterface_tick_def Let_def word_less_nat_alt split: option.splits)
qed

lemma asked_arp_effect:
  assumes "asked ip t ni" "arp_effect ni own_ip m ni'"
  shows "asked ip t ni'"
proof -
  have "unat (ni_timer ni + 30000) = unat (ni_timer ni) + 30000"
    using assms(1) by (simp add: asked_def unat_add_nowrap)
  moreover have "ni_timer ni' = ni_timer ni"
    "ni_address_table ni' = (ni_address_table ni)(sender_ip_address m \<mapsto> (sender_ethernet_address m, ni_timer ni + 30000))"
    "ni_dgram_delay_queue ni' = filter (\<lambda>(d, ip, t). ip \<noteq> sender_ip_address m) (ni_dgram_delay_queue ni)"
    using assms(2) by (auto simp: arp_effect_def learned_def)
  ultimately show ?thesis
    using assms(1) by (auto simp: asked_def)
qed

lemma interface_step_asked:
  "interface_step ni ni' \<Longrightarrow> NetworkInterface_wf ni \<Longrightarrow> asked ip t ni \<Longrightarrow> asked ip t ni'"
proof (induction rule: interface_step.induct)
  case (Send d next_hop ip' ni ni')
  from Send.prems(1) obtain own_ip where own: "Address_ipv4_numeric (ni_ip_address ni) = Inr own_ip"
    by (rule own_ip_exists)
  show ?case
    using Send.hyps(3) Send.prems(2) asked_queue [of ip t ni]
    unfolding send_datagram_eq [OF Send.hyps(2) own]
    by (auto simp: bindE_Inr_iff split: option.splits if_splits)
next
  case (Receive f ni ni' r)
  from Receive.prems(1) obtain own_ip where own: "Address_ipv4_numeric (ni_ip_address ni) = Inr own_ip"
    by (rule own_ip_exists)
  show ?case
    using recv_frame_runs [OF Receive.prems(1) own Receive.hyps(1)] Receive.hyps(2) Receive.prems(2)
    by (auto split: option.splits intro: asked_arp_effect)
next
  case (Tick ni ms)
  then show ?case
    by (simp add: asked_tick)
qed simp

abbreviation interface_run :: "network_interface \<Rightarrow> network_interface \<Rightarrow> bool" where
  "interface_run \<equiv> interface_step\<^sup>*\<^sup>*"

lemma interface_run_wf: "interface_run ni ni' \<Longrightarrow> NetworkInterface_wf ni \<Longrightarrow> NetworkInterface_wf ni'"
  by (induction rule: rtranclp_induct) (auto dest: interface_step_wf)

lemma interface_run_asked:
  "interface_run ni ni' \<Longrightarrow> NetworkInterface_wf ni \<Longrightarrow> asked ip t ni \<Longrightarrow> asked ip t ni'"
  by (induction rule: rtranclp_induct) (auto dest: interface_step_asked interface_run_wf)

section \<open>Properties\<close>



text \<open>
  C12. Requests are not repeated within five seconds: when handing over a datagram for a next hop
  made the interface send an ARP request, then whatever happens in the following five seconds,
  another datagram for that next hop either goes out at once as an IPv4 frame or waits, and no
  second request is sent.
\<close>

theorem arp_request_not_repeated:
  assumes "length e = 6" "Address_ipv4_numeric a = Inr own_ip" "interface_run (NetworkInterface_new e a) ni"
    and "Address_ipv4_numeric next_hop = Inr ip" "unat (ni_timer ni) + 30000 < 2 ^ 64" "sendable d"
    and "NetworkInterface_send_datagram ni d next_hop = Inr ni1"
      "ni_frames_out ni1 = ni_frames_out ni @ [f]" "eth_type (ef_header f) = EthernetHeader_TYPE_ARP"
    and "interface_run ni1 ni2" "unat (ni_timer ni2) < unat (ni_timer ni) + 5000" "sendable d2"
  shows "runs (NetworkInterface_send_datagram ni2 d2 next_hop) (\<lambda>ni3.
    ni_frames_out ni3 = ni_frames_out ni2 \<or>
    (\<exists>f2. ni_frames_out ni3 = ni_frames_out ni2 @ [f2] \<and> eth_type (ef_header f2) = EthernetHeader_TYPE_IPv4))"
proof -
  have wf: "NetworkInterface_wf ni"
    using interface_run_wf [OF assms(3) NetworkInterface_new_wf] assms(1,2) .
  from wf obtain own_ip' where own: "Address_ipv4_numeric (ni_ip_address ni) = Inr own_ip'"
    by (rule own_ip_exists)
  let ?t = "ni_timer ni + 5000"
  have t: "unat ?t = unat (ni_timer ni) + 5000"
    using assms(5) by (simp add: unat_add_nowrap)
  have "(d, ip, ?t) \<in> set (ni_dgram_delay_queue ni1) \<and> ni_timer ni1 = ni_timer ni"
    using assms(7-9) own
    by (auto simp: send_datagram_eq [OF assms(4)] bindE_Inr_iff EthernetHeader_TYPE_ARP_def
        EthernetHeader_TYPE_IPv4_def dest!: ipv4_frame_type split: option.splits if_splits)
  then have "asked ip ?t ni1"
    using assms(5) t by (auto simp: asked_def)
  moreover have wf1: "NetworkInterface_wf ni1"
    using send_datagram_wf [OF wf assms(6,4)] assms(7) by simp
  ultimately have "asked ip ?t ni2" and wf2: "NetworkInterface_wf ni2"
    using assms(10) interface_run_asked interface_run_wf by blast+
  then consider d' where "(d', ip, ?t) \<in> set (ni_dgram_delay_queue ni2)"
    | e' t' where "ni_address_table ni2 ip = Some (e', t')"
    using assms(11) t by (auto simp: asked_def)
  moreover have "ni_timer ni2 < ?t"
    using assms(11) t by (simp add: word_less_nat_alt)
  ultimately have "NetworkInterface_request_pending ip (ni_timer ni2) (ni_dgram_delay_queue ni2) \<or>
      ni_address_table ni2 ip \<noteq> None"
    by cases (auto simp: request_pending_iff)
  moreover have "runs (NetworkInterface_ipv4_frame ni2 d2 e) (\<lambda>g. eth_type (ef_header g) = EthernetHeader_TYPE_IPv4)" for e
    using ipv4_frame_returns [OF assms(12), of ni2 e] by auto
  moreover from wf2 obtain own_ip2 where "Address_ipv4_numeric (ni_ip_address ni2) = Inr own_ip2"
    by (rule own_ip_exists)
  ultimately show ?thesis
    by (auto simp: send_datagram_eq [OF assms(4)] split: option.splits)
qed

theorem arp_request_not_repeated_witness:
  "runs (NetworkInterface_send_datagram (NetworkInterface_new [2, 0, 0, 0, 0, 1] (ipv4_address 0x0a000001))
      \<lparr>dg_header = IPv4Header_default\<lparr>ip_len := 20\<rparr>, dg_payload = []\<rparr> (ipv4_address 0x0a000002)) (\<lambda>ni1.
    length (ni_frames_out ni1) = 1 \<and>
    runs (NetworkInterface_send_datagram (NetworkInterface_tick ni1 4999)
        \<lparr>dg_header = IPv4Header_default\<lparr>ip_len := 20\<rparr>, dg_payload = []\<rparr> (ipv4_address 0x0a000002)) (\<lambda>ni3.
      ni_frames_out ni3 = ni_frames_out (NetworkInterface_tick ni1 4999) \<or>
      (\<exists>f2. ni_frames_out ni3 = ni_frames_out (NetworkInterface_tick ni1 4999) @ [f2] \<and>
        eth_type (ef_header f2) = EthernetHeader_TYPE_IPv4)))"
proof -
  let ?d = "\<lparr>dg_header = IPv4Header_default\<lparr>ip_len := 20\<rparr>, dg_payload = []\<rparr>"
  let ?new = "NetworkInterface_new [2, 0, 0, 0, 0, 1] (ipv4_address 0x0a000001)"
  let ?ni1 = "?new\<lparr>ni_frames_out := [arp_request_frame ?new 0x0a000001 0x0a000002],
    ni_dgram_delay_queue := [(?d, 0x0a000002, 5000)]\<rparr>"
  have "IPv4Datagram_wf ?d"
    by (simp add: IPv4Datagram_wf_def IPv4Header_wf_def IPv4Header_default_def IPv4Header_LENGTH_def)
  then have d: "sendable ?d"
    by (rule IPv4Datagram_serialized) (simp add: sendable_def)
  have ni1: "NetworkInterface_send_datagram ?new ?d (ipv4_address 0x0a000002) = Inr ?ni1"
    by (subst send_datagram_eq [where ip = "0x0a000002" and own_ip = "0x0a000001"])
      (simp_all add: NetworkInterface_new_def)
  have run: "interface_run ?ni1 (NetworkInterface_tick ?ni1 4999)"
    by (intro r_into_rtranclp interface_step.Tick) (simp add: NetworkInterface_new_def)
  show ?thesis
    unfolding ni1 runs_Inr
    using arp_request_not_repeated [of "[2, 0, 0, 0, 0, 1]" "ipv4_address 0x0a000001" "0x0a000001" ?new
        "ipv4_address 0x0a000002" "0x0a000002" ?d ?ni1 _ "NetworkInterface_tick ?ni1 4999" ?d] d ni1 run
    by (simp add: arp_request_frame_def NetworkInterface_tick_def Let_def) (simp add: NetworkInterface_new_def)
qed

end
