(* ===== verification/Routing.thy ===== *)
theory Routing
  imports Resolution
begin

text \<open>
  \<^verbatim>\<open>libsponge/router.{hh,cc}\<close>: the asynchronous interface, which stores the datagrams it receives,
  and the router.  The table lookup is longest-prefix match for tables without host bits;
  datagrams are forwarded with their time to live decremented.
\<close>

section \<open>State and operations\<close>

text \<open>\<^verbatim>\<open>AsyncNetworkInterface\<close> is derived from \<^verbatim>\<open>NetworkInterface\<close>; its base object is the first field.\<close>

record async_network_interface =
  ani_base :: network_interface
  ani_datagrams_out :: "ipv4_datagram list"

definition AsyncNetworkInterface_of :: "network_interface \<Rightarrow> async_network_interface" where
  "AsyncNetworkInterface_of interface = \<lparr>ani_base = interface, ani_datagrams_out = []\<rparr>"

definition AsyncNetworkInterface_recv_frame ::
  "async_network_interface \<Rightarrow> ethernet_frame \<Rightarrow> async_network_interface outcome" where
  "AsyncNetworkInterface_recv_frame x frame =
     bindE (NetworkInterface_recv_frame (ani_base x) frame) (\<lambda>(base, optional_dgram).
       let x = x\<lparr>ani_base := base\<rparr>
       in case optional_dgram of
            Some dgram \<Rightarrow> Inr (x\<lparr>ani_datagrams_out := ani_datagrams_out x @ [dgram]\<rparr>)
          | None \<Rightarrow> Inr x)"

definition AsyncNetworkInterface_send_datagram ::
  "async_network_interface \<Rightarrow> ipv4_datagram \<Rightarrow> address \<Rightarrow> async_network_interface outcome" where
  "AsyncNetworkInterface_send_datagram x dgram next_hop =
     bindE (NetworkInterface_send_datagram (ani_base x) dgram next_hop) (\<lambda>base. Inr (x\<lparr>ani_base := base\<rparr>))"

type_synonym routes = "u32 \<times> u8 \<rightharpoonup> address option \<times> size_t"

record router =
  rt_interfaces :: "async_network_interface list"
  rt_routes :: routes

definition Router_new :: router where
  "Router_new = \<lparr>rt_interfaces = [], rt_routes = Map.empty\<rparr>"

definition Router_add_interface :: "router \<Rightarrow> async_network_interface \<Rightarrow> router \<times> size_t" where
  "Router_add_interface r interface =
     (let r = r\<lparr>rt_interfaces := rt_interfaces r @ [interface]\<rparr> in (r, sz (rt_interfaces r) - 1))"

text \<open>\<^verbatim>\<open>interface(N)\<close> is a reference into the vector: a read and a write.  \<^verbatim>\<open>at\<close> throws out of range.\<close>

definition Router_interface :: "router \<Rightarrow> size_t \<Rightarrow> async_network_interface outcome" where
  "Router_interface r N =
     (if unat N < length (rt_interfaces r) then Inr (rt_interfaces r ! unat N)
      else Inl (Out_of_range ''vector::_M_range_check''))"

definition Router_set_interface :: "router \<Rightarrow> size_t \<Rightarrow> async_network_interface \<Rightarrow> router" where
  "Router_set_interface r N x = r\<lparr>rt_interfaces := (rt_interfaces r)[unat N := x]\<rparr>"

definition Router_add_route :: "router \<Rightarrow> u32 \<Rightarrow> u8 \<Rightarrow> address option \<Rightarrow> size_t \<Rightarrow> router" where
  "Router_add_route r route_prefix prefix_length next_hop interface_num =
     r\<lparr>rt_routes := (rt_routes r)((route_prefix, prefix_length) \<mapsto> (next_hop, interface_num))\<rparr>"

text \<open>The loops that divide by two and multiply by two.\<close>

primrec Router_halve :: "nat \<Rightarrow> u32 \<Rightarrow> u32" where
  "Router_halve 0 dst_part = dst_part"
| "Router_halve (Suc j) dst_part = Router_halve j (dst_part div 2)"

primrec Router_double :: "nat \<Rightarrow> u32 \<Rightarrow> u32" where
  "Router_double 0 dst_part = dst_part"
| "Router_double (Suc j) dst_part = Router_double j (dst_part * 2)"

text \<open>The loop over prefix lengths, from 32 down to 0, with the 8-bit counter of the code.\<close>

function Router_find_route :: "routes \<Rightarrow> u32 \<Rightarrow> u8 \<Rightarrow> (address option \<times> size_t) option" where
  "Router_find_route routes dst i =
     (if i \<le> 32 then
        let dst_part = Router_double (unat i) (Router_halve (unat i) dst)
        in case routes (dst_part, 32 - i) of
             Some route_info \<Rightarrow> Some route_info
           | None \<Rightarrow> Router_find_route routes dst (i + 1)
      else None)"
  by pat_completeness auto
termination
proof (relation "measure (\<lambda>(_, _, i). 33 - unat i)", goal_cases)
  case (2 routes dst i)
  then have i: "unat i \<le> 32"
    by (simp add: word_le_nat_alt)
  then have "unat (i + 1) = unat i + 1"
    by (simp add: unat_add_nowrap)
  then show ?case
    using i by simp
qed simp

declare Router_find_route.simps [simp del]

definition Router_route_one_datagram :: "router \<Rightarrow> ipv4_datagram \<Rightarrow> router outcome" where
  "Router_route_one_datagram r dgram =
     (case Router_find_route (rt_routes r) (ip_dst (dg_header dgram)) 0 of
        None \<Rightarrow> Inr r
      | Some (next_hop, interface_num) \<Rightarrow>
          bindE (case next_hop of Some a \<Rightarrow> Inr a | None \<Rightarrow> Address_from_ipv4_numeric (ip_dst (dg_header dgram)))
            (\<lambda>next_hop.
              if ip_ttl (dg_header dgram) = 0 then Inr r
              else
                let new_dgram = dgram\<lparr>dg_header := (dg_header dgram)\<lparr>ip_ttl := ip_ttl (dg_header dgram) - 1\<rparr>\<rparr>
                in if ip_ttl (dg_header new_dgram) = 0 then Inr r
                   else bindE (Router_interface r interface_num) (\<lambda>x.
                        bindE (AsyncNetworkInterface_send_datagram x new_dgram next_hop) (\<lambda>x.
                          Inr (Router_set_interface r interface_num x)))))"

text \<open>
  The two loops of \<^verbatim>\<open>route\<close>.  Sending a datagram does not add to any \<^verbatim>\<open>datagrams_out\<close>, so the inner
  loop runs once for every datagram in the queue when it starts.
\<close>

fun Router_route_queue :: "router \<Rightarrow> size_t \<Rightarrow> ipv4_datagram list \<Rightarrow> router outcome" where
  "Router_route_queue r N [] = Inr r"
| "Router_route_queue r N (dgram # queue) =
     bindE (Router_route_one_datagram r dgram) (\<lambda>r.
     bindE (Router_interface r N) (\<lambda>x.
       Router_route_queue (Router_set_interface r N (x\<lparr>ani_datagrams_out := tl (ani_datagrams_out x)\<rparr>)) N queue))"

fun Router_route_interfaces :: "router \<Rightarrow> nat list \<Rightarrow> router outcome" where
  "Router_route_interfaces r [] = Inr r"
| "Router_route_interfaces r (n # ns) =
     bindE (Router_interface r (word_of_nat n)) (\<lambda>x.
     bindE (Router_route_queue r (word_of_nat n) (ani_datagrams_out x)) (\<lambda>r.
       Router_route_interfaces r ns))"

definition Router_route :: "router \<Rightarrow> router outcome" where
  "Router_route r = Router_route_interfaces r [0..<length (rt_interfaces r)]"

section \<open>The lookup\<close>

lemma Router_halve_eq: "Router_halve j x = drop_bit j x"
proof (induction j arbitrary: x)
  case (Suc j)
  have "x div 2 = drop_bit 1 x"
    by (simp add: drop_bit_eq_div)
  then show ?case
    using Suc by (simp add: drop_bit_drop_bit)
qed simp

lemma Router_double_eq: "Router_double j x = push_bit j x"
proof (induction j arbitrary: x)
  case (Suc j)
  have "x * 2 = push_bit 1 x"
    by (simp add: push_bit_eq_mult)
  then show ?case
    using Suc by (simp add: push_bit_push_bit)
qed simp

text \<open>A prefix of the table matches an address when their leading bits agree.\<close>

definition prefix_matches :: "u32 \<times> u8 \<Rightarrow> u32 \<Rightarrow> bool" where
  "prefix_matches = (\<lambda>(p, n) dst. drop_bit (32 - unat n) p = drop_bit (32 - unat n) dst)"

text \<open>A table is canonical when prefixes have at most 32 bits and no bits beyond their length.\<close>

definition canonical :: "routes \<Rightarrow> bool" where
  "canonical routes \<longleftrightarrow> (\<forall>p n. (p, n) \<in> dom routes \<longrightarrow>
     n \<le> 32 \<and> push_bit (32 - unat n) (drop_bit (32 - unat n) p) = p)"

lemma drop_push_drop: "drop_bit k (push_bit k (drop_bit k x)) = drop_bit k (x :: u32)"
proof (rule bit_eqI)
  fix n
  have "bit x (k + n) \<Longrightarrow> k + n < 32"
    using bit_imp_le_length [of x "k + n"] by simp
  then show "bit (drop_bit k (push_bit k (drop_bit k x))) n = bit (drop_bit k x) n"
    by (auto simp: bit_drop_bit_eq bit_push_bit_iff)
qed

lemma canonical_match:
  assumes "canonical routes" "(p, n) \<in> dom routes"
  shows "prefix_matches (p, n) dst \<longleftrightarrow> p = push_bit (32 - unat n) (drop_bit (32 - unat n) dst)"
proof
  have "push_bit (32 - unat n) (drop_bit (32 - unat n) p) = p"
    using assms by (simp only: canonical_def)
  moreover assume "prefix_matches (p, n) dst"
  ultimately show "p = push_bit (32 - unat n) (drop_bit (32 - unat n) dst)"
    by (simp only: prefix_matches_def prod.case)
next
  assume p: "p = push_bit (32 - unat n) (drop_bit (32 - unat n) dst)"
  then show "prefix_matches (p, n) dst"
    by (simp only: prefix_matches_def prod.case drop_push_drop)
qed

text \<open>The loop looks up one key per prefix length; it finds the longest in the table.\<close>

definition route_key :: "u32 \<Rightarrow> nat \<Rightarrow> u32 \<times> u8" where
  "route_key dst n = (push_bit (32 - n) (drop_bit (32 - n) dst), word_of_nat n)"

lemma find_rev_upt_Suc:
  "List.find P (rev [0..<Suc n]) = (if P n then Some n else List.find P (rev [0..<n]))"
  by simp

lemma find_rev_upt:
  "(List.find P (rev [0..<k]) = Some n \<longleftrightarrow> n < k \<and> P n \<and> (\<forall>m. n < m \<and> m < k \<longrightarrow> \<not> P m)) \<and>
   (List.find P (rev [0..<k]) = None \<longleftrightarrow> (\<forall>m < k. \<not> P m))"
proof (induction k)
  case (Suc k)
  then show ?case
    unfolding find_rev_upt_Suc by (auto simp: less_Suc_eq)
qed simp

lemma find_route_eq:
  "unat i \<le> 33 \<Longrightarrow> Router_find_route routes dst i =
     Option.bind (List.find (\<lambda>n. routes (route_key dst n) \<noteq> None) (rev [0..<33 - unat i])) (\<lambda>n. routes (route_key dst n))"
proof (induction routes dst i rule: Router_find_route.induct)
  case (1 routes dst i)
  show ?case
  proof (cases "i \<le> 32")
    case False
    then have "33 - unat i = 0"
      by (simp add: word_le_nat_alt)
    then show ?thesis
      using False by (simp add: Router_find_route.simps [of routes dst i])
  next
    case True
    then have i: "unat i \<le> 32"
      by (simp add: word_le_nat_alt)
    then have suc: "unat (i + 1) = unat i + 1" "33 - unat i = Suc (32 - unat i)"
      by (simp_all add: unat_add_nowrap)
    have "(32 :: u8) - i = word_of_nat (32 - unat i)"
      using i True by (simp add: word_eq_unat unat_sub_nowrap unat_of_nat_eq)
    then have key: "route_key dst (32 - unat i) = (Router_double (unat i) (Router_halve (unat i) dst), 32 - i)"
      using i by (simp add: route_key_def Router_double_eq Router_halve_eq)
    show ?thesis
    proof (cases "routes (route_key dst (32 - unat i))")
      case None
      then have "Router_find_route routes dst i = Router_find_route routes dst (i + 1)"
        using True key by (simp add: Router_find_route.simps [of routes dst i])
      also have "\<dots> = Option.bind (List.find (\<lambda>n. routes (route_key dst n) \<noteq> None) (rev [0..<33 - unat (i + 1)]))
          (\<lambda>n. routes (route_key dst n))"
        using "1.IH" [OF True refl] None i suc key by simp
      finally show ?thesis
        using None suc by (simp only: find_rev_upt_Suc) simp
    next
      case (Some info)
      then show ?thesis
        unfolding suc(2) find_rev_upt_Suc
        using True key by (simp add: Router_find_route.simps [of routes dst i])
    qed
  qed
qed

lemma route_key_matches:
  assumes "canonical routes" "(p, n) \<in> dom routes"
  shows "prefix_matches (p, n) dst \<longleftrightarrow> route_key dst (unat n) = (p, n)" "unat n \<le> 32"
  using assms canonical_match [OF assms]
  by (auto simp: route_key_def canonical_def word_le_nat_alt simp del: unsigned_of_nat)

lemma find_route_cong:
  assumes "\<And>k. k \<le> 32 \<Longrightarrow> routes (route_key dst k) = routes' (route_key dst k)"
  shows "Router_find_route routes dst 0 = Router_find_route routes' dst 0"
proof -
  define lengths :: nat where "lengths = 33"
  have eq: "routes (route_key dst k) = routes' (route_key dst k)" if "k < lengths" for k
    using assms that by (simp add: lengths_def)
  have "List.find (\<lambda>n. routes (route_key dst n) \<noteq> None) (rev [0..<lengths]) =
      List.find (\<lambda>n. routes' (route_key dst n) \<noteq> None) (rev [0..<lengths])"
    by (rule List.find_cong) (simp_all add: eq)
  then have "Option.bind (List.find (\<lambda>n. routes (route_key dst n) \<noteq> None) (rev [0..<lengths])) (\<lambda>n. routes (route_key dst n)) =
      Option.bind (List.find (\<lambda>n. routes' (route_key dst n) \<noteq> None) (rev [0..<lengths])) (\<lambda>n. routes' (route_key dst n))"
    by (rule Option.bind_cong) (use find_rev_upt eq in blast)
  then show ?thesis
    using find_route_eq [of 0 routes dst] find_route_eq [of 0 routes' dst]
    by (simp only: unat_0 diff_zero le0 simp_thms lengths_def)
qed

text \<open>
  The prefix is stored as it is given.  A route with bits beyond its length is never found, not
  even for its own address: adding it changes nothing.
\<close>

lemma host_bits_never_match:
  assumes "push_bit (32 - unat n) (drop_bit (32 - unat n) p) \<noteq> p" "n \<le> 32"
  shows "Router_find_route (rt_routes (Router_add_route r p n next_hop interface_num)) dst 0 =
    Router_find_route (rt_routes r) dst 0"
proof (rule find_route_cong)
  fix k :: nat
  assume k: "k \<le> 32"
  have "route_key dst k \<noteq> (p, n)"
  proof
    assume "route_key dst k = (p, n)"
    then have p: "p = push_bit (32 - k) (drop_bit (32 - k) dst)" and "n = word_of_nat k"
      by (simp_all add: route_key_def)
    then have "unat n = k"
      using k by (simp add: unat_of_nat_eq)
    then show False
      using assms(1) drop_push_drop [of "32 - k" dst] p by simp
  qed
  then show "rt_routes (Router_add_route r p n next_hop interface_num) (route_key dst k) = rt_routes r (route_key dst k)"
    by (simp add: Router_add_route_def)
qed

section \<open>Forwarding\<close>

lemma sendable_iff:
  "sendable d \<longleftrightarrow> BufferList_size (dg_payload d) = ucast (IPv4Header_payload_length (dg_header d)) \<and>
     ip_ver (dg_header d) = 4 \<and> 20 \<le> 4 * unat (ip_hlen (dg_header d))"
  by (auto simp: sendable_def IPv4Datagram_serialize_def IPv4Header_serialize_def Let_def IPv4Header_LENGTH_def)

lemma sendable_ttl [simp]:
  "sendable (d\<lparr>dg_header := (dg_header d)\<lparr>ip_ttl := t\<rparr>\<rparr>) = sendable d"
  by (simp add: sendable_iff IPv4Header_payload_length_def)

text \<open>
  A router is well formed when its interfaces are, its routes lead to interfaces it has and to
  IPv4 addresses, and the datagrams it received can be sent.
\<close>

definition Router_wf :: "router \<Rightarrow> bool" where
  "Router_wf r \<longleftrightarrow> fits (rt_interfaces r) \<and>
     (\<forall>x \<in> set (rt_interfaces r). NetworkInterface_wf (ani_base x) \<and> list_all sendable (ani_datagrams_out x)) \<and>
     (\<forall>next_hop n. (next_hop, n) \<in> ran (rt_routes r) \<longrightarrow>
        unat n < length (rt_interfaces r) \<and> (\<forall>a. next_hop = Some a \<longrightarrow> returns (Address_ipv4_numeric a)))"

abbreviation received :: "router \<Rightarrow> ipv4_datagram list list" where
  "received r \<equiv> map ani_datagrams_out (rt_interfaces r)"

definition router_frame :: "router \<Rightarrow> ipv4_datagram list list \<Rightarrow> router \<Rightarrow> bool" where
  "router_frame r q r' \<longleftrightarrow> Router_wf r' \<and> rt_routes r' = rt_routes r \<and> received r' = q"

lemma router_frame_refl: "Router_wf r \<Longrightarrow> router_frame r (received r) r"
  by (simp add: router_frame_def)

lemma set_interface_wf:
  assumes "Router_wf r" "unat n < length (rt_interfaces r)" "NetworkInterface_wf (ani_base x)"
    "list_all sendable (ani_datagrams_out x)"
  shows "router_frame r ((received r)[unat n := ani_datagrams_out x]) (Router_set_interface r n x)"
  using assms set_update_subset_insert [of "rt_interfaces r" "unat n" x]
  by (auto simp: Router_wf_def router_frame_def Router_set_interface_def map_update fits_def)

lemma find_route_ran: "Router_find_route routes dst i = Some info \<Longrightarrow> unat i \<le> 33 \<Longrightarrow> info \<in> ran routes"
  by (auto simp: find_route_eq bind_eq_Some_conv intro: ranI)

lemma route_one_datagram_runs:
  assumes wf: "Router_wf r" and d: "sendable d"
  shows "runs (Router_route_one_datagram r d) (router_frame r (received r))"
proof (cases "Router_find_route (rt_routes r) (ip_dst (dg_header d)) 0")
  case None
  then show ?thesis
    using wf by (simp add: Router_route_one_datagram_def router_frame_def)
next
  case (Some info)
  obtain next_hop n where info: "info = (next_hop, n)"
    by (cases info)
  have "(next_hop, n) \<in> ran (rt_routes r)"
    using Some info by (auto intro: find_route_ran)
  then have n: "unat n < length (rt_interfaces r)" and nh: "\<And>a. next_hop = Some a \<Longrightarrow> returns (Address_ipv4_numeric a)"
    using wf by (auto simp: Router_wf_def)
  let ?x = "rt_interfaces r ! unat n"
  have x: "NetworkInterface_wf (ani_base ?x)" "list_all sendable (ani_datagrams_out ?x)"
    using wf n by (auto simp: Router_wf_def)
  have same: "router_frame r (received r) (Router_set_interface r n (?x\<lparr>ani_base := ni\<rparr>))" if "NetworkInterface_wf ni" for ni
  proof -
    have "(received r)[unat n := ani_datagrams_out ?x] = received r"
      using n by (metis list_update_id nth_map)
    then show ?thesis
      using set_interface_wf [OF wf n, of "?x\<lparr>ani_base := ni\<rparr>"] that x by simp
  qed
  obtain a ip where a: "(case next_hop of Some a \<Rightarrow> Inr a | None \<Rightarrow> Address_from_ipv4_numeric (ip_dst (dg_header d))) = Inr a"
    "Address_ipv4_numeric a = Inr ip"
    using nh by (cases next_hop) (auto simp: Address_from_ipv4_numeric_eq returns_def)
  let ?d = "d\<lparr>dg_header := (dg_header d)\<lparr>ip_ttl := ip_ttl (dg_header d) - 1\<rparr>\<rparr>"
  have "runs (NetworkInterface_send_datagram (ani_base ?x) ?d a) NetworkInterface_wf"
    using send_datagram_wf [OF x(1) _ a(2)] d by simp
  then show ?thesis
    using Some wf n a(1)
    by (auto simp: Router_route_one_datagram_def info Let_def Router_interface_def
        AsyncNetworkInterface_send_datagram_def elim!: runs_mono intro: same router_frame_refl)
qed

lemma route_queue_runs:
  assumes "Router_wf r" "n < length (rt_interfaces r)" "ani_datagrams_out (rt_interfaces r ! n) = q"
  shows "runs (Router_route_queue r (word_of_nat n) q) (router_frame r ((received r)[n := []]))"
  using assms
proof (induction q arbitrary: r)
  case Nil
  then have "(received r)[n := []] = received r"
    by (metis list_update_id nth_map)
  then show ?case
    using Nil by (simp add: router_frame_refl)
next
  case (Cons d q)
  have u: "unat (word_of_nat n :: size_t) = n"
    using Cons.prems by (intro unat_of_nat_eq) (simp add: Router_wf_def fits_def)
  have "list_all sendable (d # q)"
    using Cons.prems by (metis Router_wf_def nth_mem)
  then have d: "sendable d" and q: "list_all sendable q"
    by simp_all
  show ?case
    unfolding Router_route_queue.simps runs_bindE
  proof (rule runs_mono [OF route_one_datagram_runs [OF Cons.prems(1) d]])
    fix r1
    assume "router_frame r (received r) r1"
    then have wf1: "Router_wf r1" and r1: "rt_routes r1 = rt_routes r" "received r1 = received r"
      by (simp_all add: router_frame_def)
    have n1: "n < length (rt_interfaces r1)"
      using Cons.prems(2) map_eq_imp_length_eq [OF r1(2)] by simp
    let ?x = "rt_interfaces r1 ! n"
    let ?r2 = "Router_set_interface r1 (word_of_nat n) (?x\<lparr>ani_datagrams_out := tl (ani_datagrams_out ?x)\<rparr>)"
    have x: "ani_datagrams_out ?x = d # q"
      using Cons.prems(2,3) r1(2) n1 by (metis nth_map)
    then have fr: "router_frame r1 ((received r1)[n := q]) ?r2"
      using set_interface_wf [OF wf1, of "word_of_nat n" "?x\<lparr>ani_datagrams_out := tl (ani_datagrams_out ?x)\<rparr>"]
        wf1 n1 q by (simp add: u Router_wf_def)
    then have "runs (Router_route_queue ?r2 (word_of_nat n) q) (router_frame ?r2 ((received ?r2)[n := []]))"
      using n1 u by (intro Cons.IH) (auto simp: router_frame_def Router_set_interface_def x)
    then have "runs (Router_route_queue ?r2 (word_of_nat n) q) (router_frame r ((received r)[n := []]))"
      by (rule runs_mono) (use fr r1 in \<open>auto simp: router_frame_def\<close>)
    then show "runs (Router_interface r1 (word_of_nat n)) (\<lambda>x. runs (Router_route_queue
        (Router_set_interface r1 (word_of_nat n) (x\<lparr>ani_datagrams_out := tl (ani_datagrams_out x)\<rparr>)) (word_of_nat n) q)
        (router_frame r ((received r)[n := []])))"
      using n1 by (simp add: Router_interface_def u)
  qed
qed

lemma route_interfaces_runs:
  assumes "Router_wf r" "set ns \<subseteq> {..<length (rt_interfaces r)}"
  shows "runs (Router_route_interfaces r ns) (\<lambda>r'. router_frame r (foldl (\<lambda>q n. q[n := []]) (received r) ns) r')"
  using assms
proof (induction ns arbitrary: r)
  case Nil
  then show ?case
    by (simp add: router_frame_refl)
next
  case (Cons n ns)
  then have n: "n < length (rt_interfaces r)"
    by simp
  have u: "unat (word_of_nat n :: size_t) = n"
    using Cons.prems(1) n by (intro unat_of_nat_eq) (simp add: Router_wf_def fits_def)
  have "runs (Router_route_interfaces r1 ns) (router_frame r (foldl (\<lambda>q n. q[n := []]) (received r) (n # ns)))"
    if r1: "router_frame r ((received r)[n := []]) r1" for r1
  proof (rule runs_mono [OF Cons.IH [of r1]])
    show "Router_wf r1"
      using r1 by (simp add: router_frame_def)
    have "length (received r1) = length (received r)"
      using r1 by (simp only: router_frame_def length_list_update)
    then show "set ns \<subseteq> {..<length (rt_interfaces r1)}"
      using Cons.prems(2) by simp
  qed (use r1 in \<open>simp add: router_frame_def\<close>)
  then show ?case
    using n route_queue_runs [OF Cons.prems(1) n refl] by (auto simp: Router_interface_def u elim!: runs_mono)
qed

lemma foldl_clear: "k \<le> length q \<Longrightarrow> foldl (\<lambda>q n. q[n := []]) q [0..<k] = replicate k [] @ drop k q"
proof (induction k)
  case (Suc k)
  then have "drop k q = q ! k # drop (Suc k) q"
    by (simp add: Cons_nth_drop_Suc)
  then show ?case
    using Suc by (simp add: list_update_append replicate_append_same [symmetric])
qed simp

text \<open>
  What can go wrong: a datagram that cannot be serialized makes the router throw when the next
  hop is known, and such datagrams come from the network, because the datagram parser drops the
  verdict of the header parser.  Here the version is not 4.
\<close>

lemma wrong_version_accepted:
  assumes "Buffer_wf b" "20 \<le> length (Buffer_str b)" "ip_ver (ipv4_header_of (Buffer_str b)) \<noteq> 4"
    and "length (Buffer_str b) - 20 = unat (IPv4Header_payload_length (ipv4_header_of (Buffer_str b)))"
  shows "runs (IPv4Datagram_parse d b) (\<lambda>(res, d'). res = NoError \<and> \<not> sendable d')"
proof -
  have "\<not> ipv4_shape (Buffer_str b)"
    using assms(3) by (simp add: ipv4_shape_def Let_def)
  then show ?thesis
    using assms by (intro runs_mono [OF IPv4Datagram_parse_runs [OF assms(1) refl assms(2)]]) (auto simp: sendable_iff)
qed

lemma unsendable_throws:
  assumes "Router_find_route (rt_routes r) (ip_dst (dg_header d)) 0 = Some (Some next_hop, n)"
    and "Address_ipv4_numeric next_hop = Inr ip" "unat n < length (rt_interfaces r)"
    and "ni_address_table (ani_base (rt_interfaces r ! unat n)) ip = Some (e, t)"
    and "1 < ip_ttl (dg_header d)" "\<not> sendable d"
  shows "\<not> returns (Router_route_one_datagram r d)"
proof -
  let ?d = "d\<lparr>dg_header := (dg_header d)\<lparr>ip_ttl := ip_ttl (dg_header d) - 1\<rparr>\<rparr>"
  obtain err where "IPv4Datagram_serialize ?d = Inl err"
    using assms(6) sendable_ttl [where d = d and t = "ip_ttl (dg_header d) - 1"]
    by (cases "IPv4Datagram_serialize ?d") (auto simp: sendable_def)
  moreover have "ip_ttl (dg_header d) \<noteq> 0" "ip_ttl (dg_header d) - 1 \<noteq> 0"
    using assms(5) by auto
  ultimately show ?thesis
    using assms(1-4)
    by (simp add: Router_route_one_datagram_def Router_interface_def AsyncNetworkInterface_send_datagram_def
        NetworkInterface_send_datagram_def NetworkInterface_ipv4_frame_def)
qed

section \<open>Properties\<close>

text \<open>
  C11. The table lookup is longest-prefix match when the table is canonical: a route is found if
  and only if some prefix of the table matches the destination, and then its prefix matches and
  no matching prefix is longer.
\<close>

theorem router_longest_prefix:
  assumes "canonical routes"
  shows "case Router_find_route routes dst 0 of
      None \<Rightarrow> (\<forall>p n. (p, n) \<in> dom routes \<longrightarrow> \<not> prefix_matches (p, n) dst)
    | Some route_info \<Rightarrow> (\<exists>p n. routes (p, n) = Some route_info \<and> prefix_matches (p, n) dst \<and>
        (\<forall>p' n'. (p', n') \<in> dom routes \<longrightarrow> prefix_matches (p', n') dst \<longrightarrow> n' \<le> n))"
proof -
  let ?P = "\<lambda>n. routes (route_key dst n) \<noteq> None"
  define lengths :: nat where "lengths = 33"
  have eq: "Router_find_route routes dst 0 = Option.bind (List.find ?P (rev [0..<lengths])) (\<lambda>n. routes (route_key dst n))"
    using find_route_eq [of 0 routes dst] by (simp only: unat_0 diff_zero le0 simp_thms lengths_def)
  show ?thesis
  proof (cases "List.find ?P (rev [0..<lengths])")
    case None
    then have "\<forall>m < lengths. \<not> ?P m"
      using find_rev_upt [of ?P lengths] by blast
    then have none: "routes (route_key dst n) = None" if "n \<le> 32" for n
      using that by (simp add: lengths_def del: not_None_eq)
    have "\<not> prefix_matches (p, n) dst" if "(p, n) \<in> dom routes" for p n
      using route_key_matches(1) [OF assms that, of dst] route_key_matches(2) [OF assms that] none [of "unat n"] that by (metis domIff)
    then show ?thesis
      unfolding eq None by (simp del: not_None_eq)
  next
    case (Some k)
    then have "k < lengths \<and> ?P k \<and> (\<forall>m. k < m \<and> m < lengths \<longrightarrow> \<not> ?P m)"
      using find_rev_upt [of ?P lengths k] by blast
    then have k: "k \<le> 32" "?P k" "\<And>m. k < m \<Longrightarrow> m \<le> 32 \<Longrightarrow> \<not> ?P m"
      by (simp_all add: lengths_def del: not_None_eq)
    obtain p where p: "route_key dst k = (p, word_of_nat k)"
      by (simp add: route_key_def)
    obtain info where info: "routes (p, word_of_nat k) = Some info"
      using k(2) p by auto
    have u: "unat (word_of_nat k :: u8) = k"
      using k(1) by (simp add: unat_of_nat_eq)
    have "prefix_matches (p, word_of_nat k) dst"
      using route_key_matches(1) [OF assms domI, OF info, of dst] p u by (simp del: unsigned_of_nat)
    moreover have "n' \<le> word_of_nat k" if "(p', n') \<in> dom routes" "prefix_matches (p', n') dst" for p' n'
    proof (rule ccontr)
      assume "\<not> n' \<le> word_of_nat k"
      then have "k < unat n'"
        using u by (simp add: word_le_nat_alt del: unsigned_of_nat)
      then show False
        using k(3) [of "unat n'"] route_key_matches(1) [OF assms that(1), of dst] route_key_matches(2) [OF assms that(1)] that by (simp add: domIff)
    qed
    ultimately have "\<exists>p n. routes (p, n) = Some info \<and> prefix_matches (p, n) dst \<and>
        (\<forall>p' n'. (p', n') \<in> dom routes \<longrightarrow> prefix_matches (p', n') dst \<longrightarrow> n' \<le> n)"
      using info by blast
    moreover have "Router_find_route routes dst 0 = Some info"
      unfolding eq Some Option.bind.simps p by (rule info)
    ultimately show ?thesis
      by (simp only: option.case)
  qed
qed

theorem router_longest_prefix_witness:
  "case Router_find_route [(0, 0) \<mapsto> (None, 7), (0x0a000000, 8) \<mapsto> (None, 8), (0x0a010000, 16) \<mapsto> (None, 9)] 0x0a010203 0 of
     None \<Rightarrow> False
   | Some route_info \<Rightarrow> route_info = (None, 9)"
proof -
  let ?routes = "[(0, 0) \<mapsto> (None, 7), (0x0a000000, 8) \<mapsto> (None, 8), (0x0a010000, 16) \<mapsto> (None, 9)] :: routes"
  have "canonical ?routes"
    by (auto simp: canonical_def)
  moreover have "prefix_matches (0x0a010000, 16) 0x0a010203"
    by (simp add: prefix_matches_def)
  ultimately show ?thesis
    using router_longest_prefix [of ?routes "0x0a010203"]
    by (auto split: option.splits if_splits)
qed



end
