(* ===== verification/Simulator.thy ===== *)
theory Simulator
  imports Routing "HOL-Library.Multiset"
begin

text \<open>
  \<^verbatim>\<open>apps/network_simulator.cc\<close>: hosts and a router with their interfaces connected by wires.  Two
  interfaces on a wire resolve each other's address and deliver the datagram that waited.  The debug
  output is left out, and the messages of exceptions are shortened by the text of the datagram.  The
  values of the random generator are a function of the number of values drawn before.
\<close>

unbundle bit_operations_syntax

section \<open>Wires\<close>

text \<open>\<^verbatim>\<open>clear\<close> pops from the second queue as many elements as the first has.\<close>

fun clear :: "'a list \<Rightarrow> 'a list \<Rightarrow> 'a list outcome" where
  "clear [] queue2 = Inr queue2"
| "clear (_ # queue1) [] = Inl (Undefined ''queue::pop'')"
| "clear (_ # queue1) (_ # queue2) = clear queue1 queue2"

fun deliver :: "ethernet_frame list \<Rightarrow> async_network_interface \<Rightarrow> async_network_interface outcome" where
  "deliver [] dst = Inr dst"
| "deliver (frame # to_send) dst =
     bindE (AsyncNetworkInterface_recv_frame dst
              (frame\<lparr>ef_payload := BufferList_of_string (BufferList_concatenate (ef_payload frame))\<rparr>)) (\<lambda>dst.
       deliver to_send dst)"

definition frames_out :: "async_network_interface \<Rightarrow> ethernet_frame list" where
  "frames_out x = ni_frames_out (ani_base x)"

definition set_frames_out :: "async_network_interface \<Rightarrow> ethernet_frame list \<Rightarrow> async_network_interface" where
  "set_frames_out x frames = x\<lparr>ani_base := (ani_base x)\<lparr>ni_frames_out := frames\<rparr>\<rparr>"

definition clear_frames :: "ethernet_frame list \<Rightarrow> async_network_interface \<Rightarrow> async_network_interface outcome" where
  "clear_frames frames x = bindE (clear frames (frames_out x)) (\<lambda>left. Inr (set_frames_out x left))"

definition exchange_frames ::
  "async_network_interface \<Rightarrow> async_network_interface \<Rightarrow> (async_network_interface \<times> async_network_interface) outcome" where
  "exchange_frames x y =
     (let x_frames = frames_out x; y_frames = frames_out y
      in bindE (deliver x_frames y) (\<lambda>y.
         bindE (deliver y_frames x) (\<lambda>x.
         bindE (clear_frames x_frames x) (\<lambda>x.
         bindE (clear_frames y_frames y) (\<lambda>y. Inr (x, y))))))"

definition exchange_frames_3 ::
  "async_network_interface \<Rightarrow> async_network_interface \<Rightarrow> async_network_interface \<Rightarrow>
   (async_network_interface \<times> async_network_interface \<times> async_network_interface) outcome" where
  "exchange_frames_3 x y z =
     (let x_frames = frames_out x; y_frames = frames_out y; z_frames = frames_out z
      in bindE (deliver x_frames y) (\<lambda>y.
         bindE (deliver x_frames z) (\<lambda>z.
         bindE (deliver y_frames x) (\<lambda>x.
         bindE (deliver y_frames z) (\<lambda>z.
         bindE (deliver z_frames x) (\<lambda>x.
         bindE (deliver z_frames y) (\<lambda>y.
         bindE (clear_frames x_frames x) (\<lambda>x.
         bindE (clear_frames y_frames y) (\<lambda>y.
         bindE (clear_frames z_frames z) (\<lambda>z. Inr (x, y, z)))))))))))"

section \<open>Hosts\<close>

definition random_host_ethernet_address :: "(nat \<Rightarrow> u32) \<Rightarrow> nat \<Rightarrow> ethernet_address" where
  "random_host_ethernet_address rd n =
     (let addr = map (\<lambda>i. ucast (rd (n + i))) [0..<6];
          addr = addr[0 := addr ! 0 OR 0x02]
      in addr[0 := addr ! 0 AND 0xfe])"

definition random_router_ethernet_address :: "(nat \<Rightarrow> u32) \<Rightarrow> nat \<Rightarrow> ethernet_address" where
  "random_router_ethernet_address rd n =
     (map (\<lambda>i. ucast (rd (n + i))) [0..<6])[0 := 0x02, 1 := 0, 2 := 0]"

definition ip :: "resolver \<Rightarrow> string \<Rightarrow> u32 outcome" where
  "ip getaddrinfo str = bindE (Address_of_ip getaddrinfo str 0) Address_ipv4_numeric"

record host =
  h_name :: string
  h_my_address :: address
  h_interface :: async_network_interface
  h_next_hop :: address
  h_expecting_to_receive :: "ipv4_datagram list"

definition same_bytes :: "ipv4_datagram \<Rightarrow> ipv4_datagram \<Rightarrow> bool outcome" where
  "same_bytes x expected =
     bindE (IPv4Datagram_serialize x) (\<lambda>b. bindE (IPv4Datagram_serialize expected) (\<lambda>b'.
       Inr (BufferList_concatenate b = BufferList_concatenate b')))"

fun Host_expecting :: "ipv4_datagram list \<Rightarrow> ipv4_datagram \<Rightarrow> bool outcome" where
  "Host_expecting [] expected = Inr False"
| "Host_expecting (x # xs) expected =
     bindE (same_bytes x expected) (\<lambda>b. if b then Inr True else Host_expecting xs expected)"

fun Host_remove_expectation :: "ipv4_datagram list \<Rightarrow> ipv4_datagram \<Rightarrow> ipv4_datagram list outcome" where
  "Host_remove_expectation [] expected = Inr []"
| "Host_remove_expectation (x # xs) expected =
     bindE (same_bytes x expected) (\<lambda>b.
       if b then Inr xs else bindE (Host_remove_expectation xs expected) (\<lambda>xs. Inr (x # xs)))"

definition Host_new :: "string \<Rightarrow> address \<Rightarrow> address \<Rightarrow> (nat \<Rightarrow> u32) \<Rightarrow> nat \<Rightarrow> host" where
  "Host_new name my_address next_hop rd n =
     \<lparr>h_name = name, h_my_address = my_address,
      h_interface = AsyncNetworkInterface_of (NetworkInterface_new (random_host_ethernet_address rd n) my_address),
      h_next_hop = next_hop, h_expecting_to_receive = []\<rparr>"

definition Host_send_to :: "host \<Rightarrow> address \<Rightarrow> u8 \<Rightarrow> u32 \<Rightarrow> (host \<times> ipv4_datagram) outcome" where
  "Host_send_to h destination ttl random_value =
     bindE (Address_ipv4_numeric (h_my_address h)) (\<lambda>src.
     bindE (Address_ipv4_numeric destination) (\<lambda>dst.
     let payload = BufferList_of_string
           (bytes_of_string (''random payload: {'' @ decimal (unat random_value) @ ''}''));
         header = IPv4Header_default\<lparr>ip_src := src, ip_dst := dst\<rparr>;
         header = header\<lparr>ip_len := ucast (ucast (ip_hlen header) * 4 + BufferList_size payload :: size_t)\<rparr>;
         dgram = \<lparr>dg_header = header\<lparr>ip_ttl := ttl\<rparr>, dg_payload = payload\<rparr>
     in bindE (AsyncNetworkInterface_send_datagram (h_interface h) dgram (h_next_hop h)) (\<lambda>x.
          Inr (h\<lparr>h_interface := x\<rparr>, dgram))))"

definition Host_expect :: "host \<Rightarrow> ipv4_datagram \<Rightarrow> host" where
  "Host_expect h expected = h\<lparr>h_expecting_to_receive := h_expecting_to_receive h @ [expected]\<rparr>"

fun Host_check_loop :: "string \<Rightarrow> ipv4_datagram list \<Rightarrow> ipv4_datagram list \<Rightarrow> ipv4_datagram list outcome" where
  "Host_check_loop name [] expecting = Inr expecting"
| "Host_check_loop name (dgram_received # datagrams_out) expecting =
     bindE (Host_expecting expecting dgram_received) (\<lambda>b.
       if \<not> b then Inl (Runtime_error (''Host '' @ name @ '' received unexpected Internet datagram''))
       else bindE (Host_remove_expectation expecting dgram_received) (\<lambda>expecting.
         Host_check_loop name datagrams_out expecting))"

definition Host_check :: "host \<Rightarrow> host outcome" where
  "Host_check h =
     bindE (Host_check_loop (h_name h) (ani_datagrams_out (h_interface h)) (h_expecting_to_receive h)) (\<lambda>expecting.
       if expecting \<noteq> []
       then Inl (Runtime_error (''Host '' @ h_name h @ '' did NOT receive an expected Internet datagram''))
       else Inr (h\<lparr>h_interface := (h_interface h)\<lparr>ani_datagrams_out := []\<rparr>, h_expecting_to_receive := expecting\<rparr>))"

section \<open>The network\<close>

text \<open>
  \<^verbatim>\<open>_hosts\<close> is an association list, in an order in which the unordered map may be traversed.  The members
  with the numbers of the interfaces are constants: \<^verbatim>\<open>add_interface\<close> counts from 0.
\<close>

record simulated_network =
  nw_router :: router
  nw_hosts :: "(string \<times> host) list"

definition default_id :: size_t where
  "default_id = 0"

definition eth0_id :: size_t where
  "eth0_id = 1"

definition eth1_id :: size_t where
  "eth1_id = 2"

definition eth2_id :: size_t where
  "eth2_id = 3"

definition uun3_id :: size_t where
  "uun3_id = 4"

definition hs4_id :: size_t where
  "hs4_id = 5"

definition mit5_id :: size_t where
  "mit5_id = 6"

definition Network_host :: "simulated_network \<Rightarrow> string \<Rightarrow> host outcome" where
  "Network_host nw name =
     (case map_of (nw_hosts nw) name of
        None \<Rightarrow> Inl (Runtime_error (''unknown host: '' @ name))
      | Some h \<Rightarrow> if h_name h \<noteq> name then Inl (Runtime_error (''invalid host: '' @ name)) else Inr h)"

definition Network_set_host :: "simulated_network \<Rightarrow> string \<Rightarrow> host \<Rightarrow> simulated_network" where
  "Network_set_host nw name h =
     nw\<lparr>nw_hosts := map (\<lambda>(n, h'). if n = name then (n, h) else (n, h')) (nw_hosts nw)\<rparr>"

fun add_interfaces :: "resolver \<Rightarrow> (nat \<Rightarrow> u32) \<Rightarrow> string list \<Rightarrow> nat \<Rightarrow> router \<Rightarrow> router outcome" where
  "add_interfaces getaddrinfo rd [] n r = Inr r"
| "add_interfaces getaddrinfo rd (str # strs) n r =
     bindE (Address_of_ip getaddrinfo str 0) (\<lambda>a.
       add_interfaces getaddrinfo rd strs (n + 6)
         (fst (Router_add_interface r (AsyncNetworkInterface_of (NetworkInterface_new (random_router_ethernet_address rd n) a)))))"

fun insert_hosts :: "resolver \<Rightarrow> (nat \<Rightarrow> u32) \<Rightarrow> (string \<times> string \<times> string) list \<Rightarrow> nat \<Rightarrow> (string \<times> host) list outcome" where
  "insert_hosts getaddrinfo rd [] n = Inr []"
| "insert_hosts getaddrinfo rd ((name, my_address, next_hop) # hosts) n =
     bindE (Address_of_ip getaddrinfo my_address 0) (\<lambda>a.
     bindE (Address_of_ip getaddrinfo next_hop 0) (\<lambda>nh.
     bindE (insert_hosts getaddrinfo rd hosts (n + 6)) (\<lambda>hs.
       Inr ((name, Host_new name a nh rd n) # hs))))"

fun add_routes :: "resolver \<Rightarrow> (string \<times> u8 \<times> address option \<times> size_t) list \<Rightarrow> router \<Rightarrow> router outcome" where
  "add_routes getaddrinfo [] r = Inr r"
| "add_routes getaddrinfo ((prefix, len, next_hop, N) # routes) r =
     bindE (ip getaddrinfo prefix) (\<lambda>p. add_routes getaddrinfo routes (Router_add_route r p len next_hop N))"

definition Network_new :: "resolver \<Rightarrow> (nat \<Rightarrow> u32) \<Rightarrow> simulated_network outcome" where
  "Network_new getaddrinfo rd =
     bindE (add_interfaces getaddrinfo rd
              [''171.67.76.46'', ''10.0.0.1'', ''172.16.0.1'', ''192.168.0.1'', ''198.178.229.1'', ''143.195.0.2'', ''128.30.76.255'']
              0 Router_new) (\<lambda>r.
     bindE (insert_hosts getaddrinfo rd
              [(''applesauce'', ''10.0.0.2'', ''10.0.0.1''), (''default_router'', ''171.67.76.1'', ''0''),
               (''cherrypie'', ''192.168.0.2'', ''192.168.0.1''), (''hs_router'', ''143.195.0.1'', ''0''),
               (''dm42'', ''198.178.229.42'', ''198.178.229.1''), (''dm43'', ''198.178.229.43'', ''198.178.229.1'')] 42) (\<lambda>hosts.
     let nw = \<lparr>nw_router = r, nw_hosts = hosts\<rparr>
     in bindE (Network_host nw ''default_router'') (\<lambda>default_router.
        bindE (Network_host nw ''hs_router'') (\<lambda>hs_router.
        bindE (Address_of_ip getaddrinfo ''128.30.0.1'' 0) (\<lambda>mit.
        bindE (add_routes getaddrinfo
                 [(''0.0.0.0'', 0, Some (h_my_address default_router), default_id), (''10.0.0.0'', 8, None, eth0_id),
                  (''172.16.0.0'', 16, None, eth1_id), (''192.168.0.0'', 24, None, eth2_id),
                  (''198.178.229.0'', 24, None, uun3_id), (''143.195.0.0'', 17, Some (h_my_address hs_router), hs4_id),
                  (''143.195.128.0'', 18, Some (h_my_address hs_router), hs4_id),
                  (''143.195.192.0'', 19, Some (h_my_address hs_router), hs4_id),
                  (''128.30.76.255'', 16, Some mit, mit5_id)] r) (\<lambda>r.
          Inr (nw\<lparr>nw_router := r\<rparr>)))))))"

definition connect_host :: "size_t \<Rightarrow> string \<Rightarrow> simulated_network \<Rightarrow> simulated_network outcome" where
  "connect_host N name nw =
     bindE (Router_interface (nw_router nw) N) (\<lambda>x.
     bindE (Network_host nw name) (\<lambda>h.
     bindE (exchange_frames x (h_interface h)) (\<lambda>(x, y).
       Inr (Network_set_host (nw\<lparr>nw_router := Router_set_interface (nw_router nw) N x\<rparr>) name (h\<lparr>h_interface := y\<rparr>)))))"

definition Network_simulate_physical_connections :: "simulated_network \<Rightarrow> simulated_network outcome" where
  "Network_simulate_physical_connections nw =
     bindE (connect_host default_id ''default_router'' nw) (\<lambda>nw.
     bindE (connect_host eth0_id ''applesauce'' nw) (\<lambda>nw.
     bindE (connect_host eth2_id ''cherrypie'' nw) (\<lambda>nw.
     bindE (connect_host hs4_id ''hs_router'' nw) (\<lambda>nw.
     bindE (Router_interface (nw_router nw) uun3_id) (\<lambda>x.
     bindE (Network_host nw ''dm42'') (\<lambda>dm42.
     bindE (Network_host nw ''dm43'') (\<lambda>dm43.
     bindE (exchange_frames_3 x (h_interface dm42) (h_interface dm43)) (\<lambda>(x, y, z).
       Inr (Network_set_host (Network_set_host (nw\<lparr>nw_router := Router_set_interface (nw_router nw) uun3_id x\<rparr>)
              ''dm42'' (dm42\<lparr>h_interface := y\<rparr>)) ''dm43'' (dm43\<lparr>h_interface := z\<rparr>))))))))))"

fun Network_rounds :: "nat \<Rightarrow> simulated_network \<Rightarrow> simulated_network outcome" where
  "Network_rounds 0 nw = Inr nw"
| "Network_rounds (Suc i) nw =
     bindE (Router_route (nw_router nw)) (\<lambda>r.
     bindE (Network_simulate_physical_connections (nw\<lparr>nw_router := r\<rparr>)) (\<lambda>nw. Network_rounds i nw))"

fun check_hosts :: "(string \<times> host) list \<Rightarrow> (string \<times> host) list outcome" where
  "check_hosts [] = Inr []"
| "check_hosts ((name, h) # hosts) =
     bindE (Host_check h) (\<lambda>h. bindE (check_hosts hosts) (\<lambda>hosts. Inr ((name, h) # hosts)))"

definition Network_simulate :: "simulated_network \<Rightarrow> simulated_network outcome" where
  "Network_simulate nw =
     bindE (Network_rounds 256 nw) (\<lambda>nw. bindE (check_hosts (nw_hosts nw)) (\<lambda>hosts. Inr (nw\<lparr>nw_hosts := hosts\<rparr>)))"

text \<open>
  One test of \<^verbatim>\<open>network_simulator\<close>: a host sends, another expects the datagram with its time to live
  decremented, or nobody expects it.
\<close>

definition network_test :: "simulated_network \<Rightarrow> string \<Rightarrow> address \<Rightarrow> u8 \<Rightarrow> string option \<Rightarrow> u32 \<Rightarrow> simulated_network outcome" where
  "network_test nw sender destination ttl receiver random_value =
     bindE (Network_host nw sender) (\<lambda>h.
     bindE (Host_send_to h destination ttl random_value) (\<lambda>(h, dgram_sent).
     let nw = Network_set_host nw sender h
     in bindE (case receiver of
                 None \<Rightarrow> Inr nw
               | Some name \<Rightarrow> bindE (Network_host nw name) (\<lambda>h'.
                   Inr (Network_set_host nw name (Host_expect h' (dgram_sent\<lparr>dg_header :=
                     (dg_header dgram_sent)\<lparr>ip_ttl := ip_ttl (dg_header dgram_sent) - 1\<rparr>\<rparr>)))))
        Network_simulate))"

fun network_tests ::
  "resolver \<Rightarrow> (nat \<Rightarrow> u32) \<Rightarrow> nat \<Rightarrow> (string \<times> (string + string) \<times> u8 \<times> string option) list \<Rightarrow>
   simulated_network \<Rightarrow> simulated_network outcome" where
  "network_tests getaddrinfo rd n [] nw = Inr nw"
| "network_tests getaddrinfo rd n ((sender, destination, ttl, receiver) # tests) nw =
     bindE (case destination of
              Inl name \<Rightarrow> bindE (Network_host nw name) (\<lambda>h. Inr (h_my_address h))
            | Inr str \<Rightarrow> Address_of_ip getaddrinfo str 0) (\<lambda>a.
     bindE (network_test nw sender a ttl receiver (rd n)) (\<lambda>nw. network_tests getaddrinfo rd (Suc n) tests nw))"

definition network_simulator :: "resolver \<Rightarrow> (nat \<Rightarrow> u32) \<Rightarrow> simulated_network outcome" where
  "network_simulator getaddrinfo rd =
     bindE (Network_new getaddrinfo rd) (\<lambda>nw. network_tests getaddrinfo rd 78
       [(''applesauce'', Inl ''cherrypie'', 64, Some ''cherrypie''),
        (''cherrypie'', Inl ''applesauce'', 64, Some ''applesauce''),
        (''applesauce'', Inr ''1.2.3.4'', 64, Some ''default_router''),
        (''applesauce'', Inr ''143.195.131.17'', 64, Some ''hs_router''),
        (''cherrypie'', Inr ''143.195.193.52'', 64, Some ''hs_router''),
        (''cherrypie'', Inr ''143.195.223.255'', 64, Some ''hs_router''),
        (''cherrypie'', Inr ''143.195.224.0'', 64, Some ''default_router''),
        (''dm42'', Inl ''dm43'', 64, Some ''dm43''),
        (''applesauce'', Inr ''1.2.3.4'', 1, None),
        (''applesauce'', Inr ''1.2.3.4'', 0, None)] nw)"

section \<open>What a wire does\<close>

text \<open>A frame as \<^verbatim>\<open>deliver\<close> hands it over: the same header and bytes, in one buffer.\<close>

definition flat :: "ethernet_frame \<Rightarrow> ethernet_frame" where
  "flat f = f\<lparr>ef_payload := BufferList_of_string (BufferList_concatenate (ef_payload f))\<rparr>"

lemma flat_simps [simp]:
  "ef_header (flat f) = ef_header f" "BufferList_concatenate (ef_payload (flat f)) = BufferList_concatenate (ef_payload f)"
  "heard ni (flat f) = heard ni f"
  by (simp_all add: flat_def heard_def BufferList_of_string_def)

lemma flat_receivable: "fits (BufferList_concatenate (ef_payload f)) \<Longrightarrow> receivable (flat f)"
  by (simp add: flat_def receivable_def BufferList_of_string_def)

lemma clear_same [simp]: "clear xs (xs @ ys) = Inr ys"
  by (induction xs) auto

lemma deliver_single: "deliver [f] y = AsyncNetworkInterface_recv_frame y (flat f)"
  by (cases "AsyncNetworkInterface_recv_frame y (flat f)") (simp_all add: flat_def)

lemma exchange_idle_y:
  assumes "frames_out x = [f]" "frames_out y = []"
    and "runs (AsyncNetworkInterface_recv_frame y (flat f)) Q"
  shows "runs (exchange_frames x y) (\<lambda>(x', y'). x' = set_frames_out x [] \<and> Q y')"
  using assms
  by (auto simp: exchange_frames_def deliver_single clear_frames_def set_frames_out_def frames_out_def Let_def elim!: runsE
      simp del: deliver.simps(2))

lemma exchange_idle_x:
  assumes "frames_out x = []" "frames_out y = [f]"
    and "runs (AsyncNetworkInterface_recv_frame x (flat f)) Q"
  shows "runs (exchange_frames x y) (\<lambda>(x', y'). Q x' \<and> y' = set_frames_out y [])"
  using assms
  by (auto simp: exchange_frames_def deliver_single clear_frames_def set_frames_out_def frames_out_def Let_def elim!: runsE
      simp del: deliver.simps(2))

lemma recv_arp:
  assumes "NetworkInterface_wf (ani_base y)" "Address_ipv4_numeric (ni_ip_address (ani_base y)) = Inr own_ip"
    and "heard (ani_base y) f = Some m" "fits (BufferList_concatenate (ef_payload f))"
  shows "runs (AsyncNetworkInterface_recv_frame y (flat f)) (\<lambda>y'. \<exists>ni. arp_effect (ani_base y) own_ip m ni \<and> y' = y\<lparr>ani_base := ni\<rparr>)"
  using recv_frame_runs [OF assms(1,2) flat_receivable [OF assms(4)]] assms(3)
  by (auto simp: AsyncNetworkInterface_recv_frame_def split: option.splits elim!: runs_mono)

lemma heard_arp:
  assumes "eth_dst (ef_header f) = ni_ethernet_address ni \<or> eth_dst (ef_header f) = ETHERNET_BROADCAST"
    and "eth_type (ef_header f) = EthernetHeader_TYPE_ARP" "ef_payload f = [Buffer_new (arp_bytes m)]"
    and "ARPMessage_wf m" "ARPMessage_supported m"
  shows "heard ni f = Some m" "fits (BufferList_concatenate (ef_payload f))"
  using assms arp_message_of_bytes [of m "[]"]
  by (auto simp: heard_def EthernetHeader_TYPE_ARP_def EthernetHeader_TYPE_IPv4_def Let_def fits_def)

lemma recv_ipv4:
  assumes "IPv4Datagram_wf d" "IPv4Datagram_serialize d = Inr bl" "ef_payload f = bl" "fits (BufferList_concatenate bl)"
    and "eth_dst (ef_header f) = ni_ethernet_address (ani_base y)" "eth_type (ef_header f) = EthernetHeader_TYPE_IPv4"
  shows "runs (AsyncNetworkInterface_recv_frame y (flat f)) (\<lambda>y'. \<exists>d'. same_datagram d d' \<and>
    y' = y\<lparr>ani_datagrams_out := ani_datagrams_out y @ [d']\<rparr>)"
proof -
  obtain b where b: "BufferList_to_Buffer (ef_payload (flat f)) = Inr b" "Buffer_wf b"
    "Buffer_str b = BufferList_concatenate (ef_payload (flat f))"
    using receivable_buffer [OF flat_receivable] assms(3,4) by blast
  have "runs (IPv4Datagram_parse IPv4Datagram_default b) (\<lambda>(res, d'). res = NoError \<and> same_datagram d d')"
    by (rule ip_wire.in_one_buffer [OF assms(1,2) b(2)]) (use b(3) assms(3) in simp)
  then show ?thesis
    using b(1) assms(5,6)
    by (auto simp: AsyncNetworkInterface_recv_frame_def NetworkInterface_recv_frame_def elim!: runsE)
qed

text \<open>The three round trips on the wire.\<close>

definition quiet :: "async_network_interface \<Rightarrow> u32 \<Rightarrow> bool" where
  "quiet x own_ip \<longleftrightarrow> NetworkInterface_wf (ani_base x) \<and> Address_ipv4_numeric (ni_ip_address (ani_base x)) = Inr own_ip \<and>
     ni_frames_out (ani_base x) = [] \<and> ni_dgram_delay_queue (ani_base x) = []"

lemma request_round:
  assumes y: "quiet y ip_y" and x: "length (ni_ethernet_address ni) = 6" "frames_out x = [arp_request_frame ni ip_x ip_y]"
  defines "m \<equiv> arp_request ni ip_x ip_y"
  shows "runs (exchange_frames x y) (\<lambda>(x', y'). x' = set_frames_out x [] \<and>
    y' = y\<lparr>ani_base := (learned (ani_base y) m)\<lparr>ni_frames_out := [arp_reply_frame (ani_base y) ip_y m]\<rparr>\<rparr>)"
proof -
  let ?f = "arp_request_frame ni ip_x ip_y"
  have "heard (ani_base y) ?f = Some m" "fits (BufferList_concatenate (ef_payload ?f))"
    using heard_arp [of ?f "ani_base y" m] arp_request_wf(1) [of ni ip_x ip_y] arp_request_wf(2) [OF x(1), of ip_x ip_y]
    by (simp_all add: arp_request_frame_def m_def)
  from recv_arp [OF _ _ this] y have "runs (AsyncNetworkInterface_recv_frame y (flat ?f)) (\<lambda>y'.
      \<exists>ni. arp_effect (ani_base y) ip_y m ni \<and> y' = y\<lparr>ani_base := ni\<rparr>)"
    by (simp add: quiet_def)
  from exchange_idle_y [OF x(2) _ this] show ?thesis
    using y by (auto simp: quiet_def frames_out_def arp_effect_def waiting_def m_def arp_request_def learned_def elim!: runs_mono)
qed

lemma reply_round:
  assumes x: "NetworkInterface_wf (ani_base x)" "Address_ipv4_numeric (ni_ip_address (ani_base x)) = Inr ip_x" "frames_out x = []"
      "ni_dgram_delay_queue (ani_base x) = [(d, ip_y, t)]" "IPv4Datagram_serialize d = Inr bl"
    and y: "length (ni_ethernet_address ni) = 6" "frames_out y = [arp_reply_frame ni ip_y m]"
    and m: "sender_ethernet_address m = ni_ethernet_address (ani_base x)"
  shows "runs (exchange_frames x y) (\<lambda>(x', y'). y' = set_frames_out y [] \<and> x' = x\<lparr>ani_base :=
    (learned (ani_base x) (arp_reply ni ip_y m))\<lparr>ni_frames_out := [\<lparr>ef_header = \<lparr>eth_dst = ni_ethernet_address ni,
       eth_src = ni_ethernet_address (ani_base x), eth_type = EthernetHeader_TYPE_IPv4\<rparr>, ef_payload = bl\<rparr>],
       ni_dgram_delay_queue := []\<rparr>\<rparr>)"
proof -
  let ?f = "arp_reply_frame ni ip_y m" and ?m = "arp_reply ni ip_y m"
  have "ARPMessage_wf ?m" "ARPMessage_supported ?m"
    using x(1) y(1) m by (simp_all add: arp_reply_def ARPMessage_default_def ARPMessage_supported_def ARPMessage_wf_def NetworkInterface_wf_def)
  then have "heard (ani_base x) ?f = Some ?m" "fits (BufferList_concatenate (ef_payload ?f))"
    using heard_arp [of ?f "ani_base x" ?m] m by (simp_all add: arp_reply_frame_def)
  from recv_arp [OF x(1,2) this] have "runs (AsyncNetworkInterface_recv_frame x (flat ?f)) (\<lambda>x'.
      \<exists>ni. arp_effect (ani_base x) ip_x ?m ni \<and> x' = x\<lparr>ani_base := ni\<rparr>)" .
  from exchange_idle_x [OF x(3) y(2) this] show ?thesis
    using x(3-5) by (auto simp: frames_out_def arp_effect_def waiting_def arp_reply_def learned_def list_all2_Cons1
        ARPMessage_OPCODE_REQUEST_def ARPMessage_OPCODE_REPLY_def elim!: runs_mono)
qed

lemma datagram_round:
  assumes "frames_out x = [\<lparr>ef_header = \<lparr>eth_dst = ni_ethernet_address (ani_base y), eth_src = e,
      eth_type = EthernetHeader_TYPE_IPv4\<rparr>, ef_payload = bl\<rparr>]" "frames_out y = []"
    and "IPv4Datagram_wf d" "IPv4Datagram_serialize d = Inr bl"
  shows "runs (exchange_frames x y) (\<lambda>(x', y'). x' = set_frames_out x [] \<and>
    (\<exists>d'. same_datagram d d' \<and> y' = y\<lparr>ani_datagrams_out := ani_datagrams_out y @ [d']\<rparr>))"
proof -
  have "fits (BufferList_concatenate bl)"
    using ip_wire.serializes [OF assms(3)] assms(4) by auto
  from exchange_idle_y [OF assms(1,2) recv_ipv4 [OF assms(3,4) _ this]] show ?thesis
    by simp
qed

section \<open>What a host checks\<close>

definition wire_bytes :: "ipv4_datagram \<Rightarrow> bytes" where
  "wire_bytes d = (case IPv4Datagram_serialize d of Inl _ \<Rightarrow> [] | Inr bl \<Rightarrow> BufferList_concatenate bl)"

lemma same_bytes_eq:
  "sendable x \<Longrightarrow> sendable y \<Longrightarrow> same_bytes x y = Inr (wire_bytes x = wire_bytes y)"
  by (auto simp: sendable_def returns_def same_bytes_def wire_bytes_def)

lemma Host_expecting_eq:
  "list_all sendable xs \<Longrightarrow> sendable y \<Longrightarrow> Host_expecting xs y = Inr (wire_bytes y \<in> wire_bytes ` set xs)"
  by (induction xs) (auto simp: same_bytes_eq)

lemma Host_remove_expectation_eq:
  assumes "list_all sendable xs" "sendable y"
  shows "runs (Host_remove_expectation xs y) (\<lambda>xs'. list_all sendable xs' \<and>
    mset (map wire_bytes xs') = mset (map wire_bytes xs) - {#wire_bytes y#})"
  using assms
proof (induction xs)
  case (Cons x xs)
  then show ?case
    by (cases "wire_bytes x = wire_bytes y") (auto simp: same_bytes_eq elim!: runs_mono)
qed simp

lemma Host_check_loop_eq:
  assumes "list_all sendable got" "list_all sendable expecting"
  shows "if mset (map wire_bytes got) \<subseteq># mset (map wire_bytes expecting)
    then runs (Host_check_loop name got expecting) (\<lambda>rest. list_all sendable rest \<and>
      mset (map wire_bytes rest) = mset (map wire_bytes expecting) - mset (map wire_bytes got))
    else \<not> returns (Host_check_loop name got expecting)"
  using assms
proof (induction got arbitrary: expecting)
  case (Cons d got)
  show ?case
  proof (cases "wire_bytes d \<in> wire_bytes ` set expecting")
    case False
    then have "\<not> mset (map wire_bytes (d # got)) \<subseteq># mset (map wire_bytes expecting)"
      by (auto dest!: mset_subset_eqD [where x = "wire_bytes d"])
    then show ?thesis
      using False Cons.prems by (simp add: Host_expecting_eq)
  next
    case True
    obtain rest where r: "Host_remove_expectation expecting d = Inr rest" "list_all sendable rest"
      "mset (map wire_bytes rest) = mset (map wire_bytes expecting) - {#wire_bytes d#}"
      using Host_remove_expectation_eq [of expecting d] Cons.prems by (auto elim!: runsE)
    have "mset (map wire_bytes (d # got)) \<subseteq># mset (map wire_bytes expecting) \<longleftrightarrow>
        mset (map wire_bytes got) \<subseteq># mset (map wire_bytes rest)"
      using True r(3) by (auto simp: insert_subset_eq_iff)
    moreover have "Host_check_loop name (d # got) expecting = Host_check_loop name got rest"
      using True Cons.prems r(1) by (simp add: Host_expecting_eq)
    moreover have "mset (map wire_bytes expecting) - mset (map wire_bytes (d # got)) =
        mset (map wire_bytes rest) - mset (map wire_bytes got)"
      by (simp add: r(3) [simplified])
    moreover have "list_all sendable got"
      using Cons.prems(1) by simp
    note Cons.IH [OF this r(2)]
    ultimately show ?thesis
      by (simp only:)
  qed
qed simp

section \<open>Properties\<close>

text \<open>
  C9. ARP resolution on a wire: a datagram for a neighbour whose Ethernet address is not known waits
  while a request and its reply are exchanged, and in the third exchange the neighbour receives it,
  once and unchanged; both interfaces know each other's address then and have nothing left to send.
\<close>

theorem wire_resolves_and_delivers:
  assumes "quiet x ip_x" "quiet y ip_y" "ni_address_table (ani_base x) ip_y = None"
    and "Address_ipv4_numeric next_hop = Inr ip_y" "IPv4Datagram_wf d"
  shows "runs (bindE (AsyncNetworkInterface_send_datagram x d next_hop) (\<lambda>x.
      bindE (exchange_frames x y) (\<lambda>(x, y). bindE (exchange_frames x y) (\<lambda>(x, y). exchange_frames x y)))) (\<lambda>(x', y').
    (\<exists>d'. ani_datagrams_out y' = ani_datagrams_out y @ [d'] \<and> same_datagram d d') \<and>
    ani_datagrams_out x' = ani_datagrams_out x \<and>
    map_option fst (ni_address_table (ani_base x') ip_y) = Some (ni_ethernet_address (ani_base y)) \<and>
    map_option fst (ni_address_table (ani_base y') ip_x) = Some (ni_ethernet_address (ani_base x)) \<and>
    frames_out x' = [] \<and> frames_out y' = [])"
proof -
  obtain bl where bl: "IPv4Datagram_serialize d = Inr bl"
    using ip_wire.serializes [OF assms(5)] .
  let ?nx = "ani_base x" and ?ny = "ani_base y" and ?m = "arp_request (ani_base x) ip_x ip_y"
  define x1 where "x1 = x\<lparr>ani_base := ?nx\<lparr>ni_frames_out := [arp_request_frame ?nx ip_x ip_y],
    ni_dgram_delay_queue := [(d, ip_y, ni_timer ?nx + 5000)]\<rparr>\<rparr>"
  have s1: "AsyncNetworkInterface_send_datagram x d next_hop = Inr x1"
    using assms(1,3) send_datagram_eq [OF assms(4), of ?nx ip_x d]
    by (simp add: AsyncNetworkInterface_send_datagram_def quiet_def x1_def)
  define y2 where "y2 = y\<lparr>ani_base := (learned ?ny ?m)\<lparr>ni_frames_out := [arp_reply_frame ?ny ip_y ?m]\<rparr>\<rparr>"
  define x2 where "x2 = set_frames_out x1 []"
  have s2: "exchange_frames x1 y = Inr (x2, y2)"
    using request_round [OF assms(2), of ?nx x1 ip_x] assms(1)
    by (auto simp: quiet_def NetworkInterface_wf_def x1_def frames_out_def x2_def y2_def elim!: runsE)
  define x3 where "x3 = x2\<lparr>ani_base := (learned (ani_base x2) (arp_reply ?ny ip_y ?m))\<lparr>ni_frames_out :=
    [\<lparr>ef_header = \<lparr>eth_dst = ni_ethernet_address ?ny, eth_src = ni_ethernet_address ?nx, eth_type = EthernetHeader_TYPE_IPv4\<rparr>,
      ef_payload = bl\<rparr>], ni_dgram_delay_queue := []\<rparr>\<rparr>"
  have "NetworkInterface_wf (ani_base x2)"
    using assms(1,3) bl by (auto simp: x2_def x1_def set_frames_out_def quiet_def NetworkInterface_wf_def sendable_def)
  then have s3: "exchange_frames x2 y2 = Inr (x3, set_frames_out y2 [])"
    using reply_round [of x2 ip_x d ip_y "ni_timer ?nx + 5000" bl ?ny y2 ?m] assms(1,2) bl
    by (auto simp: quiet_def NetworkInterface_wf_def x2_def x1_def y2_def x3_def set_frames_out_def frames_out_def arp_request_def
        elim!: runsE)
  have "runs (exchange_frames x3 (set_frames_out y2 [])) (\<lambda>(x', y'). x' = set_frames_out x3 [] \<and>
      (\<exists>d'. same_datagram d d' \<and> y' = (set_frames_out y2 [])\<lparr>ani_datagrams_out := ani_datagrams_out y @ [d']\<rparr>))"
    using datagram_round [of x3 "set_frames_out y2 []" "ni_ethernet_address ?nx" bl d] assms(5) bl
    by (simp add: x3_def y2_def set_frames_out_def frames_out_def learned_def)
  then show ?thesis
    unfolding s1 s2 s3 bindE.simps prod.case
    by (rule runs_mono) (auto simp: x3_def x2_def x1_def y2_def set_frames_out_def frames_out_def learned_def arp_reply_def arp_request_def)
qed

text \<open>Two neighbours and a datagram.\<close>

definition example_neighbour :: "u8 \<Rightarrow> u32 \<Rightarrow> async_network_interface" where
  "example_neighbour n a = AsyncNetworkInterface_of (NetworkInterface_new [2, 0, 0, 0, 0, n] (ipv4_address a))"

definition example_datagram :: ipv4_datagram where
  "example_datagram = \<lparr>dg_header = IPv4Header_default\<lparr>ip_len := 23, ip_dst := 0x01020304\<rparr>, dg_payload = [Buffer_new [1, 2, 3]]\<rparr>"

lemma example_neighbour_quiet: "quiet (example_neighbour n a) a"
  by (simp add: quiet_def example_neighbour_def AsyncNetworkInterface_of_def NetworkInterface_wf_def NetworkInterface_new_def)

lemma example_datagram_wf: "IPv4Datagram_wf example_datagram"
  by (simp add: IPv4Datagram_wf_def IPv4Header_wf_def example_datagram_def IPv4Header_default_def IPv4Header_LENGTH_def)

theorem wire_resolves_and_delivers_witness:
  "runs (bindE (AsyncNetworkInterface_send_datagram (example_neighbour 1 0x0a000001) example_datagram (ipv4_address 0x0a000002)) (\<lambda>x.
      bindE (exchange_frames x (example_neighbour 2 0x0a000002)) (\<lambda>(x, y).
      bindE (exchange_frames x y) (\<lambda>(x, y). exchange_frames x y)))) (\<lambda>(x, y).
    map (\<lambda>d. BufferList_concatenate (dg_payload d)) (ani_datagrams_out y) = [[1, 2, 3]])"
proof -
  have n: "ni_address_table (ani_base (example_neighbour 1 a)) = Map.empty" "ani_datagrams_out (example_neighbour k a) = []" for a k
    by (simp_all add: example_neighbour_def AsyncNetworkInterface_of_def NetworkInterface_new_def)
  show ?thesis
    by (rule runs_mono [OF wire_resolves_and_delivers [OF example_neighbour_quiet example_neighbour_quiet _ _ example_datagram_wf]])
      (auto simp: n same_datagram_def example_datagram_def)
qed

text \<open>
  The check at the end of a simulation is exact: it passes if and only if the datagrams a host has
  received and the datagrams it expects have the same serialized bytes, each as many times.
\<close>

theorem Host_check_exact:
  assumes "list_all sendable (ani_datagrams_out (h_interface h))" "list_all sendable (h_expecting_to_receive h)"
  shows "returns (Host_check h) \<longleftrightarrow>
    mset (map wire_bytes (ani_datagrams_out (h_interface h))) = mset (map wire_bytes (h_expecting_to_receive h))"
proof -
  let ?r = "mset (map wire_bytes (ani_datagrams_out (h_interface h)))" and ?e = "mset (map wire_bytes (h_expecting_to_receive h))"
  note loop = Host_check_loop_eq [OF assms, of "h_name h"]
  show ?thesis
  proof (cases "?r \<subseteq># ?e")
    case True
    then obtain rest where r: "Host_check_loop (h_name h) (ani_datagrams_out (h_interface h)) (h_expecting_to_receive h) = Inr rest"
      "mset (map wire_bytes rest) = ?e - ?r"
      using loop by (auto elim!: runsE)
    have "rest = [] \<longleftrightarrow> ?e - ?r = {#}"
      using r(2) by (metis map_is_Nil_conv mset_zero_iff_right)
    also have "\<dots> \<longleftrightarrow> ?r = ?e"
      using True by (metis Diff_eq_empty_iff_mset subset_mset.antisym cancel_comm_monoid_add_class.diff_cancel)
    finally show ?thesis
      using r(1) by (simp add: Host_check_def)
  next
    case False
    then have "\<not> returns (Host_check h)"
      using loop by (auto simp: Host_check_def returns_def bindE_Inr_iff)
    then show ?thesis
      using False by auto
  qed
qed

theorem Host_check_exact_witness:
  "returns (Host_check \<lparr>h_name = ''h'', h_my_address = ipv4_address 1,
     h_interface = (example_neighbour 1 1)\<lparr>ani_datagrams_out := [example_datagram]\<rparr>,
     h_next_hop = ipv4_address 2, h_expecting_to_receive = [example_datagram]\<rparr>)"
proof -
  have "sendable example_datagram"
    using ip_wire.serializes [OF example_datagram_wf] by (auto simp: sendable_def returns_def)
  then show ?thesis
    by (subst Host_check_exact) simp_all
qed

end
