(* ===== verification/Stream_Copy.thy ===== *)
theory Stream_Copy
  imports Event_Loop Sockets Byte_Stream
begin

text \<open>
  \<^verbatim>\<open>apps/bidirectional_stream_copy.cc\<close>: standard input is copied to a socket and the socket to standard
  output, through two byte streams and an event loop.  No byte is lost, repeated or reordered.
\<close>

section \<open>State\<close>

text \<open>The answers of the kernel, as functions of the number of calls made before.\<close>

record copy_kernel =
  ck_read :: "nat \<Rightarrow> int \<Rightarrow> size_t \<Rightarrow> bytes syscall"
  ck_writev :: "nat \<Rightarrow> int \<Rightarrow> nat \<Rightarrow> (bytes \<times> size_t) list \<Rightarrow> nat syscall"
  ck_shutdown :: "nat \<Rightarrow> int \<Rightarrow> int \<Rightarrow> unit syscall"
  ck_close :: "nat \<Rightarrow> int \<Rightarrow> unit syscall"
  ck_poll :: "nat \<Rightarrow> poll_call"

text \<open>
  One direction of the copy: its byte stream and flag, with the bytes that have been read for it and
  written from it.
\<close>

record copy_direction =
  cd_stream :: byte_stream
  cd_shutdown :: bool
  cd_read :: bytes
  cd_written :: bytes

record stream_copy =
  sc_outbound :: copy_direction
  sc_inbound :: copy_direction
  sc_calls :: nat

type_synonym copy_state = "stream_copy program_state"

definition INPUT :: nat where
  "INPUT = 0"

definition OUTPUT :: nat where
  "OUTPUT = 1"

definition SOCKET :: nat where
  "SOCKET = 2"

definition max_copy_length :: size_t where
  "max_copy_length = 65536"

definition buffer_size :: size_t where
  "buffer_size = 1048576"

definition update_outbound :: "nat \<Rightarrow> fd_wrapper \<Rightarrow> copy_direction \<Rightarrow> copy_state \<Rightarrow> copy_state" where
  "update_outbound h w d s =
     s\<lparr>ps_fds := (ps_fds s)(h := w), ps_user := (ps_user s)\<lparr>sc_outbound := d, sc_calls := Suc (sc_calls (ps_user s))\<rparr>\<rparr>"

definition update_inbound :: "nat \<Rightarrow> fd_wrapper \<Rightarrow> copy_direction \<Rightarrow> copy_state \<Rightarrow> copy_state" where
  "update_inbound h w d s =
     s\<lparr>ps_fds := (ps_fds s)(h := w), ps_user := (ps_user s)\<lparr>sc_inbound := d, sc_calls := Suc (sc_calls (ps_user s))\<rparr>\<rparr>"

section \<open>The rules\<close>

text \<open>The bodies that rules 1 and 3, and rules 2 and 4 share: a read into a stream and a write from it.\<close>

definition copy_in :: "(int \<Rightarrow> size_t \<Rightarrow> bytes syscall) \<Rightarrow> fd_wrapper \<Rightarrow> copy_direction \<Rightarrow> (fd_wrapper \<times> copy_direction) outcome" where
  "copy_in read w d =
     bindE (FileDescriptor_read read w (ByteStream_remaining_capacity (cd_stream d))) (\<lambda>(w, data).
       let stream = fst (ByteStream_write (cd_stream d) data);
           stream = (if fdw_eof w then ByteStream_end_input stream else stream)
       in Inr (w, d\<lparr>cd_stream := stream, cd_read := cd_read d @ data\<rparr>))"

definition copy_out ::
  "(int \<Rightarrow> nat \<Rightarrow> (bytes \<times> size_t) list \<Rightarrow> nat syscall) \<Rightarrow> fd_wrapper \<Rightarrow> copy_direction \<Rightarrow> (fd_wrapper \<times> copy_direction) outcome" where
  "copy_out writev w d =
     (let bytes_to_write = min max_copy_length (ByteStream_buffer_size (cd_stream d))
      in bindE (FileDescriptor_write writev w (BufferViewList_of_view (ByteStream_peek_output (cd_stream d) bytes_to_write)) False)
           (\<lambda>(w, bytes_written, written).
             Inr (w, d\<lparr>cd_stream := ByteStream_pop_output (cd_stream d) bytes_written, cd_written := cd_written d @ written\<rparr>)))"

definition copy_ended :: "copy_direction \<Rightarrow> copy_direction" where
  "copy_ended d = d\<lparr>cd_stream := ByteStream_end_input (cd_stream d)\<rparr>"

text \<open>Rule 1: from standard input into the outbound stream.\<close>

definition rule_input :: "copy_kernel \<Rightarrow> copy_state \<Rightarrow> copy_state outcome" where
  "rule_input os s =
     bindE (copy_in (ck_read os (sc_calls (ps_user s))) (ps_fds s INPUT) (sc_outbound (ps_user s))) (\<lambda>(w, d).
       Inr (update_outbound INPUT w d s))"

definition rule_input_interest :: "copy_state \<Rightarrow> bool" where
  "rule_input_interest s \<longleftrightarrow>
     (let outbound = cd_stream (sc_outbound (ps_user s)); inbound = cd_stream (sc_inbound (ps_user s))
      in \<not> bs_error outbound \<and> ByteStream_remaining_capacity outbound > 0 \<and> \<not> bs_error inbound)"

definition cancel_outbound :: "copy_state \<Rightarrow> copy_state outcome" where
  "cancel_outbound s = Inr (s\<lparr>ps_user := (ps_user s)\<lparr>sc_outbound := copy_ended (sc_outbound (ps_user s))\<rparr>\<rparr>)"

text \<open>Rule 2: from the outbound stream into the socket.\<close>

definition rule_socket_out :: "copy_kernel \<Rightarrow> copy_state \<Rightarrow> copy_state outcome" where
  "rule_socket_out os s =
     bindE (copy_out (ck_writev os (sc_calls (ps_user s))) (ps_fds s SOCKET) (sc_outbound (ps_user s))) (\<lambda>(w, d).
       if ByteStream_eof (cd_stream d) then
         bindE (Socket_shutdown (ck_shutdown os (sc_calls (ps_user s))) w SHUT_WR) (\<lambda>w.
           Inr (update_outbound SOCKET w (d\<lparr>cd_shutdown := True\<rparr>) s))
       else Inr (update_outbound SOCKET w d s))"

definition copy_out_interest :: "copy_direction \<Rightarrow> bool" where
  "copy_out_interest d \<longleftrightarrow>
     \<not> ByteStream_buffer_empty (cd_stream d) \<or> ByteStream_eof (cd_stream d) \<and> \<not> cd_shutdown d"

definition rule_socket_out_interest :: "copy_state \<Rightarrow> bool" where
  "rule_socket_out_interest s = copy_out_interest (sc_outbound (ps_user s))"

text \<open>Rule 3: from the socket into the inbound stream.\<close>

definition rule_socket_in :: "copy_kernel \<Rightarrow> copy_state \<Rightarrow> copy_state outcome" where
  "rule_socket_in os s =
     bindE (copy_in (ck_read os (sc_calls (ps_user s))) (ps_fds s SOCKET) (sc_inbound (ps_user s))) (\<lambda>(w, d).
       Inr (update_inbound SOCKET w d s))"

definition rule_socket_in_interest :: "copy_state \<Rightarrow> bool" where
  "rule_socket_in_interest s \<longleftrightarrow>
     (let outbound = cd_stream (sc_outbound (ps_user s)); inbound = cd_stream (sc_inbound (ps_user s))
      in \<not> bs_error inbound \<and> ByteStream_remaining_capacity inbound > 0 \<and> \<not> bs_error outbound)"

definition cancel_inbound :: "copy_state \<Rightarrow> copy_state outcome" where
  "cancel_inbound s = Inr (s\<lparr>ps_user := (ps_user s)\<lparr>sc_inbound := copy_ended (sc_inbound (ps_user s))\<rparr>\<rparr>)"

text \<open>Rule 4: from the inbound stream to standard output.\<close>

definition rule_output :: "copy_kernel \<Rightarrow> copy_state \<Rightarrow> copy_state outcome" where
  "rule_output os s =
     bindE (copy_out (ck_writev os (sc_calls (ps_user s))) (ps_fds s OUTPUT) (sc_inbound (ps_user s))) (\<lambda>(w, d).
       if ByteStream_eof (cd_stream d) then
         bindE (FDWrapper_close (ck_close os (sc_calls (ps_user s))) w) (\<lambda>w.
           Inr (update_inbound OUTPUT w (d\<lparr>cd_shutdown := True\<rparr>) s))
       else Inr (update_inbound OUTPUT w d s))"

definition rule_output_interest :: "copy_state \<Rightarrow> bool" where
  "rule_output_interest s = copy_out_interest (sc_inbound (ps_user s))"

definition copy_rules :: "copy_kernel \<Rightarrow> stream_copy rule list" where
  "copy_rules os =
     (let rules = EventLoop_add_rule [] INPUT In (rule_input os) rule_input_interest cancel_outbound;
          rules = EventLoop_add_rule rules SOCKET Out (rule_socket_out os) rule_socket_out_interest cancel_outbound;
          rules = EventLoop_add_rule rules SOCKET In (rule_socket_in os) rule_socket_in_interest cancel_inbound
      in EventLoop_add_rule rules OUTPUT Out (rule_output os) rule_output_interest cancel_inbound)"

section \<open>The loop\<close>

definition copy_direction_new :: copy_direction where
  "copy_direction_new = \<lparr>cd_stream = ByteStream_new buffer_size, cd_shutdown = False, cd_read = [], cd_written = []\<rparr>"

definition copy_start :: "fd_wrapper \<Rightarrow> fd_wrapper \<Rightarrow> fd_wrapper \<Rightarrow> copy_state" where
  "copy_start input output socket =
     \<lparr>ps_fds = (\<lambda>h. if h = INPUT then input else if h = OUTPUT then output else socket),
      ps_user = \<lparr>sc_outbound = copy_direction_new, sc_inbound = copy_direction_new, sc_calls = 0\<rparr>\<rparr>"

definition copy_iteration ::
  "copy_kernel \<Rightarrow> stream_copy rule list \<Rightarrow> copy_state \<Rightarrow> (loop_result \<times> stream_copy rule list \<times> copy_state) outcome" where
  "copy_iteration os rules s =
     bindE (EventLoop_wait_next_event (ck_poll os (sc_calls (ps_user s))) rules s (- 1)) (\<lambda>(result, rules, s).
       Inr (result, rules, s\<lparr>ps_user := (ps_user s)\<lparr>sc_calls := Suc (sc_calls (ps_user s))\<rparr>\<rparr>))"

partial_function (option) copy_loop ::
  "copy_kernel \<Rightarrow> stream_copy rule list \<Rightarrow> copy_state \<Rightarrow> copy_state outcome option" where
  "copy_loop os rules s =
     (case copy_iteration os rules s of
        Inl e \<Rightarrow> Some (Inl e)
      | Inr (result, rules, s) \<Rightarrow> if result = Exit then Some (Inr s) else copy_loop os rules s)"

text \<open>
  The three descriptors are made non-blocking first; the descriptors for standard input and output
  are destroyed at the end.
\<close>

definition copy_finish :: "copy_kernel \<Rightarrow> copy_state \<Rightarrow> copy_state" where
  "copy_finish os s =
     (let close = ck_close os (sc_calls (ps_user s))
      in s\<lparr>ps_fds := (ps_fds s)(INPUT := FDWrapper_destroy close (ps_fds s INPUT), OUTPUT := FDWrapper_destroy close (ps_fds s OUTPUT))\<rparr>)"

definition bidirectional_stream_copy ::
  "(int \<Rightarrow> nat syscall) \<Rightarrow> (int \<Rightarrow> 32 word \<Rightarrow> unit syscall) \<Rightarrow> copy_kernel \<Rightarrow> fd_wrapper \<Rightarrow> copy_state outcome option" where
  "bidirectional_stream_copy getfl setfl os socket =
     (case bindE (FDWrapper_new 0) (\<lambda>input.
           bindE (FDWrapper_new 1) (\<lambda>output.
           bindE (FileDescriptor_set_blocking getfl setfl socket False) (\<lambda>_.
           bindE (FileDescriptor_set_blocking getfl setfl input False) (\<lambda>_.
           bindE (FileDescriptor_set_blocking getfl setfl output False) (\<lambda>_. Inr (copy_start input output socket)))))) of
        Inl e \<Rightarrow> Some (Inl e)
      | Inr s \<Rightarrow> map_option (map_sum id (copy_finish os)) (copy_loop os (copy_rules os) s))"

section \<open>No byte is lost\<close>

definition copying :: "copy_direction \<Rightarrow> bool" where
  "copying d \<longleftrightarrow> ByteStream_wf (cd_stream d) \<and> cd_read d = cd_written d @ bs_buffer (cd_stream d)"

definition copy_inv :: "copy_state \<Rightarrow> bool" where
  "copy_inv s \<longleftrightarrow> copying (sc_outbound (ps_user s)) \<and> copying (sc_inbound (ps_user s))"

lemma copying_ended [simp]: "copying (copy_ended d) = copying d"
  by (simp add: copying_def copy_ended_def ByteStream_end_input_def ByteStream_wf_def)

lemma copy_in_copying:
  assumes "copy_in rd w d = Inr (w', d')" "copying d"
  shows "copying d'"
proof -
  obtain data where rd: "FileDescriptor_read rd w (ByteStream_remaining_capacity (cd_stream d)) = Inr (w', data)"
    and d': "cd_stream d' = (if fdw_eof w' then ByteStream_end_input (fst (ByteStream_write (cd_stream d) data))
        else fst (ByteStream_write (cd_stream d) data))" "cd_read d' = cd_read d @ data" "cd_written d' = cd_written d"
    using assms(1) by (auto simp: copy_in_def bindE_Inr_iff Let_def)
  note r = FileDescriptor_read_result [OF rd]
  have "bs_buffer (fst (ByteStream_write (cd_stream d) data)) = bs_buffer (cd_stream d) @ data"
    using r(2,3) by (simp add: ByteStream_write_def Let_def word_nat)
  moreover have "ByteStream_wf (fst (ByteStream_write (cd_stream d) data))"
    using r(3) assms(2) by (simp add: copying_def)
  ultimately show ?thesis
    using d' assms(2) by (simp add: copying_def ByteStream_end_input_def ByteStream_wf_def)
qed

lemma copy_out_copying:
  assumes "copy_out wr w d = Inr (w', d')" "copying d"
  shows "copying d'"
proof -
  let ?st = "cd_stream d"
  define buf where "buf = ByteStream_peek_output ?st (min 65536 (ByteStream_buffer_size ?st))"
  obtain n written where wr: "FileDescriptor_write wr w [buf] False = Inr (w', n, written)"
    and d': "cd_stream d' = ByteStream_pop_output ?st n" "cd_read d' = cd_read d" "cd_written d' = cd_written d @ written"
    using assms(1) by (auto simp: copy_out_def bindE_Inr_iff Let_def BufferViewList_of_view_def buf_def max_copy_length_def)
  have size: "length buf \<le> 65536" "buf = take (length buf) (bs_buffer ?st)" "length buf \<le> unat (ByteStream_buffer_size ?st)"
    unfolding buf_def by (rule peek_at_most)+
  have r: "unat n \<le> length buf" "written = take (unat n) buf"
    using FileDescriptor_write_once [OF wr] size(1) by simp_all
  have "written = take (unat n) (bs_buffer ?st)"
    using r size(2) by (metis min.absorb1 take_take)
  moreover have "bs_buffer (ByteStream_pop_output ?st n) = drop (unat n) (bs_buffer ?st)"
    using r(1) size(3) by (auto simp: ByteStream_pop_output_def word_nat)
  ultimately show ?thesis
    using d' assms(2) by (simp add: copying_def)
qed

lemmas copy_updates = update_outbound_def update_inbound_def cancel_outbound_def cancel_inbound_def

lemma copy_rule_cases [consumes 1]:
  assumes "r \<in> set (copy_rules os)"
  obtains "rule_key r = (INPUT, In)" "rule_callback r = rule_input os" "rule_interest r = rule_input_interest" "rule_cancel r = cancel_outbound"
  | "rule_key r = (SOCKET, Out)" "rule_callback r = rule_socket_out os" "rule_interest r = rule_socket_out_interest"
    "rule_cancel r = cancel_outbound"
  | "rule_key r = (SOCKET, In)" "rule_callback r = rule_socket_in os" "rule_interest r = rule_socket_in_interest"
    "rule_cancel r = cancel_inbound"
  | "rule_key r = (OUTPUT, Out)" "rule_callback r = rule_output os" "rule_interest r = rule_output_interest"
    "rule_cancel r = cancel_inbound"
  using assms by (auto simp: copy_rules_def EventLoop_add_rule_def rule_key_def)

lemma copy_rule_keys: "map rule_key (copy_rules os) = [(INPUT, In), (SOCKET, Out), (SOCKET, In), (OUTPUT, Out)]"
  "distinct (map rule_key (copy_rules os))"
  by (simp_all add: copy_rules_def EventLoop_add_rule_def rule_key_def INPUT_def SOCKET_def OUTPUT_def)

lemma copying_shutdown [simp]: "copying (d\<lparr>cd_shutdown := b\<rparr>) = copying d"
  by (simp add: copying_def)

interpretation copier: event_driven "copy_rules os" copy_inv "\<lambda>_ _. True" "\<lambda>_ _. True" True for os
proof unfold_locales
  fix r s s' assume r: "r \<in> set (copy_rules os)" and inv: "copy_inv s"
  show "copy_inv s' \<and> True" if "rule_callback r s = Inr s'"
    using r that inv
    by (cases rule: copy_rule_cases) (auto simp: rule_input_def rule_socket_out_def rule_socket_in_def rule_output_def bindE_Inr_iff
        copy_inv_def copy_updates split: if_splits dest: copy_in_copying copy_out_copying)
  show "copy_inv s' \<and> True" if "rule_cancel r s = Inr s'"
    using r that inv by (cases rule: copy_rule_cases) (auto simp: copy_inv_def copy_updates)
qed auto

text \<open>The states a copy goes through, with the rules that are left.\<close>

inductive copy_run :: "copy_kernel \<Rightarrow> copy_state \<Rightarrow> stream_copy rule list \<Rightarrow> copy_state \<Rightarrow> bool" for os s0 where
  start: "copy_run os s0 (copy_rules os) s0"
| iteration: "copy_run os s0 rules s \<Longrightarrow> copy_iteration os rules s = Inr (result, rules', s') \<Longrightarrow> copy_run os s0 rules' s'"

definition copy_polls :: "copy_kernel \<Rightarrow> bool" where
  "copy_polls os \<longleftrightarrow> (\<forall>k pollfds t revents. ck_poll os k pollfds t = Inr revents \<longrightarrow> length revents = length pollfds)"

lemma copy_run_inv:
  assumes "copy_run os s0 rules s" "copy_inv s0" "copy_polls os"
  shows "copy_inv s \<and> subseq rules (copy_rules os)"
  using assms(1)
proof induction
  case start
  show ?case
    using assms(2) by simp
next
  case (iteration rules s result rules' s')
  obtain t where t: "EventLoop_wait_next_event (ck_poll os (sc_calls (ps_user s))) rules s (- 1) = Inr (result, rules', t)"
    "s' = t\<lparr>ps_user := (ps_user t)\<lparr>sc_calls := Suc (sc_calls (ps_user t))\<rparr>\<rparr>"
    using iteration(2) by (auto simp: copy_iteration_def bindE_Inr_iff)
  have "copy_inv t \<and> subseq rules' (copy_rules os)"
    using copier.wait_next_event_steps [OF t(1)] iteration(3) copy_rule_keys(2) assms(3) by (auto simp: copy_polls_def)
  then show ?case
    using t(2) by (simp add: copy_inv_def)
qed

lemma copy_start_inv: "copy_inv (copy_start input output socket)"
  by (simp add: copy_inv_def copy_start_def copy_direction_new_def copying_def ByteStream_new_def ByteStream_wf_def)

section \<open>The copy is completed\<close>

text \<open>
  A direction with the descriptor it reads from, when there are no hangups: the stream ends exactly
  when the descriptor does, and is shut down only after everything has been written.  \<open>work\<close> bounds what is left to do
  once there is nothing more to read.
\<close>

definition direction_inv :: "fd_wrapper \<Rightarrow> copy_direction \<Rightarrow> bool" where
  "direction_inv w d \<longleftrightarrow> copying d \<and> bs_capacity (cd_stream d) = buffer_size \<and> \<not> bs_error (cd_stream d) \<and>
     (bs_is_ended (cd_stream d) \<longleftrightarrow> fdw_eof w) \<and> (cd_shutdown d \<longrightarrow> ByteStream_eof (cd_stream d))"

definition work :: "fd_wrapper \<Rightarrow> copy_direction \<Rightarrow> nat" where
  "work w d = of_bool (\<not> fdw_eof w) + length (bs_buffer (cd_stream d)) + of_bool (\<not> cd_shutdown d)"

lemma copy_in_returns:
  assumes "direction_inv w d" "\<not> fdw_eof w" "ByteStream_remaining_capacity (cd_stream d) > 0" "reads_some rd"
  obtains w' d' where "copy_in rd w d = Inr (w', d')" "direction_inv w' d'" "fdw_closed w' = fdw_closed w"
    "fdw_read_count w' = fdw_read_count w + 1" "copy_out_interest d \<Longrightarrow> copy_out_interest d'"
    "(\<And>fd n. rd fd n = Inr []) \<Longrightarrow> work w' d' < work w d"
proof -
  let ?st = "cd_stream d"
  obtain w' data where rd: "FileDescriptor_read rd w (ByteStream_remaining_capacity ?st) = Inr (w', data)"
    using FileDescriptor_read_returns [OF assms(4)] by blast
  note r = FileDescriptor_read_result [OF rd]
  define st where "st = fst (ByteStream_write ?st data)"
  define d' where "d' = d\<lparr>cd_stream := if fdw_eof w' then ByteStream_end_input st else st, cd_read := cd_read d @ data\<rparr>"
  have in': "copy_in rd w d = Inr (w', d')"
    using rd by (simp add: copy_in_def d'_def st_def Let_def)
  have wf: "ByteStream_wf ?st" and nd: "\<not> bs_is_ended ?st" "\<not> cd_shutdown d"
    using assms(1,2) by (auto simp: direction_inv_def copying_def ByteStream_eof_def ByteStream_input_ended_def)
  have st: "bs_buffer st = bs_buffer ?st @ data" "bs_capacity st = bs_capacity ?st" "bs_is_ended st = bs_is_ended ?st"
    "bs_error st = bs_error ?st"
    using r(2) wf ByteStream_write_wf [OF wf r(3)] by (auto simp: st_def)
  show thesis
  proof (rule that [OF in' _ r(4,6)])
    show "direction_inv w' d'"
      using copy_in_copying [OF in'] assms(1) nd st
      by (auto simp: direction_inv_def d'_def ByteStream_end_input_def)
    show "copy_out_interest d \<Longrightarrow> copy_out_interest d'"
      using nd st by (auto simp: copy_out_interest_def d'_def byte_stream_defs)
    show "work w' d' < work w d" if "\<And>fd n. rd fd n = Inr []"
      using r(1,5) that assms(2,3) st by (auto simp: work_def d'_def ByteStream_end_input_def)
  qed
qed

lemma peek_waiting:
  assumes "ByteStream_wf st" "bs_buffer st \<noteq> []"
  shows "ByteStream_peek_output st (min 65536 (ByteStream_buffer_size st)) \<noteq> []"
proof -
  have "0 < unat (min 65536 (ByteStream_buffer_size st))"
    using unat_buffer_size [OF assms(1)] assms(2) by (simp add: min_def)
  then show ?thesis
    using assms(2) by (auto simp: ByteStream_peek_output_def)
qed

lemma copy_out_returns:
  assumes inv: "direction_inv src d" and interest: "copy_out_interest d" and "takes_some wr"
  obtains d' where "copy_out wr w d = Inr (FileDescriptor_register_write w, d')" "direction_inv src d'" "\<not> cd_shutdown d'"
    "ByteStream_remaining_capacity (cd_stream d) > 0 \<Longrightarrow> ByteStream_remaining_capacity (cd_stream d') > 0"
    "work src d' < work src d \<or> work src d' = work src d \<and> ByteStream_eof (cd_stream d')"
proof -
  let ?st = "cd_stream d"
  define buf where "buf = ByteStream_peek_output ?st (min 65536 (ByteStream_buffer_size ?st))"
  have wf: "ByteStream_wf ?st" and up: "\<not> cd_shutdown d"
    using inv interest by (auto simp: direction_inv_def copying_def copy_out_interest_def ByteStream_eof_def)
  have size: "length buf \<le> 65536" "length buf \<le> length (bs_buffer ?st)"
    using peek_at_most [of ?st] wf unfolding buf_def by simp_all
  have some: "bs_buffer ?st \<noteq> [] \<Longrightarrow> buf \<noteq> []"
    using peek_waiting [OF wf] by (simp add: buf_def)
  obtain w' n written where wr: "FileDescriptor_write wr w [buf] False = Inr (w', n, written)"
    and n: "buf \<noteq> [] \<longrightarrow> 0 < unat n"
    using FileDescriptor_write_returns [OF assms(3), of buf w] size(1) by auto
  note r = FileDescriptor_write_once [OF wr]
  define d' where "d' = d\<lparr>cd_stream := ByteStream_pop_output ?st n, cd_written := cd_written d @ written\<rparr>"
  have out: "copy_out wr w d = Inr (FileDescriptor_register_write w, d')"
    using wr r(5) size(1) by (simp add: copy_out_def BufferViewList_of_view_def max_copy_length_def d'_def buf_def Let_def)
  have st: "cd_stream d' = ?st\<lparr>bs_buffer := drop (unat n) (bs_buffer ?st)\<rparr>"
    using r(1) size wf by (auto simp: d'_def ByteStream_pop_output_def word_less_nat_alt)
  show thesis
  proof (rule that [OF out])
    show "direction_inv src d'" "\<not> cd_shutdown d'"
      using copy_out_copying [OF out] inv st up by (auto simp: direction_inv_def d'_def)
    then show "ByteStream_remaining_capacity (cd_stream d') > 0" if "ByteStream_remaining_capacity ?st > 0"
      using that wf st by (auto simp: direction_inv_def copying_def word_less_nat_alt)
    show "work src d' < work src d \<or> work src d' = work src d \<and> ByteStream_eof (cd_stream d')"
      using n some interest up st
      by (cases "bs_buffer ?st = []") (auto simp: work_def d'_def copy_out_interest_def byte_stream_defs)
  qed
qed

definition copy_live :: "copy_state \<Rightarrow> bool" where
  "copy_live s \<longleftrightarrow> direction_inv (ps_fds s INPUT) (sc_outbound (ps_user s)) \<and> direction_inv (ps_fds s SOCKET) (sc_inbound (ps_user s)) \<and>
     \<not> fdw_closed (ps_fds s INPUT) \<and> \<not> fdw_closed (ps_fds s SOCKET) \<and>
     (fdw_closed (ps_fds s OUTPUT) \<longrightarrow> cd_shutdown (sc_inbound (ps_user s)))"

definition copy_work :: "copy_state \<Rightarrow> nat" where
  "copy_work s = work (ps_fds s INPUT) (sc_outbound (ps_user s)) + work (ps_fds s SOCKET) (sc_inbound (ps_user s))"

definition copy_ready :: "stream_copy rule \<Rightarrow> copy_state \<Rightarrow> bool" where
  "copy_ready r s \<longleftrightarrow>
     (if rule_key r = (INPUT, In) then \<not> fdw_eof (ps_fds s INPUT) \<and> ByteStream_remaining_capacity (cd_stream (sc_outbound (ps_user s))) > 0
      else if rule_key r = (SOCKET, Out) then copy_out_interest (sc_outbound (ps_user s))
      else if rule_key r = (SOCKET, In) then \<not> fdw_eof (ps_fds s SOCKET) \<and> ByteStream_remaining_capacity (cd_stream (sc_inbound (ps_user s))) > 0
      else rule_key r = (OUTPUT, Out) \<longrightarrow> copy_out_interest (sc_inbound (ps_user s)))"

text \<open>
  \<open>N\<close> is a number of system calls after which there is nothing left to read.  From then on callbacks
  reduce the work.
\<close>

definition copy_steps :: "nat \<Rightarrow> copy_state \<Rightarrow> copy_state \<Rightarrow> bool" where
  "copy_steps N s s' \<longleftrightarrow> sc_calls (ps_user s) \<le> sc_calls (ps_user s') \<and> (N \<le> sc_calls (ps_user s) \<longrightarrow> copy_work s' \<le> copy_work s) \<and>
     (\<forall>h. (fdw_eof (ps_fds s h) \<longrightarrow> fdw_eof (ps_fds s' h)) \<and> (fdw_closed (ps_fds s h) \<longrightarrow> fdw_closed (ps_fds s' h)))"

definition copy_progress :: "nat \<Rightarrow> copy_state \<Rightarrow> copy_state \<Rightarrow> bool" where
  "copy_progress N s s' \<longleftrightarrow> sc_calls (ps_user s) < sc_calls (ps_user s') \<and> (N \<le> sc_calls (ps_user s) \<longrightarrow> copy_work s' < copy_work s)"

text \<open>
  What the copy relies on: the system calls on the descriptors that are ready succeed, a write takes at least one byte
  if there is any, \<^verbatim>\<open>poll\<close> waits, and both sources end.
\<close>

definition copy_serves :: "nat \<Rightarrow> copy_kernel \<Rightarrow> bool" where
  "copy_serves N os \<longleftrightarrow> (\<forall>k. reads_some (ck_read os k) \<and> takes_some (ck_writev os k) \<and> poll_waits (\<lambda>pollfds. ck_poll os k pollfds (- 1))) \<and>
     (\<forall>k fd. ck_shutdown os k fd SHUT_WR = Inr () \<and> ck_close os k fd = Inr ()) \<and>
     (\<forall>k fd n. N \<le> k \<longrightarrow> ck_read os k fd n = Inr [])"

lemmas handles = INPUT_def SOCKET_def OUTPUT_def

text \<open>What a callback does that is ready: the laws of the contract, for one rule.\<close>

definition good_call :: "nat \<Rightarrow> stream_copy rule \<Rightarrow> copy_state \<Rightarrow> copy_state \<Rightarrow> bool" where
  "good_call N r s s' \<longleftrightarrow> copy_live s' \<and> copy_steps N s s' \<and> copy_progress N s s' \<and>
     EventLoop_service_count r s \<noteq> EventLoop_service_count r s' \<and>
     (\<forall>r'. rule_key r' \<noteq> rule_key r \<longrightarrow> copy_ready r' s \<longrightarrow> copy_ready r' s')"

lemmas good_call_defs = good_call_def copy_live_def copy_steps_def copy_progress_def copy_work_def EventLoop_service_count_def
  rule_key_def copy_ready_def

lemma input_good:
  assumes "rule_key r = (INPUT, In)" "copy_live s" "copy_ready r s" "copy_serves N os"
  shows "\<exists>s'. rule_input os s = Inr s' \<and> good_call N r s s'"
proof -
  let ?rd = "ck_read os (sc_calls (ps_user s))" and ?w = "ps_fds s INPUT" and ?d = "sc_outbound (ps_user s)"
  have pre: "direction_inv ?w ?d" "\<not> fdw_eof ?w" "ByteStream_remaining_capacity (cd_stream ?d) > 0" "reads_some ?rd"
    using assms by (simp_all add: copy_live_def copy_ready_def copy_serves_def)
  obtain w' d' where c: "copy_in ?rd ?w ?d = Inr (w', d')" "direction_inv w' d'" "fdw_closed w' = fdw_closed ?w"
    "fdw_read_count w' = fdw_read_count ?w + 1" "copy_out_interest ?d \<Longrightarrow> copy_out_interest d'"
    "(\<And>fd n. ?rd fd n = Inr []) \<Longrightarrow> work w' d' < work ?w ?d"
    using copy_in_returns [OF pre] by blast
  have less: "N \<le> sc_calls (ps_user s) \<Longrightarrow> work w' d' < work ?w ?d"
    using c(6) assms(4) by (simp add: copy_serves_def)
  have "good_call N r s (update_outbound INPUT w' d' s)"
    using assms(1,2) pre(2) c(2-5) less by (auto simp: good_call_defs update_outbound_def handles)
  then show ?thesis
    unfolding rule_input_def c(1) by simp
qed

lemma socket_in_good:
  assumes "rule_key r = (SOCKET, In)" "copy_live s" "copy_ready r s" "copy_serves N os"
  shows "\<exists>s'. rule_socket_in os s = Inr s' \<and> good_call N r s s'"
proof -
  let ?rd = "ck_read os (sc_calls (ps_user s))" and ?w = "ps_fds s SOCKET" and ?d = "sc_inbound (ps_user s)"
  have pre: "direction_inv ?w ?d" "\<not> fdw_eof ?w" "ByteStream_remaining_capacity (cd_stream ?d) > 0" "reads_some ?rd"
    using assms by (simp_all add: copy_live_def copy_ready_def copy_serves_def handles)
  obtain w' d' where c: "copy_in ?rd ?w ?d = Inr (w', d')" "direction_inv w' d'" "fdw_closed w' = fdw_closed ?w"
    "fdw_read_count w' = fdw_read_count ?w + 1" "copy_out_interest ?d \<Longrightarrow> copy_out_interest d'"
    "(\<And>fd n. ?rd fd n = Inr []) \<Longrightarrow> work w' d' < work ?w ?d"
    using copy_in_returns [OF pre] by blast
  have less: "N \<le> sc_calls (ps_user s) \<Longrightarrow> work w' d' < work ?w ?d"
    using c(6) assms(4) by (simp add: copy_serves_def)
  have "\<not> fdw_closed (ps_fds s OUTPUT)"
    using assms(2) pre(2) by (auto simp: copy_live_def direction_inv_def ByteStream_eof_def ByteStream_input_ended_def)
  then have "good_call N r s (update_inbound SOCKET w' d' s)"
    using assms(1,2) pre(2) c(2-5) less by (auto simp: good_call_defs update_inbound_def handles)
  then show ?thesis
    unfolding rule_socket_in_def c(1) by simp
qed

text \<open>A direction whose last byte has gone out is shut down: this is work done, too.\<close>

lemma shutdown_work:
  assumes "direction_inv src d'" "\<not> cd_shutdown d'" "ByteStream_eof (cd_stream d')" "work src d' \<le> work src d"
  shows "direction_inv src (d'\<lparr>cd_shutdown := True\<rparr>)" "work src (d'\<lparr>cd_shutdown := True\<rparr>) < work src d"
  using assms by (auto simp: direction_inv_def work_def)

lemma direction_inv_eof: "fdw_eof w' = fdw_eof w \<Longrightarrow> direction_inv w' d = direction_inv w d" "fdw_eof w' = fdw_eof w \<Longrightarrow> work w' d = work w d"
  by (simp_all add: direction_inv_def work_def)

lemma socket_out_good:
  assumes "rule_key r = (SOCKET, Out)" "copy_live s" "copy_ready r s" "copy_serves N os"
  shows "\<exists>s'. rule_socket_out os s = Inr s' \<and> good_call N r s s'"
proof -
  let ?wr = "ck_writev os (sc_calls (ps_user s))" and ?w = "ps_fds s INPUT" and ?d = "sc_outbound (ps_user s)" and ?t = "ps_fds s SOCKET"
  have pre: "direction_inv ?w ?d" "copy_out_interest ?d" "takes_some ?wr"
    using assms by (simp_all add: copy_live_def copy_ready_def copy_serves_def handles)
  obtain d' where c: "copy_out ?wr ?t ?d = Inr (FileDescriptor_register_write ?t, d')" "direction_inv ?w d'" "\<not> cd_shutdown d'"
    "ByteStream_remaining_capacity (cd_stream ?d) > 0 \<Longrightarrow> ByteStream_remaining_capacity (cd_stream d') > 0"
    "work ?w d' < work ?w ?d \<or> work ?w d' = work ?w ?d \<and> ByteStream_eof (cd_stream d')"
    using copy_out_returns [OF pre] by blast
  have sd: "ck_shutdown os (sc_calls (ps_user s)) fd SHUT_WR = Inr ()" for fd
    using assms(4) by (simp add: copy_serves_def)
  show ?thesis
  proof (cases "ByteStream_eof (cd_stream d')")
    case True
    let ?t' = "FileDescriptor_register_write (FileDescriptor_register_write ?t)"
    note e = shutdown_work [OF c(2,3) True, of ?d]
    have "good_call N r s (update_outbound SOCKET ?t' (d'\<lparr>cd_shutdown := True\<rparr>) s)"
      using assms(1,2) c(4,5) e direction_inv_eof [of ?t' ?t]
      by (auto simp: good_call_defs update_outbound_def handles FileDescriptor_register_write_def)
    then show ?thesis
      unfolding rule_socket_out_def c(1) using True sd by (simp add: Socket_shutdown_def SHUT_RD_def SHUT_WR_def SystemCall_cases)
  next
    case False
    let ?t' = "FileDescriptor_register_write ?t"
    have "good_call N r s (update_outbound SOCKET ?t' d' s)"
      using assms(1,2) c(2,4,5) False direction_inv_eof [of ?t' ?t]
      by (auto simp: good_call_defs update_outbound_def handles FileDescriptor_register_write_def)
    then show ?thesis
      unfolding rule_socket_out_def c(1) using False by simp
  qed
qed

lemma output_good:
  assumes "rule_key r = (OUTPUT, Out)" "copy_live s" "copy_ready r s" "copy_serves N os"
  shows "\<exists>s'. rule_output os s = Inr s' \<and> good_call N r s s'"
proof -
  let ?wr = "ck_writev os (sc_calls (ps_user s))" and ?w = "ps_fds s SOCKET" and ?d = "sc_inbound (ps_user s)" and ?t = "ps_fds s OUTPUT"
  have pre: "direction_inv ?w ?d" "copy_out_interest ?d" "takes_some ?wr"
    using assms by (simp_all add: copy_live_def copy_ready_def copy_serves_def handles)
  obtain d' where c: "copy_out ?wr ?t ?d = Inr (FileDescriptor_register_write ?t, d')" "direction_inv ?w d'" "\<not> cd_shutdown d'"
    "ByteStream_remaining_capacity (cd_stream ?d) > 0 \<Longrightarrow> ByteStream_remaining_capacity (cd_stream d') > 0"
    "work ?w d' < work ?w ?d \<or> work ?w d' = work ?w ?d \<and> ByteStream_eof (cd_stream d')"
    using copy_out_returns [OF pre] by blast
  have open': "\<not> fdw_closed ?t"
    using assms(2) pre(2) by (auto simp: copy_live_def direction_inv_def copy_out_interest_def ByteStream_eof_def)
  have cl: "ck_close os (sc_calls (ps_user s)) fd = Inr ()" for fd
    using assms(4) by (simp add: copy_serves_def)
  show ?thesis
  proof (cases "ByteStream_eof (cd_stream d')")
    case True
    let ?t' = "(FileDescriptor_register_write ?t)\<lparr>fdw_eof := True, fdw_closed := True\<rparr>"
    note e = shutdown_work [OF c(2,3) True, of ?d]
    have "good_call N r s (update_inbound OUTPUT ?t' (d'\<lparr>cd_shutdown := True\<rparr>) s)"
      using assms(1,2) c(4,5) e by (auto simp: good_call_defs update_inbound_def handles FileDescriptor_register_write_def)
    then show ?thesis
      unfolding rule_output_def c(1) using True cl by (simp add: FDWrapper_close_def SystemCall_cases)
  next
    case False
    have "good_call N r s (update_inbound OUTPUT (FileDescriptor_register_write ?t) d' s)"
      using assms(1,2) c(2,4,5) False open'
      by (auto simp: good_call_defs update_inbound_def handles FileDescriptor_register_write_def)
    then show ?thesis
      unfolding rule_output_def c(1) using False by simp
  qed
qed

lemma copy_callback_good:
  assumes "r \<in> set (copy_rules os)" "copy_serves N os \<and> copy_live s" "copy_ready r s"
  shows "\<exists>s'. rule_callback r s = Inr s' \<and> good_call N r s s'"
  using assms(1)
  by (cases rule: copy_rule_cases) (use assms(2,3) input_good socket_out_good socket_in_good output_good in auto)

lemma copy_ended_same: "bs_is_ended (cd_stream d) \<Longrightarrow> copy_ended d = d"
  by (simp add: copy_ended_def ByteStream_end_input_def)

lemma copy_expired_cancel:
  assumes "r \<in> set (copy_rules os)" "copy_live s" "expired r s"
  shows "rule_cancel r s = Inr s"
  using assms(1)
proof (cases rule: copy_rule_cases)
  case 4
  then have "bs_is_ended (cd_stream (sc_inbound (ps_user s)))"
    using assms(2,3) by (auto simp: expired_def rule_key_def copy_live_def direction_inv_def ByteStream_eof_def ByteStream_input_ended_def)
  then show ?thesis
    using 4 by (simp add: cancel_inbound_def copy_ended_same)
qed (use assms(2,3) in \<open>auto simp: expired_def rule_key_def copy_live_def direction_inv_def copy_updates copy_ended_same\<close>)

interpretation server: served_rules "copy_rules os" "\<lambda>s. copy_serves N os \<and> copy_live s" "copy_steps N" copy_ready "copy_progress N" for os N
proof unfold_locales
  fix r s s' assume r: "r \<in> set (copy_rules os)" and inv: "copy_serves N os \<and> copy_live s"
  note good = copy_callback_good [OF r inv] and cancel = copy_expired_cancel [OF r conjunct2 [OF inv]]
  show "copy_ready r s" if "\<not> expired r s" "rule_interest r s"
    using r that
    by (cases rule: copy_rule_cases) (auto simp: copy_ready_def expired_def rule_key_def handles rule_input_interest_def
        rule_socket_out_interest_def rule_socket_in_interest_def rule_output_interest_def Let_def)
  show "(copy_serves N os \<and> copy_live s') \<and> copy_steps N s s'" if "copy_ready r s" "rule_callback r s = Inr s'"
    using good [OF that(1)] that(2) inv by (auto simp: good_call_def)
  show "(copy_serves N os \<and> copy_live s') \<and> copy_steps N s s'" if "False \<or> expired r s" "rule_cancel r s = Inr s'"
    using cancel that inv by (auto simp: copy_steps_def)
  show "\<exists>s'. rule_callback r s = Inr s' \<and> copy_progress N s s' \<and> EventLoop_service_count r s \<noteq> EventLoop_service_count r s'"
    if "copy_ready r s"
    using good [OF that] by (auto simp: good_call_def)
  show "rule_cancel r s = Inr s" if "expired r s"
    using cancel [OF that] .
  fix r' assume r': "r' \<in> set (copy_rules os)" "rule_key r' \<noteq> rule_key r" "copy_ready r' s"
  show "copy_ready r' s'" if "copy_ready r s" "rule_callback r s = Inr s'"
    using good [OF that(1)] that(2) r'(2,3) by (auto simp: good_call_def)
  show "copy_ready r' s'" if "rule_cancel r s = Inr s'"
    using r that r'(2,3) by (cases rule: copy_rule_cases) (auto simp: copy_ready_def copy_updates copy_out_interest_def copy_ended_def byte_stream_defs)
qed (auto simp: copy_steps_def copy_progress_def expired_def)

definition copied :: "copy_direction \<Rightarrow> bool" where
  "copied d \<longleftrightarrow> cd_written d = cd_read d \<and> ByteStream_eof (cd_stream d) \<and> cd_shutdown d"

text \<open>When no rule is left that waits for something, everything has been copied.\<close>

lemma drained:
  assumes "direction_inv w d" "\<not> copy_out_interest d" "ByteStream_remaining_capacity (cd_stream d) > 0 \<Longrightarrow> fdw_eof w"
  shows "copied d"
proof -
  have "bs_buffer (cd_stream d) = []"
    using assms(2) by (simp add: copy_out_interest_def ByteStream_buffer_empty_def)
  moreover from this have "fdw_eof w"
    using assms(1,3) by (auto simp: direction_inv_def copying_def word_less_nat_alt buffer_size_def)
  ultimately show ?thesis
    using assms(1,2) by (auto simp: copied_def direction_inv_def copying_def copy_out_interest_def byte_stream_defs)
qed

lemma copy_idle_copied:
  assumes live: "copy_live s" and idle: "\<And>r. r \<in> set (copy_rules os) \<Longrightarrow> expired r s \<or> \<not> rule_interest r s"
  shows "copied (sc_outbound (ps_user s))" "copied (sc_inbound (ps_user s))"
proof -
  let ?out = "sc_outbound (ps_user s)" and ?in = "sc_inbound (ps_user s)"
  have inv: "direction_inv (ps_fds s INPUT) ?out" "direction_inv (ps_fds s SOCKET) ?in"
    using live by (simp_all add: copy_live_def)
  have "fdw_eof (ps_fds s INPUT) \<or> \<not> rule_input_interest s" "\<not> copy_out_interest ?out"
    "fdw_eof (ps_fds s SOCKET) \<or> \<not> rule_socket_in_interest s" "fdw_closed (ps_fds s OUTPUT) \<or> \<not> copy_out_interest ?in"
    using live idle [of "copy_rules os ! 0"] idle [of "copy_rules os ! 1"] idle [of "copy_rules os ! 2"] idle [of "copy_rules os ! 3"]
    by (auto simp: copy_rules_def EventLoop_add_rule_def expired_def copy_live_def rule_socket_out_interest_def rule_output_interest_def)
  then show "copied ?out" "copied ?in"
    using drained [OF inv(1)] drained [OF inv(2)] inv live
    by (auto simp: rule_input_interest_def rule_socket_in_interest_def Let_def direction_inv_def copy_live_def copied_def copying_def byte_stream_defs)
qed

lemma copy_iteration_cases:
  assumes os: "copy_serves N os" and live: "copy_live s" and rules: "subseq rules (copy_rules os)"
  defines "kept \<equiv> filter (\<lambda>r. \<not> expired r s) rules"
  obtains (exit) s' where "copy_iteration os rules s = Inr (Exit, kept, s')" "copy_live s'" "ps_user s' = (ps_user s)\<lparr>sc_calls := Suc (sc_calls (ps_user s))\<rparr>"
      "\<And>r. r \<in> set rules \<Longrightarrow> expired r s \<or> \<not> rule_interest r s"
  | (success) s' where "copy_iteration os rules s = Inr (Success, kept, s')" "copy_live s'" "copy_progress N s s'"
      "\<And>r. expired r s \<Longrightarrow> expired r s'"
proof -
  have poll: "poll_waits (\<lambda>pollfds. ck_poll os (sc_calls (ps_user s)) pollfds (- 1))" and inv: "copy_serves N os \<and> copy_live s"
    using os live by (simp_all add: copy_serves_def)
  note w = server.wait_returns [where poll = "ck_poll os (sc_calls (ps_user s))", OF inv rules copy_rule_keys(2) poll, folded kept_def]
  show thesis
  proof (cases "\<exists>r \<in> set kept. rule_interest r s")
    case True
    then obtain t where t: "EventLoop_wait_next_event (ck_poll os (sc_calls (ps_user s))) rules s (- 1) = Inr (Success, kept, t)"
      "copy_live t" "copy_steps N s t" "copy_progress N s t"
      using w(2) by blast
    show thesis
      by (rule success [of "t\<lparr>ps_user := (ps_user t)\<lparr>sc_calls := Suc (sc_calls (ps_user t))\<rparr>\<rparr>"])
        (use t in \<open>auto simp: copy_iteration_def copy_live_def copy_steps_def copy_progress_def copy_work_def expired_def\<close>)
  next
    case False
    then have t: "EventLoop_wait_next_event (ck_poll os (sc_calls (ps_user s))) rules s (- 1) = Inr (Exit, kept, s)"
      using w(1) by blast
    show thesis
      by (rule exit [of "s\<lparr>ps_user := (ps_user s)\<lparr>sc_calls := Suc (sc_calls (ps_user s))\<rparr>\<rparr>"])
        (use t False live in \<open>auto simp: copy_iteration_def copy_live_def kept_def\<close>)
  qed
qed

lemma copy_loop_returns:
  assumes "copy_serves N os" "copy_live s" "subseq rules (copy_rules os)" "\<forall>r \<in> set (copy_rules os). r \<in> set rules \<or> expired r s"
  shows "\<exists>s'. copy_loop os rules s = Some (Inr s') \<and> copied (sc_outbound (ps_user s')) \<and> copied (sc_inbound (ps_user s'))"
  using assms(2-4)
proof (induction s arbitrary: rules rule: wf_induct_rule [OF wf_measures, of "[\<lambda>s. N - sc_calls (ps_user s), copy_work]"])
  case (1 s)
  let ?kept = "filter (\<lambda>r. \<not> expired r s) rules"
  from assms(1) "1.prems"(1,2) show ?case
  proof (cases rule: copy_iteration_cases)
    case (exit s')
    then show ?thesis
      using copy_idle_copied [OF "1.prems"(1), of os] "1.prems"(3) by (auto simp: copy_loop.simps [of os rules s])
  next
    case (success s')
    have "(s', s) \<in> measures [\<lambda>s. N - sc_calls (ps_user s), copy_work]"
      using success(3) by (auto simp: copy_progress_def)
    moreover have "subseq ?kept (copy_rules os)"
      using "1.prems"(2) by (rule subseq_order.trans [OF subseq_filter_left])
    ultimately show ?thesis
      using "1.IH" [of s' ?kept] success(1,2,4) "1.prems"(3) by (auto simp: copy_loop.simps [of os rules s])
  qed
qed

section \<open>Properties\<close>

text \<open>
  C37. No byte is lost, repeated or reordered, whatever the kernel does: at every moment of a copy, what was read
  for a direction is what was written from it, followed by what waits in its byte stream.
\<close>

theorem stream_copy_conserves:
  assumes "copy_run os (copy_start input output socket) rules s"
    and "\<forall>k pollfds t revents. ck_poll os k pollfds t = Inr revents \<longrightarrow> length revents = length pollfds"
  shows "cd_read (sc_outbound (ps_user s)) = cd_written (sc_outbound (ps_user s)) @ bs_buffer (cd_stream (sc_outbound (ps_user s))) \<and>
    cd_read (sc_inbound (ps_user s)) = cd_written (sc_inbound (ps_user s)) @ bs_buffer (cd_stream (sc_inbound (ps_user s)))"
  using copy_run_inv [OF assms(1) copy_start_inv] assms(2) by (auto simp: copy_polls_def copy_inv_def copying_def)


text \<open>A kernel that gives one byte of standard input, then the end of both sources.\<close>

definition example_kernel :: copy_kernel where
  "example_kernel = \<lparr>ck_read = (\<lambda>k fd n. Inr (if k = 0 \<and> 0 < n then [65] else [])),
     ck_writev = (\<lambda>k fd j iovecs. Inr (length (concat (map fst iovecs)))),
     ck_shutdown = (\<lambda>k fd how. Inr ()), ck_close = (\<lambda>k fd. Inr ()),
     ck_poll = (\<lambda>k pollfds t. Inr (map (\<lambda>p. pfd_events p AND (POLLIN OR POLLOUT)) pollfds))\<rparr>"

definition example_socket :: fd_wrapper where
  "example_socket = \<lparr>fdw_fd = 3, fdw_eof = False, fdw_closed = False, fdw_read_count = 0, fdw_write_count = 0\<rparr>"

lemma example_kernel_serves: "copy_serves 1 example_kernel"
proof -
  have "(ev AND (POLLIN OR POLLOUT)) AND (POLLERR OR POLLNVAL) = 0" "(ev AND (POLLIN OR POLLOUT)) AND POLLHUP = 0" for ev
    by (simp_all add: POLLIN_def POLLOUT_def POLLERR_def POLLNVAL_def POLLHUP_def and.assoc)
  moreover have "(ev AND (POLLIN OR POLLOUT)) AND ev = ev AND (POLLIN OR POLLOUT)" for ev
    by (metis and.assoc and.commute and.idem)
  ultimately have "poll_waits (\<lambda>pollfds. Inr (map (\<lambda>p. pfd_events p AND (POLLIN OR POLLOUT)) pollfds))"
    by (auto simp: poll_waits_def list_all2_map2 list_all2_same)
  then show ?thesis
    by (auto simp: copy_serves_def example_kernel_def reads_some_def takes_some_def word_less_nat_alt)
qed


theorem stream_copy_conserves_witness:
  "\<exists>rules s. copy_run example_kernel (copy_start example_socket example_socket example_socket) rules s \<and>
    cd_read (sc_outbound (ps_user s)) = [65] \<and>
    cd_read (sc_outbound (ps_user s)) = cd_written (sc_outbound (ps_user s)) @ bs_buffer (cd_stream (sc_outbound (ps_user s))) \<and>
    cd_read (sc_inbound (ps_user s)) = cd_written (sc_inbound (ps_user s)) @ bs_buffer (cd_stream (sc_inbound (ps_user s)))"
proof -
  let ?start = "copy_start example_socket example_socket example_socket"
  have "case copy_iteration example_kernel (copy_rules example_kernel) ?start of Inl _ \<Rightarrow> False
      | Inr (result, rules, s) \<Rightarrow> result = Success \<and> cd_read (sc_outbound (ps_user s)) = [65]"
    by (simp add: copy_iteration_def EventLoop_wait_next_event_def copy_rules_def EventLoop_add_rule_def copy_start_def handles
        example_kernel_def example_socket_def rule_input_interest_def rule_socket_out_interest_def rule_socket_in_interest_def
        rule_output_interest_def copy_out_interest_def copy_direction_new_def byte_stream_defs buffer_size_def SystemCall_cases
        POLLIN_def POLLOUT_def POLLERR_def POLLNVAL_def POLLHUP_def rule_input_def rule_socket_in_def copy_in_def
        FileDescriptor_read_def FileDescriptor_register_read_def BUFFER_SIZE_def update_outbound_def update_inbound_def
        EventLoop_service_count_def Let_def)
  then obtain rules s where it: "copy_iteration example_kernel (copy_rules example_kernel) ?start = Inr (Success, rules, s)"
    "cd_read (sc_outbound (ps_user s)) = [65]"
    by (auto split: sum.splits)
  have "copy_run example_kernel ?start rules s"
    using copy_run.iteration [OF copy_run.start it(1)] .
  then show ?thesis
    using stream_copy_conserves it(2) by (intro exI [of _ rules] exI [of _ s]) (simp add: example_kernel_def)
qed

end
