(* ===== verification/Webget.thy ===== *)
theory Webget
  imports Sponge_Socket
begin

text \<open>
  \<^verbatim>\<open>apps/webget.cc\<close>, the client that fetches a URL through a \<^verbatim>\<open>FullStackSocket\<close>, with the construction of
  that socket and of the TAP device below it (\<^verbatim>\<open>libsponge/util/tun.cc\<close>).  Everything the server sends is
  printed; but the descriptor is closed before \<^verbatim>\<open>wait_until_closed\<close>, which then throws.
\<close>

section \<open>TunTapFD\<close>

definition IFNAMSIZ :: nat where
  "IFNAMSIZ = 16"

definition IFF_TUN :: u16 where
  "IFF_TUN = 0x0001"

definition IFF_TAP :: u16 where
  "IFF_TAP = 0x0002"

definition IFF_NO_PI :: u16 where
  "IFF_NO_PI = 0x1000"

text \<open>
  \<^verbatim>\<open>strncpy\<close> copies up to the first zero byte and fills up with zeros; the last byte of the name is zero
  in any case.
\<close>

definition ifreq_name :: "bytes \<Rightarrow> bytes" where
  "ifreq_name devname =
     (let copied = take (IFNAMSIZ - 1) (takeWhile (\<lambda>c. c \<noteq> 0) devname)
      in (copied @ replicate (IFNAMSIZ - length copied) 0)[IFNAMSIZ - 1 := 0])"

definition TunTapFD_new ::
  "(string \<Rightarrow> nat syscall) \<Rightarrow> (int \<Rightarrow> u16 \<Rightarrow> bytes \<Rightarrow> unit syscall) \<Rightarrow> bytes \<Rightarrow> bool \<Rightarrow> fd_wrapper outcome" where
  "TunTapFD_new open' ioctl devname is_tun =
     (let r = open' ''/dev/net/tun''
      in bindE (SystemCall ''open'' (syscall_value (\<lambda>n. n) r) (syscall_errno r) 0) (\<lambda>fd.
         bindE (FDWrapper_new fd) (\<lambda>w.
         let flags = (if is_tun then IFF_TUN else IFF_TAP) OR IFF_NO_PI;
             r = ioctl (fdw_fd w) flags (ifreq_name devname)
         in bindE (SystemCall ''ioctl'' (syscall_value (\<lambda>_. 0) r) (syscall_errno r) 0) (\<lambda>_. Inr w))))"

text \<open>The name is a terminated string: the device name, cut off after 15 bytes.\<close>

lemma ifreq_name_terminated:
  "length (ifreq_name devname) = 16"
  "takeWhile (\<lambda>c. c \<noteq> 0) (ifreq_name devname) = take 15 (takeWhile (\<lambda>c. c \<noteq> 0) devname)"
proof -
  let ?copied = "take 15 (takeWhile (\<lambda>c. c \<noteq> 0) devname)"
  have len: "length ?copied \<le> 15"
    by simp
  then have "(?copied @ replicate (16 - length ?copied) 0)[15 := 0] = ?copied @ replicate (16 - length ?copied) 0"
    by (intro list_update_same_conv [THEN iffD2]) (simp_all add: nth_append)
  then have name: "ifreq_name devname = ?copied @ replicate (16 - length ?copied) 0"
    by (simp add: ifreq_name_def IFNAMSIZ_def Let_def)
  then show "length (ifreq_name devname) = 16"
    using len by simp
  have "\<forall>c \<in> set ?copied. c \<noteq> 0"
    by (auto dest!: in_set_takeD set_takeWhileD)
  then have "takeWhile (\<lambda>c. c \<noteq> 0) (?copied @ replicate (16 - length ?copied) 0) =
      ?copied @ takeWhile (\<lambda>c. c \<noteq> 0) (replicate (16 - length ?copied) 0)"
    by (intro takeWhile_append2) blast
  moreover have "takeWhile (\<lambda>c. c \<noteq> 0) (replicate (16 - length ?copied) (0 :: u8)) = []"
    by (cases "16 - length ?copied") simp_all
  ultimately show "takeWhile (\<lambda>c. c \<noteq> 0) (ifreq_name devname) = ?copied"
    unfolding name by (simp only: append_Nil2)
qed

section \<open>get\_URL\<close>

text \<open>
  The system calls of the owner's thread on its end of the socket pair, by the number of the read;
  what happens in the other thread is in \<open>os\<close>.
\<close>

record web_kernel =
  wk_writev :: "int \<Rightarrow> nat \<Rightarrow> (bytes \<times> size_t) list \<Rightarrow> nat syscall"
  wk_read :: "nat \<Rightarrow> int \<Rightarrow> size_t \<Rightarrow> bytes syscall"
  wk_close :: "int \<Rightarrow> unit syscall"

text \<open>The system calls of the construction of the socket, and the values of the random generator.\<close>

record setup_kernel =
  sk_open :: "string \<Rightarrow> nat syscall"
  sk_ioctl :: "int \<Rightarrow> u16 \<Rightarrow> bytes \<Rightarrow> unit syscall"
  sk_writev :: "int \<Rightarrow> nat \<Rightarrow> (bytes \<times> size_t) list \<Rightarrow> nat syscall"
  sk_socketpair :: "int \<Rightarrow> int \<Rightarrow> (nat \<times> nat) syscall"
  sk_getsockopt :: "int \<Rightarrow> socket_option \<Rightarrow> (nat \<times> int) syscall"
  sk_getfl :: "int \<Rightarrow> nat syscall"
  sk_setfl :: "int \<Rightarrow> 32 word \<Rightarrow> unit syscall"
  sk_random :: "nat \<Rightarrow> u32"

definition get_request :: "string \<Rightarrow> string \<Rightarrow> bytes" where
  "get_request host path =
     (let end' = [CHR 0x0D, CHR 0x0A];
          request = ''GET '' @ path @ '' HTTP/1.1'' @ end';
          request = request @ ''Host: '' @ host @ end';
          request = request @ ''Connection: close'' @ end'
      in bytes_of_string (request @ end'))"

text \<open>The loop that prints what it reads; \<open>printed\<close> is what has gone to \<^verbatim>\<open>cout\<close>.\<close>

partial_function (option) get_URL_loop ::
  "(nat \<Rightarrow> int \<Rightarrow> size_t \<Rightarrow> bytes syscall) \<Rightarrow> nat \<Rightarrow> fd_wrapper \<Rightarrow> bytes \<Rightarrow> (bytes \<times> fd_wrapper outcome) option" where
  "get_URL_loop rd k socket printed =
     (if \<not> fdw_eof socket then
        case FileDescriptor_read (rd k) socket (- 1) of
          Inl e \<Rightarrow> Some (printed, Inl e)
        | Inr (socket, str) \<Rightarrow> get_URL_loop rd (Suc k) socket (printed @ str)
      else Some (printed, Inr socket))"

text \<open>From the connected socket on; the result is what was printed, with the exception if there is one.\<close>

definition get_URL_exchange ::
  "'d adapter_ops \<Rightarrow> environment \<Rightarrow> web_kernel \<Rightarrow> 'd sponge_socket rule list \<Rightarrow> 'd socket_state \<Rightarrow> bytes \<Rightarrow> (bytes \<times> unit outcome) option" where
  "get_URL_exchange ops os wk rules s request =
     (case FileDescriptor_write (wk_writev wk) (ps_fds s OWNER) (BufferViewList_of_view request) True of
        Inl e \<Rightarrow> Some ([], Inl e)
      | Inr (socket, _, _) \<Rightarrow>
          (case get_URL_loop (wk_read wk) 0 socket [] of
             None \<Rightarrow> None
           | Some (printed, Inl e) \<Rightarrow> Some (printed, Inl e)
           | Some (printed, Inr socket) \<Rightarrow>
               (case FDWrapper_close (wk_close wk) socket of
                  Inl e \<Rightarrow> Some (printed, Inl e)
                | Inr socket \<Rightarrow>
                    (case TCPSpongeSocket_wait_until_closed ops os rules (set_fd OWNER socket s) of
                       None \<Rightarrow> None
                     | Some r \<Rightarrow> Some (printed, map_sum id (\<lambda>_. ()) r)))))"

definition get_URL ::
  "resolver \<Rightarrow> name_lookup \<Rightarrow> setup_kernel \<Rightarrow> kernel \<Rightarrow> environment \<Rightarrow> web_kernel \<Rightarrow> u32 \<Rightarrow> u32 \<Rightarrow>
   string \<Rightarrow> string \<Rightarrow> (bytes \<times> unit outcome) option" where
  "get_URL getaddrinfo getnameinfo sk tap os wk random_value random_isn host path =
     (case bindE (Address_of_names getaddrinfo host ''http'') (\<lambda>address.
           bindE (FullStackSocket_new getaddrinfo (sk_random sk)
                    (TunTapFD_new (sk_open sk) (sk_ioctl sk) (bytes_of_string ''tap10'') False)
                    (sk_writev sk) (sk_socketpair sk) (sk_getsockopt sk) (sk_getfl sk) (sk_setfl sk)) (\<lambda>s.
             Inr (address, s))) of
        Inl e \<Rightarrow> Some ([], Inl e)
      | Inr (address, s) \<Rightarrow>
          (case FullStackSocket_connect getaddrinfo getnameinfo tap os random_value random_isn s address of
             None \<Rightarrow> None
           | Some (Inl e) \<Rightarrow> Some ([], Inl e)
           | Some (Inr (rules, s)) \<Rightarrow>
               get_URL_exchange (TCPOverIPv4OverEthernetSpongeSocket_ops getaddrinfo getnameinfo tap) os wk rules s
                 (get_request host path)))"

section \<open>What is printed, and how it ends\<close>

definition EBADF :: int where
  "EBADF = 9"

lemma read_all:
  assumes "rd (fdw_fd w) BUFFER_SIZE = Inr data" "length data \<le> unat BUFFER_SIZE"
  shows "FileDescriptor_read rd w (- 1) =
    Inr (FileDescriptor_register_read (if data = [] then w\<lparr>fdw_eof := True\<rparr> else w), data)"
proof -
  have m: "min BUFFER_SIZE (- 1) = BUFFER_SIZE"
    by (simp add: BUFFER_SIZE_def min_def)
  have "\<not> int (unat BUFFER_SIZE) < int (length data)"
    using assms(2) by (simp only: of_nat_less_iff not_less)
  moreover have "(0 :: size_t) < - 1"
    by (simp add: word_gt_0)
  ultimately show ?thesis
    unfolding FileDescriptor_read_def Let_def m assms(1) SystemCall_cases by (auto simp del: of_nat_unat)
qed

lemma get_URL_loop_prints:
  assumes "\<forall>k. rd k fd BUFFER_SIZE = Inr (answer k) \<and> length (answer k) \<le> unat BUFFER_SIZE"
    and "\<forall>i < n. answer (k + i) \<noteq> []" "answer (k + n) = []" "\<not> fdw_eof w" "fdw_fd w = fd"
  shows "\<exists>w'. get_URL_loop rd k w printed = Some (printed @ concat (map answer [k..<k + n]), Inr w') \<and> fdw_fd w' = fd"
  using assms(2-5)
proof (induction n arbitrary: k w printed)
  case 0
  have "FileDescriptor_read (rd k) w (- 1) = Inr (FileDescriptor_register_read (w\<lparr>fdw_eof := True\<rparr>), [])"
    using read_all [of "rd k" w "answer k"] assms(1) 0 by simp
  then show ?case
    using 0 by (simp add: get_URL_loop.simps [of rd k] get_URL_loop.simps [of rd "Suc k"] FileDescriptor_register_read_def)
next
  case (Suc n)
  define w1 where "w1 = FileDescriptor_register_read w"
  have "answer k \<noteq> []"
    using Suc.prems(1) by (metis add.right_neutral zero_less_Suc)
  then have r: "FileDescriptor_read (rd k) w (- 1) = Inr (w1, answer k)"
    using read_all [of "rd k" w "answer k"] assms(1) Suc.prems(4) by (simp add: w1_def)
  have "\<forall>i < n. answer (Suc k + i) \<noteq> []"
    using Suc.prems(1) by (metis add_Suc_shift not_less_eq)
  then obtain w' where "get_URL_loop rd (Suc k) w1 (printed @ answer k) =
      Some ((printed @ answer k) @ concat (map answer [Suc k..<Suc k + n]), Inr w')" "fdw_fd w' = fd"
    using Suc.IH [of "Suc k" w1 "printed @ answer k"] Suc.prems by (auto simp: w1_def FileDescriptor_register_read_def)
  moreover have "[k..<k + Suc n] = k # [Suc k..<Suc k + n]"
    by (simp add: upt_rec)
  ultimately show ?case
    using r Suc.prems(3) by (simp add: get_URL_loop.simps [of rd k])
qed

lemma wait_on_closed:
  assumes "os_shutdown (answers os s) (ss_calls (ps_user s)) (fdw_fd (ps_fds s OWNER)) SHUT_RDWR = Inl EBADF"
  shows "TCPSpongeSocket_wait_until_closed ops os rules s = Some (Inl (Tagged_error ''shutdown'' EBADF))"
  using assms by (simp add: TCPSpongeSocket_wait_until_closed_def Socket_shutdown_def SystemCall_cases EBADF_def)

text \<open>As \<^verbatim>\<open>shutdown\<close> of a closed descriptor fails, \<^verbatim>\<open>get_URL\<close> never returns without an exception.\<close>

lemma get_URL_never_returns:
  assumes "\<forall>b k fd how. os_shutdown (os b) k fd how = Inl EBADF"
  shows "get_URL getaddrinfo getnameinfo sk tap os wk random_value random_isn host path \<noteq> Some (printed, Inr ())"
proof -
  have "get_URL_exchange ops os wk rules s request \<noteq> Some (printed, Inr ())" for ops :: "ethernet_adapter adapter_ops" and rules s request
    using assms by (auto simp: get_URL_exchange_def wait_on_closed answers_def split: sum.splits option.splits)
  then show ?thesis
    by (auto simp: get_URL_def split: sum.splits option.splits)
qed

section \<open>Properties\<close>


text \<open>A server that sends two bytes in one piece and closes.\<close>

definition example_web_kernel :: web_kernel where
  "example_web_kernel = \<lparr>wk_writev = (\<lambda>fd k iovecs. Inr (length (concat (map fst iovecs)))),
     wk_read = (\<lambda>k fd n. Inr (if k = 0 then [79, 75] else [])), wk_close = (\<lambda>fd. Inr ())\<rparr>"

definition example_closed :: environment where
  "example_closed b = \<lparr>os_read = (\<lambda>k fd n. Inl EBADF), os_writev = (\<lambda>k fd i iovecs. Inl EBADF),
     os_shutdown = (\<lambda>k fd how. Inl EBADF), os_poll = (\<lambda>k pollfds t. Inl EINTR), os_timestamp = (\<lambda>k. 0), os_abort = (\<lambda>k. False)\<rparr>"

definition example_connected :: "unit socket_state" where
  "example_connected =
     \<lparr>ps_fds = (\<lambda>h. \<lparr>fdw_fd = 5, fdw_eof = False, fdw_closed = False, fdw_read_count = 0, fdw_write_count = 0\<rparr>),
      ps_user = \<lparr>ss_tcp = None, ss_adapter = (), ss_inbound_shutdown = False, ss_outbound_shutdown = False,
                 ss_fully_acked = False, ss_joinable = True, ss_calls = 0, ss_from_owner = [], ss_to_owner = [], ss_sent = []\<rparr>\<rparr>"

definition silent_ops :: "unit adapter_ops" where
  "silent_ops = \<lparr>ao_read = (\<lambda>k w d. Inr (w, d, None)), ao_write = (\<lambda>k w d seg. Inr (w, d)), ao_tick = (\<lambda>k w d ms. Inr (w, d)),
     ao_set_config = (\<lambda>d c. d), ao_set_listening = (\<lambda>d l. d)\<rparr>"


end
