(* ===== verification/Bouncer.thy ===== *)
theory Bouncer
  imports Event_Loop Sockets
begin

text \<open>
  \<^verbatim>\<open>apps/bouncer.cc\<close>: pairs of UDP sockets, where what arrives at one is sent from the other to the
  address that was last heard there.  It is not an open relay: payloads are forwarded unchanged, in order and
  at most once, and only to addresses that have written to the socket before.
\<close>

section \<open>State\<close>

text \<open>
  The sockets are numbered; those of a pair have numbers \<open>2 * i\<close> and \<open>2 * i + 1\<close>.  The datagrams received and
  sent are recorded with the socket, the address of the other side and the payload.
\<close>

record bounce_kernel =
  bk_recvfrom :: "nat \<Rightarrow> int \<Rightarrow> size_t \<Rightarrow> (bytes \<times> nat \<times> bytes) syscall"
  bk_sendmsg :: "nat \<Rightarrow> int \<Rightarrow> bytes option \<Rightarrow> (bytes \<times> size_t) list \<Rightarrow> nat syscall"
  bk_poll :: "nat \<Rightarrow> poll_call"

record bouncer =
  bo_peers :: "nat \<Rightarrow> address option"
  bo_calls :: nat
  bo_received :: "(nat \<times> address \<times> bytes) list"
  bo_sent :: "(nat \<times> address \<times> bytes) list"

type_synonym bounce_state = "bouncer program_state"

definition partner :: "nat \<Rightarrow> nat" where
  "partner h = (if even h then h + 1 else h - 1)"

section \<open>The rules\<close>

text \<open>The callback of socket \<open>h\<close>, the same for both sockets of a pair.\<close>

definition learn :: "address option \<Rightarrow> address \<Rightarrow> address option" where
  "learn peer source_address =
     (case peer of
        None \<Rightarrow> Some source_address
      | Some a \<Rightarrow> if \<not> Address_eq a source_address then Some source_address else Some a)"

definition bounce :: "bounce_kernel \<Rightarrow> nat \<Rightarrow> bounce_state \<Rightarrow> bounce_state outcome" where
  "bounce os h s =
     bindE (UDPSocket_recv (bk_recvfrom os (bo_calls (ps_user s))) (ps_fds s h) 65536) (\<lambda>(x, source_address, payload).
       let u = ps_user s;
           u = u\<lparr>bo_peers := (bo_peers u)(h := learn (bo_peers u h) source_address), bo_calls := Suc (bo_calls u),
                 bo_received := bo_received u @ [(h, source_address, payload)]\<rparr>;
           s = s\<lparr>ps_fds := (ps_fds s)(h := x), ps_user := u\<rparr>
       in case bo_peers u (partner h) of
            None \<Rightarrow> Inr s
          | Some peer \<Rightarrow>
              if payload \<noteq> [] then
                bindE (UDPSocket_sendto (bk_sendmsg os (bo_calls u)) (ps_fds s (partner h)) peer (BufferViewList_of_view payload)) (\<lambda>y.
                  Inr (s\<lparr>ps_fds := (ps_fds s)(partner h := y),
                         ps_user := u\<lparr>bo_calls := Suc (bo_calls u), bo_sent := bo_sent u @ [(partner h, peer, payload)]\<rparr>\<rparr>))
              else Inr s)"

definition bounce_rule :: "bounce_kernel \<Rightarrow> bouncer rule list \<Rightarrow> nat \<Rightarrow> bouncer rule list" where
  "bounce_rule os rules h = EventLoop_add_rule rules h In (bounce os h) (\<lambda>_. True) (\<lambda>s. Inr s)"

section \<open>The program\<close>

definition SOCK_DGRAM :: int where
  "SOCK_DGRAM = 2"

text \<open>The loop over the ports: two sockets are made and bound, and their rules added.\<close>

fun bouncer_ports ::
  "resolver \<Rightarrow> (nat \<Rightarrow> int \<Rightarrow> int \<Rightarrow> nat syscall) \<Rightarrow> (int \<Rightarrow> bytes \<Rightarrow> unit syscall) \<Rightarrow> bounce_kernel \<Rightarrow> u16 list \<Rightarrow> fd_wrapper list \<Rightarrow>
   bouncer rule list \<Rightarrow> (fd_wrapper list \<times> bouncer rule list) outcome" where
  "bouncer_ports getaddrinfo socket bind os [] sockets rules = Inr (sockets, rules)"
| "bouncer_ports getaddrinfo socket bind os (lower_port # ports) sockets rules =
     bindE (Socket_new (socket (length sockets)) AF_INET_int SOCK_DGRAM) (\<lambda>x.
     bindE (Socket_new (socket (length sockets + 1)) AF_INET_int SOCK_DGRAM) (\<lambda>y.
     bindE (Address_of_ip getaddrinfo ''0'' lower_port) (\<lambda>a.
     bindE (Socket_bind bind x a) (\<lambda>_.
     bindE (Address_of_ip getaddrinfo ''0'' (lower_port + 1)) (\<lambda>a.
     bindE (Socket_bind bind y a) (\<lambda>_.
       let n = length sockets; rules = bounce_rule os (bounce_rule os rules n) (n + 1)
       in bouncer_ports getaddrinfo socket bind os ports (sockets @ [x, y]) rules))))))"

definition lower_ports :: "u16 list" where
  "lower_ports = map (\<lambda>i. 1024 + 2 * word_of_nat i) [0..<31489]"

definition bounce_start :: "fd_wrapper list \<Rightarrow> bounce_state" where
  "bounce_start sockets = \<lparr>ps_fds = (\<lambda>h. sockets ! h), ps_user = \<lparr>bo_peers = (\<lambda>_. None), bo_calls = 0, bo_received = [], bo_sent = []\<rparr>\<rparr>"

definition bounce_iteration ::
  "bounce_kernel \<Rightarrow> bouncer rule list \<Rightarrow> bounce_state \<Rightarrow> (loop_result \<times> bouncer rule list \<times> bounce_state) outcome" where
  "bounce_iteration os rules s =
     bindE (EventLoop_wait_next_event (bk_poll os (bo_calls (ps_user s))) rules s (- 1)) (\<lambda>(result, rules, s).
       Inr (result, rules, s\<lparr>ps_user := (ps_user s)\<lparr>bo_calls := Suc (bo_calls (ps_user s))\<rparr>\<rparr>))"

partial_function (option) bounce_loop :: "bounce_kernel \<Rightarrow> bouncer rule list \<Rightarrow> bounce_state \<Rightarrow> bounce_state outcome option" where
  "bounce_loop os rules s =
     (case bounce_iteration os rules s of
        Inl e \<Rightarrow> Some (Inl e)
      | Inr (result, rules, s) \<Rightarrow> if Exit \<noteq> result then bounce_loop os rules s else Some (Inr s))"

definition program_body ::
  "resolver \<Rightarrow> (nat \<Rightarrow> int \<Rightarrow> int \<Rightarrow> nat syscall) \<Rightarrow> (int \<Rightarrow> bytes \<Rightarrow> unit syscall) \<Rightarrow> bounce_kernel \<Rightarrow> bounce_state outcome option" where
  "program_body getaddrinfo socket bind os =
     (case bouncer_ports getaddrinfo socket bind os lower_ports [] [] of
        Inl e \<Rightarrow> Some (Inl e)
      | Inr (sockets, rules) \<Rightarrow> bounce_loop os rules (bounce_start sockets))"

section \<open>What is relayed\<close>

definition relayed :: "bouncer \<Rightarrow> bool" where
  "relayed u \<longleftrightarrow>
     subseq (map (\<lambda>(h, a, payload). (partner h, payload)) (bo_sent u)) (map (\<lambda>(h, a, payload). (h, payload)) (bo_received u)) \<and>
     (\<forall>(h, a, payload) \<in> set (bo_sent u). payload \<noteq> [] \<and> (\<exists>q. (h, a, q) \<in> set (bo_received u))) \<and>
     (\<forall>h a. bo_peers u h = Some a \<longrightarrow> (\<exists>q. (h, a, q) \<in> set (bo_received u)))"

lemma partner_partner [simp]: "partner (partner h) = h" "partner h \<noteq> h"
  by (auto simp: partner_def elim!: oddE)

lemma relayed_receive:
  assumes "relayed u"
  shows "relayed (u\<lparr>bo_peers := (bo_peers u)(h := learn (bo_peers u h) a), bo_calls := k, bo_received := bo_received u @ [(h, a, p)]\<rparr>)"
  using assms by (auto simp: relayed_def learn_def intro: list_emb_append2 split: option.splits) blast+

lemma relayed_send:
  assumes "relayed u" "bo_peers u (partner h) = Some peer" "payload \<noteq> []"
  shows "relayed (u\<lparr>bo_peers := (bo_peers u)(h := learn (bo_peers u h) a), bo_calls := k,
    bo_received := bo_received u @ [(h, a, payload)], bo_sent := bo_sent u @ [(partner h, peer, payload)]\<rparr>)"
  using relayed_receive [where h = h and a = a and k = k and p = payload, OF assms(1)] assms
  by (auto simp: relayed_def)

lemma bounce_relayed:
  assumes "bounce os h s = Inr s'" "relayed (ps_user s)"
  shows "relayed (ps_user s')"
proof -
  obtain x a p where r: "UDPSocket_recv (bk_recvfrom os (bo_calls (ps_user s))) (ps_fds s h) 65536 = Inr (x, a, p)"
    using assms(1) by (auto simp: bounce_def bindE_Inr_iff)
  let ?received = "(ps_user s)\<lparr>bo_peers := (bo_peers (ps_user s))(h := learn (bo_peers (ps_user s) h) a),
    bo_calls := Suc (bo_calls (ps_user s)), bo_received := bo_received (ps_user s) @ [(h, a, p)]\<rparr>"
  consider "ps_user s' = ?received"
    | peer where "bo_peers (ps_user s) (partner h) = Some peer" "p \<noteq> []"
      "ps_user s' = ?received\<lparr>bo_calls := Suc (Suc (bo_calls (ps_user s))), bo_sent := bo_sent (ps_user s) @ [(partner h, peer, p)]\<rparr>"
    using assms(1) r by (cases "bo_peers (ps_user s) (partner h)") (auto simp: bounce_def bindE_Inr_iff Let_def split: if_splits)
  then show ?thesis
  proof cases
    case 1
    then show ?thesis
      using relayed_receive [OF assms(2)] by simp
  next
    case 2
    then show ?thesis
      using relayed_send [OF assms(2) 2(1,2), of a 0] by (simp add: relayed_def)
  qed
qed

text \<open>A list of rules as the program sets them up: one for every socket.\<close>

definition bounce_rules :: "bounce_kernel \<Rightarrow> nat \<Rightarrow> bouncer rule list" where
  "bounce_rules os n = map (\<lambda>h. \<lparr>rule_fd = h, rule_direction = In, rule_callback = bounce os h, rule_interest = (\<lambda>_. True),
     rule_cancel = (\<lambda>s. Inr s)\<rparr>) [0..<n]"

lemma bounce_rule_rules: "bounce_rule os (bounce_rules os n) n = bounce_rules os (Suc n)"
  by (simp add: bounce_rule_def bounce_rules_def EventLoop_add_rule_def)

lemma bouncer_ports_rules:
  "bouncer_ports getaddrinfo socket bind os ports sockets (bounce_rules os (length sockets)) = Inr (sockets', rules') \<Longrightarrow>
   rules' = bounce_rules os (length sockets')"
proof (induction ports arbitrary: sockets)
  case (Cons p ports)
  obtain x y where "bouncer_ports getaddrinfo socket bind os ports (sockets @ [x, y]) (bounce_rules os (length (sockets @ [x, y]))) =
      Inr (sockets', rules')"
    using Cons.prems by (auto simp: bindE_Inr_iff Let_def bounce_rule_rules)
  then show ?case
    by (rule Cons.IH)
qed simp

interpretation bouncing: event_driven "bounce_rules os n" "\<lambda>s. relayed (ps_user s)" "\<lambda>_ _. True" "\<lambda>_ _. True" True for os n
  by unfold_locales (auto simp: bounce_rules_def dest: bounce_relayed)

lemma bounce_rule_keys: "distinct (map rule_key (bounce_rules os n))"
  by (simp add: bounce_rules_def rule_key_def distinct_map comp_def inj_on_def)

text \<open>The states the program goes through, from the sockets it has made.\<close>

inductive bounce_run :: "bounce_kernel \<Rightarrow> bouncer rule list \<Rightarrow> bounce_state \<Rightarrow> bouncer rule list \<Rightarrow> bounce_state \<Rightarrow> bool"
  for os rules0 s0 where
  start: "bounce_run os rules0 s0 rules0 s0"
| iteration: "bounce_run os rules0 s0 rules s \<Longrightarrow> bounce_iteration os rules s = Inr (result, rules', s') \<Longrightarrow>
    bounce_run os rules0 s0 rules' s'"

lemma bounce_run_relayed:
  assumes "bounce_run os (bounce_rules os n) (bounce_start sockets) rules s"
    and poll: "\<forall>k pollfds t revents. bk_poll os k pollfds t = Inr revents \<longrightarrow> length revents = length pollfds"
  shows "relayed (ps_user s) \<and> subseq rules (bounce_rules os n)"
  using assms(1)
proof induction
  case start
  show ?case
    by (simp add: bounce_start_def relayed_def)
next
  case (iteration rules s result rules' s')
  obtain t where t: "EventLoop_wait_next_event (bk_poll os (bo_calls (ps_user s))) rules s (- 1) = Inr (result, rules', t)"
    "s' = t\<lparr>ps_user := (ps_user t)\<lparr>bo_calls := Suc (bo_calls (ps_user t))\<rparr>\<rparr>"
    using iteration(2) by (auto simp: bounce_iteration_def bindE_Inr_iff)
  have "relayed (ps_user t) \<and> subseq rules' (bounce_rules os n)"
    using bouncing.wait_next_event_steps [OF t(1)] iteration(3) bounce_rule_keys poll by auto
  then show ?case
    using t(2) by (simp add: relayed_def)
qed

section \<open>Properties\<close>

text \<open>
  C39. The bouncer is not an open relay.  Whatever arrives, what it has sent so far is a subsequence of what it has received: a
  payload goes out of the other socket of the pair, unchanged, in order and at most once, never empty, and only to an address
  that has itself written to that other socket.
\<close>

theorem bouncer_relays:
  assumes "bouncer_ports getaddrinfo socket bind os ports [] [] = Inr (sockets, rules0)"
    and "bounce_run os rules0 (bounce_start sockets) rules s"
    and "\<forall>k pollfds t revents. bk_poll os k pollfds t = Inr revents \<longrightarrow> length revents = length pollfds"
  shows "subseq (map (\<lambda>(h, a, payload). (partner h, payload)) (bo_sent (ps_user s)))
      (map (\<lambda>(h, a, payload). (h, payload)) (bo_received (ps_user s))) \<and>
    (\<forall>(h, a, payload) \<in> set (bo_sent (ps_user s)). payload \<noteq> [] \<and> (\<exists>q. (h, a, q) \<in> set (bo_received (ps_user s))))"
proof -
  have "rules0 = bounce_rules os (length sockets)"
    using bouncer_ports_rules [of getaddrinfo socket bind os ports "[]"] assms(1) by (simp add: bounce_rules_def)
  then show ?thesis
    using bounce_run_relayed assms(2,3) unfolding relayed_def by blast
qed

text \<open>One pair, where the second socket hears from its peer first, and then a datagram arrives at the first.\<close>

definition example_bounce :: bounce_kernel where
  "example_bounce = \<lparr>bk_recvfrom = (\<lambda>k fd n. Inr ([2, 0, 0, word_of_nat k], 1, [7])),
     bk_sendmsg = (\<lambda>k fd dst iovecs. Inr (length (concat (map fst iovecs)))),
     bk_poll = (\<lambda>k pollfds t. Inr (map (\<lambda>i. if i = (if k = 0 then 1 else 0) then POLLIN else 0) [0..<length pollfds]))\<rparr>"

definition example_sockets :: "(fd_wrapper list \<times> bouncer rule list) outcome" where
  "example_sockets = bouncer_ports (\<lambda>host service hints. Inr [[2, 0, 4, 0]]) (\<lambda>k domain type'. Inr (k + 3)) (\<lambda>fd a. Inr ())
     example_bounce [1024] [] []"

lemma example_sockets_made:
  "example_sockets = Inr (map (\<lambda>fd. \<lparr>fdw_fd = fd, fdw_eof = False, fdw_closed = False, fdw_read_count = 0, fdw_write_count = 0\<rparr>) [3, 4],
     bounce_rules example_bounce 2)"
  by (simp add: example_sockets_def Socket_new_def SystemCall_cases FDWrapper_new_def Address_of_ip_def Address_resolve_def
      Address_of_sockaddr_def Socket_bind_def bounce_rules_def bounce_rule_def EventLoop_add_rule_def
      sizeof_sockaddr_storage_def sz_def upt_rec)

lemmas example_defs = EventLoop_wait_next_event_def SystemCall_cases bounce_rules_def bounce_start_def example_bounce_def upt_rec
  POLLIN_def POLLERR_def POLLNVAL_def POLLHUP_def bounce_def UDPSocket_recv_def UDPSocket_sendto_def sendmsg_helper_def
  FileDescriptor_register_read_def FileDescriptor_register_write_def EventLoop_service_count_def Address_of_sockaddr_def
  sizeof_sockaddr_storage_def sz_def learn_def partner_def BufferViewList_of_view_def BufferViewList_as_iovecs_def
  BufferViewList_size_def bounce_iteration_def Let_def

theorem bouncer_relays_witness:
  "\<exists>sockets rules0 rules s.
    example_sockets = Inr (sockets, rules0) \<and> bounce_run example_bounce rules0 (bounce_start sockets) rules s \<and>
    map (\<lambda>(h, a, payload). (h, payload)) (bo_sent (ps_user s)) = [(1, [7])] \<and>
    subseq (map (\<lambda>(h, a, payload). (partner h, payload)) (bo_sent (ps_user s)))
      (map (\<lambda>(h, a, payload). (h, payload)) (bo_received (ps_user s)))"
proof -
  let ?sockets = "map (\<lambda>fd. \<lparr>fdw_fd = fd, fdw_eof = False, fdw_closed = False, fdw_read_count = 0, fdw_write_count = 0\<rparr>) [3, 4]"
  let ?rules = "bounce_rules example_bounce 2"
  define first where "first = bounce_iteration example_bounce ?rules (bounce_start ?sockets)"
  define second where "second = bindE first (\<lambda>(_, rules, s). bounce_iteration example_bounce rules s)"
  have "case second of Inl _ \<Rightarrow> False | Inr (_, _, s) \<Rightarrow> map (\<lambda>(h, a, payload). (h, payload)) (bo_sent (ps_user s)) = [(1, [7])]"
    unfolding second_def first_def by (simp add: example_defs)
  then obtain r1 rules1 s1 r2 rules2 s2 where it: "first = Inr (r1, rules1, s1)" "bounce_iteration example_bounce rules1 s1 = Inr (r2, rules2, s2)"
    and sent: "map (\<lambda>(h, a, payload). (h, payload)) (bo_sent (ps_user s2)) = [(1, [7])]"
    by (cases second) (auto simp: second_def bindE_Inr_iff simp del: split_paired_Ex)
  have run: "bounce_run example_bounce ?rules (bounce_start ?sockets) rules2 s2"
    by (rule bounce_run.iteration [OF bounce_run.iteration [OF bounce_run.start it(1) [unfolded first_def]] it(2)])
  have "\<forall>k pollfds t revents. bk_poll example_bounce k pollfds t = Inr revents \<longrightarrow> length revents = length pollfds"
    by (auto simp: example_bounce_def)
  then have "subseq (map (\<lambda>(h, a, payload). (partner h, payload)) (bo_sent (ps_user s2)))
      (map (\<lambda>(h, a, payload). (h, payload)) (bo_received (ps_user s2)))"
    using bouncer_relays [OF example_sockets_made [unfolded example_sockets_def] run] by simp
  then show ?thesis
    by (intro exI conjI) (rule example_sockets_made run sent | assumption)+
qed

end
