(* ===== verification/Udp_Tcpdump.thy ===== *)
theory Udp_Tcpdump
  imports Tcp_Segment "HOL-Library.Sublist"
begin

text \<open>
  \<^verbatim>\<open>apps/udp_tcpdump.cc\<close>: where in a captured packet the UDP payload starts, and what is made of it.  An
  access outside the packet is undefined.  The walk over the headers ends and stays inside the packet, except for
  an IPv4 packet shorter than its fixed header; but the payload may start behind the end of the packet.
\<close>

unbundle bit_operations_syntax

section \<open>The IP header\<close>

definition byte_at :: "bytes \<Rightarrow> nat \<Rightarrow> u8 outcome" where
  "byte_at data i = (if i < length data then Inr (data ! i) else Inl (Undefined ''read outside the packet''))"

definition bytes_at :: "bytes \<Rightarrow> nat \<Rightarrow> nat \<Rightarrow> bytes outcome" where
  "bytes_at data i n = (if i + n \<le> length data then Inr (take n (drop i data)) else Inl (Undefined ''read outside the packet''))"

text \<open>\<open>inet_ntop\<close> gives the text of an address, or fails.\<close>

definition inet4_addr :: "(bytes \<Rightarrow> string option) \<Rightarrow> bytes \<Rightarrow> nat \<Rightarrow> string outcome" where
  "inet4_addr inet_ntop data i =
     bindE (bytes_at data i 4) (\<lambda>addr. Inr (case inet_ntop addr of None \<Rightarrow> ''unknown'' | Some s \<Rightarrow> s))"

definition inet6_addr :: "(bytes \<Rightarrow> string option) \<Rightarrow> bytes \<Rightarrow> nat \<Rightarrow> string outcome" where
  "inet6_addr inet_ntop data i =
     bindE (bytes_at data i 16) (\<lambda>addr. Inr (case inet_ntop addr of None \<Rightarrow> ''unknown'' | Some s \<Rightarrow> s))"

text \<open>The loop over the extension headers of IPv6; the result is the offset of the UDP header, or -1.\<close>

function skip_extension_headers :: "int \<Rightarrow> bytes \<Rightarrow> u8 \<Rightarrow> nat \<Rightarrow> int outcome" where
  "skip_extension_headers len data nxt data_offset =
     (if nxt \<noteq> 0x11 then
        if nxt \<noteq> 0 \<and> nxt \<noteq> 43 \<and> nxt \<noteq> 60 then Inr (- 1)
        else
          bindE (byte_at data data_offset) (\<lambda>nxt.
          bindE (byte_at data (data_offset + 1)) (\<lambda>hdr_len.
            let data_offset' = data_offset + 8 * (1 + unat hdr_len)
            in if len < int data_offset' + 2 then Inr (- 1) else skip_extension_headers len data nxt data_offset'))
      else Inr (int data_offset))"
  by pat_completeness auto
termination
  by (relation "measure (\<lambda>(_, data, _, data_offset). length data - data_offset)") (auto simp: byte_at_def split: if_splits)

declare skip_extension_headers.simps [simp del]

text \<open>The result: the offset of the payload or -1, and the two addresses.\<close>

definition process_ipv4_ipv6 ::
  "(bytes \<Rightarrow> string option) \<Rightarrow> (bytes \<Rightarrow> string option) \<Rightarrow> int \<Rightarrow> bytes \<Rightarrow> (int \<times> string \<times> string) outcome" where
  "process_ipv4_ipv6 ntop4 ntop6 len data =
     (if len < 1 then Inr (- 1, '''', '''')
      else
        bindE (byte_at data 0) (\<lambda>first.
          let pt = first AND 0xf0
          in if pt = 0x40 then
               let data_offset = unat (first AND 0x0f) * 4
               in if len < int data_offset then Inr (- 1, '''', '''')
                  else
                    bindE (byte_at data 9) (\<lambda>proto.
                      if proto \<noteq> 0x11 then Inr (- 1, '''', '''')
                      else
                        bindE (inet4_addr ntop4 data 12) (\<lambda>src_addr.
                        bindE (inet4_addr ntop4 data 16) (\<lambda>dst_addr. Inr (int data_offset + 8, src_addr, dst_addr))))
             else if pt = 0x60 then
               if len < 42 then Inr (- 1, '''', '''')
               else
                 bindE (byte_at data 6) (\<lambda>nxt.
                 bindE (skip_extension_headers len data nxt 40) (\<lambda>data_offset.
                   if data_offset = - 1 then Inr (- 1, '''', '''')
                   else
                     bindE (inet6_addr ntop6 data 8) (\<lambda>src_addr.
                     bindE (inet6_addr ntop6 data 24) (\<lambda>dst_addr. Inr (data_offset + 8, src_addr, dst_addr)))))
             else Inr (- 1, '''', '''')))"

section \<open>The packet\<close>

datatype datalink = DLT_NULL | DLT_EN10MB | DLT_LINUX_SLL | DLT_LINUX_SLL2 | DLT_RAW

text \<open>The length of the link-layer header, or \<open>None\<close> if the packet is skipped.\<close>

definition ip_types :: "bytes \<Rightarrow> nat \<Rightarrow> nat \<Rightarrow> nat option outcome" where
  "ip_types pkt_data i hdr_off =
     bindE (byte_at pkt_data i) (\<lambda>hi. bindE (byte_at pkt_data (i + 1)) (\<lambda>lo.
       let pt = push_bit 8 (ucast hi) OR ucast lo :: u16
       in Inr (if pt \<noteq> 0x0800 \<and> pt \<noteq> 0x86dd then None else Some hdr_off)))"

fun link_header :: "datalink \<Rightarrow> bytes \<Rightarrow> nat option outcome" where
  "link_header DLT_NULL pkt_data =
     (if length pkt_data < 4 then Inr None
      else bindE (byte_at pkt_data 3) (\<lambda>pt. Inr (if pt \<noteq> 2 \<and> pt \<noteq> 24 \<and> pt \<noteq> 28 \<and> pt \<noteq> 30 then None else Some 4)))"
| "link_header DLT_EN10MB pkt_data = (if length pkt_data < 14 then Inr None else ip_types pkt_data 12 14)"
| "link_header DLT_LINUX_SLL pkt_data = (if length pkt_data < 16 then Inr None else ip_types pkt_data 14 16)"
| "link_header DLT_LINUX_SLL2 pkt_data = (if length pkt_data < 20 then Inr None else ip_types pkt_data 0 20)"
| "link_header DLT_RAW pkt_data = Inr (Some 0)"

text \<open>
  \<^verbatim>\<open>string(payload)\<close> of a \<^verbatim>\<open>string_view\<close>: a length above \<^verbatim>\<open>max_size\<close> throws, otherwise the bytes are read.
\<close>

definition string_max_size :: size_t where
  "string_max_size = 2 ^ 63 - 1"

definition string_of_view :: "bytes \<Rightarrow> size_t \<Rightarrow> size_t \<Rightarrow> bytes outcome" where
  "string_of_view pkt_data payload_off payload_len =
     (if payload_len > string_max_size then Inl (Length_error ''basic_string::_M_create'')
      else bytes_at pkt_data (unat payload_off) (unat payload_len))"

text \<open>What the loop prints about a packet.\<close>

datatype dump_line =
    Skipped
  | Not_recognized string string
  | Recognized string string tcp_header bool size_t

definition dump_packet ::
  "(bytes \<Rightarrow> string option) \<Rightarrow> (bytes \<Rightarrow> string option) \<Rightarrow> datalink \<Rightarrow> bytes \<Rightarrow> dump_line outcome" where
  "dump_packet ntop4 ntop6 dl_type pkt_data =
     bindE (link_header dl_type pkt_data) (\<lambda>hdr. case hdr of
       None \<Rightarrow> Inr Skipped
     | Some hdr_off \<Rightarrow>
         bindE (process_ipv4_ipv6 ntop4 ntop6 (int (length pkt_data) - int hdr_off) (drop hdr_off pkt_data)) (\<lambda>(start_off, src, dst).
           if start_off < 0 then Inr Skipped
           else
             let payload_off = word_of_nat hdr_off + word_of_int start_off; payload_len = sz pkt_data - payload_off
             in bindE (string_of_view pkt_data payload_off payload_len) (\<lambda>payload.
                bindE (TCPSegment_parse TCPSegment_default (Buffer_new payload) 0) (\<lambda>(res, seg).
                  Inr (if parse_result_index res > parse_result_index BadChecksum then Not_recognized src dst
                       else Recognized src dst (seg_header seg) (res = NoError) payload_len)))))"

section \<open>The walk stays inside the packet\<close>

lemma skip_extension_headers_bounds:
  "data_offset + 2 \<le> length data \<Longrightarrow> runs (skip_extension_headers (int (length data)) data nxt data_offset)
     (\<lambda>off. off = - 1 \<or> int data_offset \<le> off \<and> off + 2 \<le> int (length data))"
proof (induction "length data - data_offset" arbitrary: nxt data_offset rule: less_induct)
  case less
  define off' where "off' = data_offset + 8 * (1 + unat (data ! (data_offset + 1)))"
  have *: "runs (skip_extension_headers (int (length data)) data (data ! data_offset) off')
      (\<lambda>off. off = - 1 \<or> int data_offset \<le> off \<and> off + 2 \<le> int (length data))" if "off' + 2 \<le> length data"
  proof (rule runs_mono [OF less.hyps [OF _ that]])
    have le: "data_offset < off'"
      by (simp add: off'_def)
    then show "length data - off' < length data - data_offset"
      using that by simp
    show "x = - 1 \<or> int data_offset \<le> x \<and> x + 2 \<le> int (length data)"
      if "x = - 1 \<or> int off' \<le> x \<and> x + 2 \<le> int (length data)" for x
      using that le by linarith
  qed
  have "byte_at data data_offset = Inr (data ! data_offset)" "byte_at data (data_offset + 1) = Inr (data ! (data_offset + 1))"
    using less.prems by (simp_all add: byte_at_def)
  then have "skip_extension_headers (int (length data)) data nxt data_offset =
    (if nxt \<noteq> 0x11 then
       if nxt \<noteq> 0 \<and> nxt \<noteq> 43 \<and> nxt \<noteq> 60 then Inr (- 1)
       else if int (length data) < int off' + 2 then Inr (- 1) else skip_extension_headers (int (length data)) data (data ! data_offset) off'
     else Inr (int data_offset))"
    by (subst skip_extension_headers.simps) (simp only: bindE.simps Let_def off'_def)
  then show ?case
    using less.prems * by auto
qed

lemma process_bounds:
  assumes "data \<noteq> [] \<longrightarrow> data ! 0 AND 0xf0 = 0x40 \<longrightarrow> 20 \<le> length data"
  shows "runs (process_ipv4_ipv6 ntop4 ntop6 (int (length data)) data) (\<lambda>(off, _, _). off = - 1 \<or> 8 \<le> off \<and> off \<le> int (length data) + 8)"
proof (cases "data = []")
  case True
  then show ?thesis
    by (simp add: process_ipv4_ipv6_def)
next
  case False
  consider (v4) "data ! 0 AND 0xf0 = 0x40" | (v6) "data ! 0 AND 0xf0 = 0x60" "42 \<le> length data"
    | (other) "data ! 0 AND 0xf0 \<noteq> 0x40" "data ! 0 AND 0xf0 \<noteq> 0x60 \<or> length data < 42"
    by linarith
  then show ?thesis
  proof cases
    case v4
    define n where "n = unat (data ! 0 AND 0x0f) * 4"
    have "length data < n \<or> n \<le> length data"
      by linarith
    then show ?thesis
      using assms False v4 unfolding process_ipv4_ipv6_def byte_at_def inet4_addr_def bytes_at_def Let_def
      by (auto simp: n_def [symmetric])
  next
    case v6
    have "runs (skip_extension_headers (int (length data)) data (data ! 6) 40)
        (\<lambda>off. off = - 1 \<or> 40 \<le> off \<and> off + 2 \<le> int (length data))"
      using skip_extension_headers_bounds [of 40 data "data ! 6"] v6(2) by simp
    then show ?thesis
      using v6 False
      by (auto simp: process_ipv4_ipv6_def byte_at_def inet6_addr_def bytes_at_def Let_def elim!: runs_mono)
  next
    case other
    then show ?thesis
      using False by (auto simp: process_ipv4_ipv6_def byte_at_def Let_def)
  qed
qed

lemma link_header_bounds: "runs (link_header dl pkt_data) (\<lambda>hdr. \<forall>n. hdr = Some n \<longrightarrow> n \<le> length pkt_data)"
  by (cases dl) (auto simp: ip_types_def byte_at_def Let_def)

text \<open>The two ways out of bounds: a short IPv4 packet, and a packet that ends before its UDP header does.\<close>

lemma short_packet_undefined:
  "process_ipv4_ipv6 ntop4 ntop6 1 [0x40] = Inl (Undefined ''read outside the packet'')"
  by (simp add: process_ipv4_ipv6_def byte_at_def)

definition headers_only :: bytes where
  "headers_only = [0x45, 0, 0, 20, 0, 0, 0, 0, 64, 0x11, 0, 0, 10, 0, 0, 1, 10, 0, 0, 2]"

lemma missing_payload_throws:
  "dump_packet ntop4 ntop6 DLT_RAW headers_only = Inl (Length_error ''basic_string::_M_create'')"
  by (simp add: dump_packet_def headers_only_def process_ipv4_ipv6_def byte_at_def inet4_addr_def bytes_at_def Let_def
      string_of_view_def string_max_size_def sz_def)

lemma parse_recognized:
  assumes "fits payload"
  shows "runs (TCPSegment_parse TCPSegment_default (Buffer_new payload) 0) (\<lambda>(res, seg).
    (res = NoError \<longrightarrow> seg_header seg = tcp_header_of payload) \<and> (res = BadChecksum \<longrightarrow> seg = TCPSegment_default))"
proof (cases "InternetChecksum_value (InternetChecksum_add (InternetChecksum_new 0) (Buffer_str (Buffer_new payload))) = 0")
  case True
  have "Buffer_wf (Buffer_new payload)"
    using assms by simp
  then show ?thesis
    using True by (rule TCPSegment_parse_runs) simp_all
next
  case False
  then show ?thesis
    by (simp add: TCPSegment_parse_def Let_def)
qed

lemma payload_view:
  assumes "i \<le> length pkt_data" "length pkt_data < 2 ^ 16"
  shows "unat (sz pkt_data - word_of_nat i) = length (drop i pkt_data)"
    "string_of_view pkt_data (word_of_nat i) (sz pkt_data - word_of_nat i) = Inr (drop i pkt_data)"
proof -
  have i: "unat (word_of_nat i :: size_t) = i" and f: "fits pkt_data"
    using assms by (auto simp: fits_def intro!: unat_of_nat_eq)
  show n: "unat (sz pkt_data - word_of_nat i) = length (drop i pkt_data)"
    using assms(1) i f by (subst unat_sub_nowrap) (simp_all add: word_le_nat_alt)
  have "unat (sz pkt_data - word_of_nat i) \<le> unat string_max_size"
    unfolding n using assms by (simp add: string_max_size_def)
  then have "\<not> string_max_size < sz pkt_data - word_of_nat i"
    by (simp only: word_less_nat_alt not_less)
  then show "string_of_view pkt_data (word_of_nat i) (sz pkt_data - word_of_nat i) = Inr (drop i pkt_data)"
    unfolding string_of_view_def i n bytes_at_def using assms(1) by simp
qed

definition line_of :: "bytes \<Rightarrow> dump_line \<Rightarrow> bool" where
  "line_of pkt_data line \<longleftrightarrow> (\<forall>src dst h correct n. line = Recognized src dst h correct n \<longrightarrow>
     (\<exists>payload. suffix payload pkt_data \<and> unat n = length payload \<and>
        h = (if correct then tcp_header_of payload else seg_header TCPSegment_default)))"

lemma dump_payload:
  assumes "length pkt_data < 2 ^ 16" "link_header dl_type pkt_data = Inr (Some hdr_off)" "hdr_off + m \<le> length pkt_data"
    and process: "process_ipv4_ipv6 ntop4 ntop6 (int (length pkt_data) - int hdr_off) (drop hdr_off pkt_data) = Inr (int m, src, dst)"
  shows "runs (dump_packet ntop4 ntop6 dl_type pkt_data) (line_of pkt_data)"
proof -
  define i where "i = hdr_off + m"
  have i: "i \<le> length pkt_data" "\<not> int m < 0" "word_of_nat hdr_off + word_of_int (int m) = (word_of_nat i :: size_t)"
    using assms(3) by (simp_all add: i_def)
  note v = payload_view [OF i(1) assms(1)]
  have "fits (drop i pkt_data)"
    using assms(1) by (simp add: fits_def)
  note parse = runs_mono [OF parse_recognized [OF this]]
  show ?thesis
    unfolding dump_packet_def assms(2) bindE.simps option.case process prod.case i(3) if_not_P [OF i(2)] Let_def v(2) runs_bindE
  proof (rule parse)
    fix x :: "parse_result \<times> tcp_segment"
    assume x: "case x of (res, seg) \<Rightarrow> (res = NoError \<longrightarrow> seg_header seg = tcp_header_of (drop i pkt_data)) \<and>
      (res = BadChecksum \<longrightarrow> seg = TCPSegment_default)"
    obtain res seg where "x = (res, seg)"
      by fastforce
    then show "runs (case x of (res, seg) \<Rightarrow> Inr (if parse_result_index BadChecksum < parse_result_index res then Not_recognized src dst
        else Recognized src dst (seg_header seg) (res = NoError) (sz pkt_data - word_of_nat i))) (line_of pkt_data)"
      using x v(1) suffix_drop [of i pkt_data] by (cases res) (auto simp: line_of_def)
  qed
qed

section \<open>Properties\<close>


text \<open>An IPv4 packet with a UDP header and two bytes of payload.\<close>

definition complete_packet :: bytes where
  "complete_packet = headers_only @ [0, 7, 0, 8, 0, 10, 0, 0, 1, 2]"


end
