(* ===== verification/Spec2Isabelle.thy ===== *)
theory Spec2Isabelle
  imports Socket_Thread Simulator Stream_Copy Webget Bouncer Udp_Tcpdump
begin

text \<open>
  A verification of \<^verbatim>\<open>sponge\<close>, a TCP/IP stack in C++: a TCP endpoint, the wire formats below it, the network
  interface with ARP, the IP router, and the sockets, event loop and programs that use them.

  \<^bold>\<open>The program.\<close>  An application writes bytes into the \<^verbatim>\<open>ByteStream\<close> of a \<^verbatim>\<open>TCPSender\<close>, which cuts them into
  segments, keeps what is not acknowledged and retransmits it; the \<^verbatim>\<open>TCPReceiver\<close> of the peer unwraps the
  32-bit sequence numbers (\<^verbatim>\<open>WrappingInt32\<close>) and gives the payloads to a \<^verbatim>\<open>StreamReassembler\<close>, whose output is
  the \<^verbatim>\<open>ByteStream\<close> that the other application reads.  A \<^verbatim>\<open>TCPConnection\<close> joins a sender and a receiver;
  \<^verbatim>\<open>TCPState\<close> summarises them.  Segments are serialised (\<^verbatim>\<open>TCPSegment\<close>, \<^verbatim>\<open>IPv4Datagram\<close>, \<^verbatim>\<open>EthernetFrame\<close>,
  \<^verbatim>\<open>ARPMessage\<close>, over \<^verbatim>\<open>NetParser\<close>, \<^verbatim>\<open>Buffer\<close> and \<^verbatim>\<open>InternetChecksum\<close>) and carried by an adapter to a UDP
  socket, a TUN device, or through a \<^verbatim>\<open>NetworkInterface\<close> to a TAP device.  A \<^verbatim>\<open>Router\<close> forwards datagrams
  between interfaces.  A \<^verbatim>\<open>TCPSpongeSocket\<close> runs a connection in a thread of its own, between a socket pair
  and an adapter, with four rules in an \<^verbatim>\<open>EventLoop\<close>.

  \<^bold>\<open>How the code is modelled.\<close>  A class is a \<open>record\<close>, an enumeration a \<open>datatype\<close>, and the method \<open>m\<close> of class \<open>C\<close>
  is \<open>C_m\<close>, which takes the object and returns it updated.  \<^verbatim>\<open>size_t\<close> and the fixed-width integers are
  words, so that arithmetic wraps as in C++; strings are lists of bytes.  What a call may do besides
  returning is in the type \<open>outcome\<close> of \<^verbatim>\<open>Sponge_Prelude\<close>: exceptions are values of \<open>failure\<close>, undefined
  behaviour is \<open>Undefined\<close>, a loop of the sender that does not end is \<open>Diverges\<close>; \<open>runs m Q\<close> says
  that \<open>m\<close> returns and that \<open>Q\<close> holds of the result.  System calls, name resolution, clock and random
  numbers are arguments of the definitions that use them: arbitrary functions, of the number of calls made
  so far where a program makes many.  What a theorem needs of them is a hypothesis that states what
  the manual page says (\<open>takes_some\<close>, \<open>reads_some\<close>, \<open>poll_answer\<close>, \<open>poll_waits\<close>), with a witness at a
  concrete function.

  \<^bold>\<open>The theories\<close>, with what they model under \<^verbatim>\<open>src/libsponge\<close> or \<^verbatim>\<open>src/apps\<close>, and what they show.

  \<^item> \<^verbatim>\<open>Sponge_Prelude\<close>: integer types, outcomes, sizes of strings, words and natural numbers.
  \<^item> \<^verbatim>\<open>Byte_Stream\<close> (\<^verbatim>\<open>byte_stream\<close>): the capacity invariant, and refinement of an unbounded queue with
    counters.  The locale \<open>flow_controlled_stream\<close> is its contract.
  \<^item> \<^verbatim>\<open>Wrapping_Integers\<close> (\<^verbatim>\<open>wrapping_integers\<close>): \<^verbatim>\<open>unwrap\<close> gives the candidate closest to the checkpoint.
  \<^item> \<^verbatim>\<open>Stream_Reassembler\<close> and \<^verbatim>\<open>Reassembly\<close> (\<^verbatim>\<open>stream_reassembler\<close>): invariant and exact effect of a push; over
    a whole run the output is a prefix of the source, and complete once every byte has been pushed.
  \<^item> \<^verbatim>\<open>Buffers\<close>, \<^verbatim>\<open>Net_Parser\<close>, \<^verbatim>\<open>Internet_Checksum\<close> (\<^verbatim>\<open>util/buffer\<close>, \<^verbatim>\<open>util/parser\<close>, \<^verbatim>\<open>util/util\<close>): prefixes are
    removed exactly (locale \<open>discardable\<close>), integers are read back as written, the sum is the
    one's-complement sum.  The locale \<open>wire_format\<close> is the contract of a serialiser and its parser.
  \<^item> \<^verbatim>\<open>Tcp_Segment\<close>, \<^verbatim>\<open>Ipv4\<close>, \<^verbatim>\<open>Ethernet\<close> (\<^verbatim>\<open>tcp_helpers/tcp_header\<close>, \<^verbatim>\<open>tcp_segment\<close>, \<^verbatim>\<open>ipv4_header\<close>, \<^verbatim>\<open>ipv4_datagram\<close>,
    \<^verbatim>\<open>ethernet_header\<close>, \<^verbatim>\<open>ethernet_frame\<close>, \<^verbatim>\<open>arp_message\<close>): round trips, and what the parsers accept.
  \<^item> \<^verbatim>\<open>Tcp_Receiver\<close> (\<^verbatim>\<open>tcp_receiver\<close>): it never throws, its output is right, its window never moves back.
  \<^item> \<^verbatim>\<open>Tcp_Sender\<close> and \<^verbatim>\<open>Sending\<close> (\<^verbatim>\<open>tcp_sender\<close>, \<^verbatim>\<open>tcp_helpers/tcp_config\<close>): \<^verbatim>\<open>fill_window\<close> returns, sends what it may and
    no more; acknowledgments and retransmission; every segment carries the right part of the stream.
  \<^item> \<^verbatim>\<open>Tcp_State\<close>, \<^verbatim>\<open>Tcp_Connection\<close>, \<^verbatim>\<open>Connecting\<close> (\<^verbatim>\<open>tcp_helpers/tcp_state\<close>, \<^verbatim>\<open>tcp_connection\<close>): every method returns
    and keeps the invariant; opening, closing, reset and giving up.
  \<^item> \<^verbatim>\<open>Tcp_Network\<close>: two connections over a network that loses, repeats, delays and reorders.  What is read is a
    prefix of what was written, and what is acknowledged has arrived.
  \<^item> \<^verbatim>\<open>Addresses\<close>, \<^verbatim>\<open>Network_Interface\<close>, \<^verbatim>\<open>Resolution\<close>, \<^verbatim>\<open>Routing\<close> (\<^verbatim>\<open>util/address\<close>, \<^verbatim>\<open>network_interface\<close>, \<^verbatim>\<open>router\<close>): the
    invariant of the caches, at most one request in five seconds, longest-prefix match, and that
    \<^verbatim>\<open>route\<close> empties its queues.
  \<^item> \<^verbatim>\<open>Adapters\<close> (\<^verbatim>\<open>tcp_helpers/fd_adapter\<close>, \<^verbatim>\<open>lossy_fd_adapter\<close>, \<^verbatim>\<open>tcp_over_ip\<close>, \<^verbatim>\<open>tuntap_adapter\<close>): a segment wrapped by one
    adapter is unwrapped by its peer.
  \<^item> \<^verbatim>\<open>File_Descriptors\<close>, \<^verbatim>\<open>Sockets\<close>, \<^verbatim>\<open>Event_Loop\<close> (\<^verbatim>\<open>util/file_descriptor\<close>, \<^verbatim>\<open>util/socket\<close>, \<^verbatim>\<open>util/eventloop\<close>): a write writes
    everything.  The locale \<open>event_driven\<close> is the contract between the loop and the rules of a
    client, from which what the rules keep is kept by the loop; \<open>served_rules\<close> extends it to rules
    that cannot get stuck.
  \<^item> \<^verbatim>\<open>Sponge_Socket\<close> and \<^verbatim>\<open>Socket_Thread\<close> (\<^verbatim>\<open>tcp_helpers/tcp_sponge_socket\<close>): the thread refines an endpoint of
    \<^verbatim>\<open>Tcp_Network\<close>, so that the owner of the socket gets a prefix of the stream of the peer; it accepts every byte it
    reads, and it ends when the connection has.
  \<^item> \<^verbatim>\<open>Simulator\<close> (\<^verbatim>\<open>network_simulator.cc\<close>): two interfaces on a wire resolve each other and deliver.
  \<^item> \<^verbatim>\<open>Stream_Copy\<close> (\<^verbatim>\<open>bidirectional_stream_copy.cc\<close>): no byte is lost whatever the kernel does, and the copy is
    completed when the kernel serves it.
  \<^item> \<^verbatim>\<open>Webget\<close> (\<^verbatim>\<open>webget.cc\<close>, \<^verbatim>\<open>util/tun\<close>), \<^verbatim>\<open>Bouncer\<close> (\<^verbatim>\<open>bouncer.cc\<close>), \<^verbatim>\<open>Udp_Tcpdump\<close> (\<^verbatim>\<open>udp_tcpdump.cc\<close>): everything received is
    printed, but the program ends with an exception; datagrams are relayed only between addresses that have
    written; complete packets are read only inside their bounds.

  Where the code does not do what it means to, a lemma shows the behaviour it has: the capacity 0 of the reassembler, the
  FIN that ends a stream with a hole in it, parsers that drop the verdict on the header, routes with host
  bits, a poll error that is forgotten, a descriptor that is shut down after it was closed.

  \<^bold>\<open>Bounds and loops.\<close>  No definition uses fuel.  A loop over a finite structure is a total function, with a
  measure where the recursion is not structural (the write loop, the fold of the checksum, the search for a
  route, the walk over extension headers).  A loop that may run for ever is a \<open>partial_function\<close>, where
  \<open>None\<close> is not returning: the loop of \<^verbatim>\<open>fill_window\<close>, which is proved to return, and the loops of the
  programs, which depend on what arrives.  The stream copy and the loop of \<^verbatim>\<open>webget\<close> are proved to return when their
  input ends, the socket thread when its connection is over; the bouncer is meant to run for ever.  The theorems about whole runs bound the length of a stream by
  \<open>2 ^ 31\<close>, half of the sequence space, beyond which \<^verbatim>\<open>unwrap\<close> is ambiguous for a segment that is arbitrarily late,
  and assume a receive capacity that is neither zero nor half of the range of \<^verbatim>\<open>size_t\<close>.

  \<^bold>\<open>Not modelled.\<close>  Text that is only printed (\<^verbatim>\<open>to_string\<close>, \<^verbatim>\<open>summary\<close>, \<^verbatim>\<open>hexdump\<close>, the messages on \<^verbatim>\<open>cerr\<close>), with
  the exceptions that its name lookups might throw.  Memory management: a buffer shared by a pointer is
  never changed after its construction and is modelled by its contents, a shared descriptor by a number.  The
  interleaving of two threads inside one call: the thread of a socket and its owner share only the socket pair
  and a flag, and each is seen by the other through the answers of the kernel.  The command lines of the
  programs, and the programs that only combine modelled parts (\<^verbatim>\<open>tcp_native\<close>, \<^verbatim>\<open>tcp_udp\<close>, \<^verbatim>\<open>tcp_ipv4\<close>,
  \<^verbatim>\<open>tcp_ip_ethernet\<close>, \<^verbatim>\<open>lab7\<close>), print packets (\<^verbatim>\<open>tun\<close>) or measure time (\<^verbatim>\<open>tcp_benchmark\<close>); the tests and doctests.
\<close>

end
